(* ===== verification/Prelude.thy ===== *)
theory Prelude
  imports Main "HOL-Library.Word"
begin

text \<open>
  What every theory of the development shares: the ways a Go call can fail to return
  (\<open>fault\<close>), the result type of a call (\<open>'a go\<close>), sequencing of calls, a
  reader/writer lock, and generic facts on lists and maps.
\<close>

unbundle bit_operations_syntax

section \<open>Calls that do not return\<close>

text \<open>
  A Go call either returns, panics, or never returns. \<open>NilDeref\<close>,
  \<open>SliceBounds\<close> and \<open>NegativeShift\<close> are run-time panics, \<open>Panicked\<close> is a call of
  \<open>panic\<close> with a message, \<open>Deadlock\<close> is a lock or channel operation that waits for
  something this goroutine itself would have to do, and \<open>Diverges\<close> is a loop that
  does not end.
\<close>

datatype fault =
    NilDeref
  | SliceBounds
  | IndexOutOfRange
  | NegativeShift
  | DivideByZero
  | Deadlock
  | Diverges
  | Panicked string

type_synonym 'a go = "fault + 'a"

definition go_bind :: "'a go \<Rightarrow> ('a \<Rightarrow> 'b go) \<Rightarrow> 'b go" where
  "go_bind m f = (case m of Inl e \<Rightarrow> Inl e | Inr x \<Rightarrow> f x)"

named_theorems go_simps \<open>rewriting of calls that return or fail\<close>

lemma go_bind_Inr [simp, go_simps]: "go_bind (Inr x) f = f x"
  by (simp add: go_bind_def)

lemma go_bind_Inl [simp, go_simps]: "go_bind (Inl e) f = Inl e"
  by (simp add: go_bind_def)

lemma go_bind_eq_Inr_iff [go_simps]:
  "go_bind m f = Inr y \<longleftrightarrow> (\<exists>x. m = Inr x \<and> f x = Inr y)"
  by (simp add: go_bind_def split: sum.split)

lemma go_bind_eq_Inl_iff:
  "go_bind m f = Inl e \<longleftrightarrow> m = Inl e \<or> (\<exists>x. m = Inr x \<and> f x = Inl e)"
  by (simp add: go_bind_def split: sum.split)

lemma go_bind_assoc: "go_bind (go_bind m f) g = go_bind m (\<lambda>x. go_bind (f x) g)"
  by (simp add: go_bind_def split: sum.split)

text \<open>Running an operation over a list of arguments stops at the first fault.\<close>

fun go_fold :: "('x \<Rightarrow> 's \<Rightarrow> 's go) \<Rightarrow> 'x list \<Rightarrow> 's \<Rightarrow> 's go" where
  "go_fold f [] s = Inr s"
| "go_fold f (x # xs) s = go_bind (f x s) (go_fold f xs)"

lemma go_fold_append:
  "go_fold f (xs @ ys) s = go_bind (go_fold f xs s) (go_fold f ys)"
proof (induction xs arbitrary: s)
  case (Cons x xs)
  then show ?case by (cases "f x s") simp_all
qed simp

lemma go_fold_total:
  assumes "\<And>x s. x \<in> set xs \<Longrightarrow> I s \<Longrightarrow> \<exists>s'. f x s = Inr s' \<and> I s'"
    and "I s"
  shows "\<exists>s'. go_fold f xs s = Inr s' \<and> I s'"
  using assms
proof (induction xs arbitrary: s)
  case Nil
  then show ?case by simp
next
  case (Cons x xs)
  from Cons.prems obtain s1 where "f x s = Inr s1" "I s1" by (meson list.set_intros(1))
  with Cons show ?case by simp
qed

section \<open>sync.RWMutex\<close>

text \<open>
  The lock as one goroutine sees it when nobody else releases: \<open>Lock\<close> waits while there
  is a writer or a reader, \<open>RLock\<close> waits while there is a writer. Waiting for a lock this
  goroutine holds itself is a deadlock.
\<close>

record RWMutex =
  w_held :: bool
  r_count :: nat

definition unlocked :: RWMutex where
  "unlocked = \<lparr>w_held = False, r_count = 0\<rparr>"

definition mu_Lock :: "RWMutex \<Rightarrow> RWMutex go" where
  "mu_Lock m = (if w_held m \<or> r_count m > 0 then Inl Deadlock else Inr (m\<lparr>w_held := True\<rparr>))"

definition mu_Unlock :: "RWMutex \<Rightarrow> RWMutex" where
  "mu_Unlock m = m\<lparr>w_held := False\<rparr>"

definition mu_RLock :: "RWMutex \<Rightarrow> RWMutex go" where
  "mu_RLock m = (if w_held m then Inl Deadlock else Inr (m\<lparr>r_count := r_count m + 1\<rparr>))"

definition mu_RUnlock :: "RWMutex \<Rightarrow> RWMutex" where
  "mu_RUnlock m = m\<lparr>r_count := r_count m - 1\<rparr>"

lemma mu_Lock_unlocked [simp]: "mu_Lock unlocked = Inr \<lparr>w_held = True, r_count = 0\<rparr>"
  by (simp add: mu_Lock_def unlocked_def)

lemma mu_Unlock_locked [simp]: "mu_Unlock \<lparr>w_held = True, r_count = 0\<rparr> = unlocked"
  by (simp add: mu_Unlock_def unlocked_def)

lemma mu_RLock_unlocked [simp]: "mu_RLock unlocked = Inr \<lparr>w_held = False, r_count = 1\<rparr>"
  by (simp add: mu_RLock_def unlocked_def)

lemma mu_RUnlock_locked [simp]: "mu_RUnlock \<lparr>w_held = False, r_count = Suc 0\<rparr> = unlocked"
  by (simp add: mu_RUnlock_def unlocked_def)

section \<open>Lists and maps\<close>

lemma foldl_go_last_Some:
  "foldl (\<lambda>acc x. case f x of None \<Rightarrow> acc | Some y \<Rightarrow> y) a xs
   = (case filter (\<lambda>x. f x \<noteq> None) xs of [] \<Rightarrow> a
      | ys \<Rightarrow> the (f (last ys)))"
proof (induction xs rule: rev_induct)
  case Nil
  then show ?case by simp
next
  case (snoc x xs)
  then show ?case by (cases "f x") (auto split: list.splits option.splits)
qed

lemma take_eq_append_nth:
  "n < length xs \<Longrightarrow> take (Suc n) xs = take n xs @ [xs ! n]"
  by (rule take_Suc_conv_app_nth)

lemma distinct_remove1_filter:
  "distinct xs \<Longrightarrow> remove1 x xs = filter (\<lambda>y. y \<noteq> x) xs"
  by (rule distinct_remove1_removeAll [THEN trans]) (auto simp: removeAll_filter_not_eq intro: filter_cong)

end
