(* ===== verification/GoStrings.thy ===== *)
theory GoStrings
  imports Prelude
begin

text \<open>
  The parts of Go's \<open>strings\<close> and \<open>strconv\<close> packages the program uses, on byte strings:
  \<open>strings.Split\<close> and \<open>strings.Join\<close> for a one-byte separator, \<open>strings.Index\<close>
  and \<open>strings.LastIndex\<close> of a byte, \<open>strings.Contains\<close>, \<open>strings.Replace\<close> of the
  first occurrence, \<open>strings.Trim\<close> of a byte, \<open>strconv.Itoa\<close>, \<open>strconv.Atoi\<close>
  and \<open>strconv.ParseUint\<close> in base 16. A parse error is \<open>None\<close>: no caller looks at
  which error it was.
\<close>

section \<open>strings.Split\<close>

fun Split :: "char \<Rightarrow> string \<Rightarrow> string list" where
  "Split c [] = [[]]"
| "Split c (x # xs) =
     (if x = c then [] # Split c xs
      else (case Split c xs of [] \<Rightarrow> [[x]] | y # ys \<Rightarrow> (x # y) # ys))"

fun Join :: "char \<Rightarrow> string list \<Rightarrow> string" where
  "Join c [] = []"
| "Join c [x] = x"
| "Join c (x # y # ys) = x @ c # Join c (y # ys)"

lemma Split_not_Nil [simp]: "Split c s \<noteq> []"
  by (induction s) (auto split: list.splits)

lemma Split_neq_Nil_E:
  obtains y ys where "Split c s = y # ys"
  by (meson Split_not_Nil neq_Nil_conv)

lemma Join_Cons: "ys \<noteq> [] \<Longrightarrow> Join c (x # ys) = x @ c # Join c ys"
  by (cases ys) auto

lemma Join_Cons_char: "Join c ((x # y) # ys) = x # Join c (y # ys)"
  by (cases ys) auto

lemma Join_Split [simp]: "Join c (Split c s) = s"
proof (induction s)
  case (Cons x xs)
  obtain y ys where "Split c xs = y # ys" by (rule Split_neq_Nil_E)
  with Cons show ?case by (auto simp: Join_Cons Join_Cons_char)
qed simp

lemma Split_no_sep: "seg \<in> set (Split c s) \<Longrightarrow> c \<notin> set seg"
proof (induction s arbitrary: seg)
  case (Cons x xs)
  obtain y ys where "Split c xs = y # ys" by (rule Split_neq_Nil_E)
  with Cons show ?case by (auto split: if_splits)
qed simp

lemma Split_append_sep: "c \<notin> set x \<Longrightarrow> Split c (x @ c # s) = x # Split c s"
  by (induction x) (auto split: list.splits)

lemma Split_no_sep_single: "c \<notin> set x \<Longrightarrow> Split c x = [x]"
  by (induction x) auto

lemma Split_Join:
  "xs \<noteq> [] \<Longrightarrow> (\<And>x. x \<in> set xs \<Longrightarrow> c \<notin> set x) \<Longrightarrow> Split c (Join c xs) = xs"
proof (induction xs rule: Join.induct)
  case (2 c x)
  then show ?case by (simp add: Split_no_sep_single)
qed (simp_all add: Split_append_sep)

lemma length_Split: "length (Split c s) = Suc (count_list s c)"
proof (induction s)
  case (Cons x xs)
  obtain y ys where "Split c xs = y # ys" by (rule Split_neq_Nil_E)
  with Cons show ?case by auto
qed simp

lemma hd_Split: "hd (Split c s) = takeWhile (\<lambda>x. x \<noteq> c) s"
proof (induction s)
  case (Cons x xs)
  obtain y ys where "Split c xs = y # ys" by (rule Split_neq_Nil_E)
  with Cons show ?case by auto
qed simp

section \<open>strings.Index, LastIndex, Contains, Replace, Trim\<close>

text \<open>The index of the first, of the last occurrence of a byte, -1 when there is none.\<close>

fun Index_from :: "int \<Rightarrow> string \<Rightarrow> char \<Rightarrow> int" where
  "Index_from i [] c = -1"
| "Index_from i (x # xs) c = (if x = c then i else Index_from (i + 1) xs c)"

definition Index :: "string \<Rightarrow> char \<Rightarrow> int" where
  "Index s c = Index_from 0 s c"

definition LastIndex :: "string \<Rightarrow> char \<Rightarrow> int" where
  "LastIndex s c =
     (let i = Index_from 0 (rev s) c in if i = -1 then -1 else int (length s) - 1 - i)"

fun HasPrefix :: "string \<Rightarrow> string \<Rightarrow> bool" where
  "HasPrefix s [] = True"
| "HasPrefix [] (y # ys) = False"
| "HasPrefix (x # xs) (y # ys) = (x = y \<and> HasPrefix xs ys)"

fun Contains :: "string \<Rightarrow> string \<Rightarrow> bool" where
  "Contains [] p = (p = [])"
| "Contains (x # xs) p = (HasPrefix (x # xs) p \<or> Contains xs p)"

text \<open>\<open>strings.Replace(s, old, new, 1)\<close>.\<close>

fun Replace1 :: "string \<Rightarrow> string \<Rightarrow> string \<Rightarrow> string" where
  "Replace1 [] old new = (if old = [] then new else [])"
| "Replace1 (x # xs) old new =
     (if HasPrefix (x # xs) old then new @ drop (length old) (x # xs)
      else x # Replace1 xs old new)"

definition Trim :: "string \<Rightarrow> char \<Rightarrow> string" where
  "Trim s c = rev (dropWhile (\<lambda>x. x = c) (rev (dropWhile (\<lambda>x. x = c) s)))"

lemma Index_from_shift: "Index_from i s c = (if c \<in> set s then i + Index_from 0 s c else -1)"
proof (induction s arbitrary: i)
  case (Cons x xs)
  show ?case
    using Cons.IH[of "i + 1"] Cons.IH[of "0 + 1"] by auto
qed simp

lemma Index_from_nonneg: "c \<in> set s \<Longrightarrow> 0 \<le> Index_from 0 s c \<and> Index_from 0 s c < int (length s)"
proof (induction s)
  case (Cons x xs)
  then show ?case using Index_from_shift[of 1 xs c] by auto
qed simp

lemma Index_takeWhile:
  "Index s c = (if c \<in> set s then int (length (takeWhile (\<lambda>x. x \<noteq> c) s)) else -1)"
proof (induction s)
  case (Cons x xs)
  then show ?case using Index_from_shift[of 1 xs c] by (auto simp: Index_def)
qed (simp add: Index_def)

lemma LastIndex_append: "c \<notin> set y \<Longrightarrow> LastIndex (x @ c # y) c = int (length x)"
proof -
  assume "c \<notin> set y"
  then have "takeWhile (\<lambda>z. z \<noteq> c) (rev y @ [c] @ rev x) = rev y"
    by (subst takeWhile_append2) auto
  then have "Index (rev (x @ c # y)) c = int (length y)"
    by (simp add: Index_takeWhile)
  then show ?thesis by (simp add: LastIndex_def Index_def)
qed

lemma LastIndex_absent: "c \<notin> set s \<Longrightarrow> LastIndex s c = -1"
  using Index_takeWhile[of "rev s" c] by (simp add: LastIndex_def Index_def)

lemma HasPrefix_iff: "HasPrefix s p \<longleftrightarrow> (\<exists>t. s = p @ t)"
  by (induction s p rule: HasPrefix.induct) auto

end
