(* ===== verification/GoNumbers.thy ===== *)
theory GoNumbers
  imports GoStrings
begin

text \<open>
  Go's \<open>strconv.Itoa\<close>, \<open>strconv.Atoi\<close> and \<open>strconv.ParseUint(s, 16, 64)\<close>, and the
  64-bit integer type \<open>int\<close>. A parse fails on an empty string, on a byte that is no digit and
  on a value out of range; the caller sees one error value.
\<close>

abbreviation int64_min :: int where "int64_min \<equiv> - (2 ^ 63)"
abbreviation int64_max :: int where "int64_max \<equiv> 2 ^ 63 - 1"

definition digit_val :: "char \<Rightarrow> nat option" where
  "digit_val c = (let n = (of_char c :: nat) in if 48 \<le> n \<and> n \<le> 57 then Some (n - 48) else None)"

definition digit_char :: "nat \<Rightarrow> char" where
  "digit_char d = char_of (48 + d)"

definition hex_val :: "char \<Rightarrow> nat option" where
  "hex_val c = (let n = (of_char c :: nat) in
     if 48 \<le> n \<and> n \<le> 57 then Some (n - 48)
     else if 97 \<le> n \<and> n \<le> 102 then Some (n - 87)
     else if 65 \<le> n \<and> n \<le> 70 then Some (n - 55)
     else None)"

fun parse_digits :: "(char \<Rightarrow> nat option) \<Rightarrow> nat \<Rightarrow> string \<Rightarrow> nat \<Rightarrow> nat option" where
  "parse_digits dv base [] acc = Some acc"
| "parse_digits dv base (c # cs) acc =
     (case dv c of None \<Rightarrow> None | Some d \<Rightarrow> parse_digits dv base cs (acc * base + d))"

definition parse_nat :: "string \<Rightarrow> nat option" where
  "parse_nat s = (if s = [] then None else parse_digits digit_val 10 s 0)"

definition Atoi :: "string \<Rightarrow> int option" where
  "Atoi s =
     (case s of
        [] \<Rightarrow> None
      | c # cs \<Rightarrow>
          (if c = CHR ''-'' then
             (case parse_nat cs of None \<Rightarrow> None
              | Some n \<Rightarrow> if - int n < int64_min then None else Some (- int n))
           else
             (case parse_nat (if c = CHR ''+'' then cs else c # cs) of None \<Rightarrow> None
              | Some n \<Rightarrow> if int n > int64_max then None else Some (int n))))"

definition ParseUint16 :: "string \<Rightarrow> nat option" where
  "ParseUint16 s =
     (if s = [] then None
      else case parse_digits hex_val 16 s 0 of None \<Rightarrow> None
           | Some n \<Rightarrow> if n \<ge> 2 ^ 64 then None else Some n)"

fun nat_digits :: "nat \<Rightarrow> string" where
  "nat_digits n = (if n < 10 then [digit_char n] else nat_digits (n div 10) @ [digit_char (n mod 10)])"

declare nat_digits.simps [simp del]

definition Itoa :: "int \<Rightarrow> string" where
  "Itoa i = (if i < 0 then CHR ''-'' # nat_digits (nat (- i)) else nat_digits (nat i))"

section \<open>Round trips\<close>

lemma digit_val_char [simp]: "d < 10 \<Longrightarrow> digit_val (digit_char d) = Some d"
  by (simp add: digit_val_def digit_char_def Let_def)

lemma of_digit_char: "d < 10 \<Longrightarrow> (of_char (digit_char d) :: nat) = 48 + d"
  by (simp add: digit_char_def)

lemma parse_digits_append:
  "parse_digits dv b (xs @ ys) acc =
     (case parse_digits dv b xs acc of None \<Rightarrow> None | Some a \<Rightarrow> parse_digits dv b ys a)"
  by (induction xs arbitrary: acc) (auto split: option.splits)

lemma nat_digits_not_Nil [simp]: "nat_digits n \<noteq> []"
  by (subst nat_digits.simps) simp

lemma parse_nat_digits: "parse_digits digit_val 10 (nat_digits n) 0 = Some n"
proof (induction n rule: nat_digits.induct)
  case (1 n)
  show ?case
    by (subst nat_digits.simps) (use 1 in \<open>auto simp: parse_digits_append\<close>)
qed

lemma set_nat_digits: "c \<in> set (nat_digits n) \<Longrightarrow> \<exists>d < 10. c = digit_char d"
proof (induction n rule: nat_digits.induct)
  case (1 n)
  then show ?case
    by (subst (asm) nat_digits.simps) (auto split: if_splits intro: exI[of _ "n mod 10"])
qed

lemma digit_char_neq:
  assumes "d < 10" and "(of_char c :: nat) < 48 \<or> (of_char c :: nat) > 57"
  shows "digit_char d \<noteq> c"
  using assms of_digit_char[of d] by force

lemma nat_digits_no_sep:
  "(of_char c :: nat) < 48 \<or> (of_char c :: nat) > 57 \<Longrightarrow> c \<notin> set (nat_digits n)"
  using set_nat_digits digit_char_neq by blast

lemma hd_nat_digits_sign:
  "nat_digits n = c # cs \<Longrightarrow> c \<noteq> CHR ''-'' \<and> c \<noteq> CHR ''+''"
  using nat_digits_no_sep[of "CHR ''-''" n] nat_digits_no_sep[of "CHR ''+''" n] by auto

lemma Atoi_Itoa:
  assumes "int64_min \<le> i" "i \<le> int64_max"
  shows "Atoi (Itoa i) = Some i"
proof (cases "i < 0")
  case True
  with assms show ?thesis
    by (auto simp: Itoa_def Atoi_def parse_nat_def parse_nat_digits)
next
  case False
  obtain c cs where *: "nat_digits (nat i) = c # cs" by (meson nat_digits_not_Nil neq_Nil_conv)
  from hd_nat_digits_sign[OF this] have "c \<noteq> CHR ''-''" "c \<noteq> CHR ''+''" by auto
  moreover have "parse_digits digit_val 10 (c # cs) 0 = Some (nat i)"
    using parse_nat_digits[of "nat i"] * by simp
  ultimately show ?thesis
    using False assms * by (auto simp: Itoa_def Atoi_def parse_nat_def)
qed

lemma Itoa_no_sep:
  "(of_char c :: nat) < 45 \<or> (of_char c :: nat) > 57 \<or> c = CHR ''/'' \<or> c = CHR ''.'' \<Longrightarrow>
   c \<notin> set (Itoa i)"
  using nat_digits_no_sep[of c] by (auto simp: Itoa_def)

lemma Atoi_range: "Atoi s = Some i \<Longrightarrow> int64_min \<le> i \<and> i \<le> int64_max"
  by (auto simp: Atoi_def split: list.splits if_splits option.splits)

lemma Atoi_Nil [simp]: "Atoi [] = None"
  by (simp add: Atoi_def)

end
