(* ===== verification/NetUtils.thy ===== *)
theory NetUtils
  imports GoNumbers
begin

text \<open>
  The pure part of \<open>src/utils/net.go\<close> and \<open>src/utils/tag.go\<close>: reading a dotted
  address into a 32-bit word, the client address of a request, the address class of a string
  and the rules of a struct tag. The functions that open sockets or encode JSON are I/O and are
  not modelled.
\<close>

section \<open>InetToi\<close>

text \<open>
  \<open>tempInt\<close> is a Go \<open>int\<close> (64 bits), shifted left by \<open>pos\<close> and then truncated to
  \<open>uint32\<close>. \<open>pos\<close> falls by 8 with each segment and a negative shift count panics. An
  unparsable segment returns 0 with an error, here \<open>None\<close>.
\<close>

fun InetToi_loop :: "string list \<Rightarrow> int \<Rightarrow> 32 word \<Rightarrow> (32 word) option go" where
  "InetToi_loop [] pos ret = Inr (Some ret)"
| "InetToi_loop (ipSeg # ipSegs) pos ret =
     (case Atoi ipSeg of
        None \<Rightarrow> Inr None
      | Some tempInt \<Rightarrow>
          (if pos < 0 then Inl NegativeShift
           else InetToi_loop ipSegs (pos - 8)
                  (ret OR ucast (push_bit (nat pos) (word_of_int tempInt :: 64 word)))))"

definition InetToi :: "string \<Rightarrow> (32 word) option go" where
  "InetToi ip = InetToi_loop (Split CHR ''.'' ip) 24 0"

section \<open>RemoteIp\<close>

text \<open>
  The part of \<open>http.Request\<close> the program reads. \<open>r_header\<close> holds the headers under their
  canonical names; \<open>hdr_Get\<close> is \<open>Header.Get\<close>: it canonicalises its argument (an upper-case
  letter at the start and after each hyphen, lower case elsewhere) and returns the first value,
  the empty string when there is none.
\<close>

record request =
  r_RemoteAddr :: string
  r_header :: "string \<Rightarrow> string list option"
  r_path :: string
  r_method :: string
  r_host :: string

definition to_upper :: "char \<Rightarrow> char" where
  "to_upper c = (let n = (of_char c :: nat) in if 97 \<le> n \<and> n \<le> 122 then char_of (n - 32) else c)"

definition to_lower :: "char \<Rightarrow> char" where
  "to_lower c = (let n = (of_char c :: nat) in if 65 \<le> n \<and> n \<le> 90 then char_of (n + 32) else c)"

fun canonical_from :: "bool \<Rightarrow> string \<Rightarrow> string" where
  "canonical_from up [] = []"
| "canonical_from up (c # cs) =
     (if up then to_upper c else to_lower c) # canonical_from (c = CHR ''-'') cs"

definition CanonicalHeaderKey :: "string \<Rightarrow> string" where
  "CanonicalHeaderKey s = canonical_from True s"

definition hdr_Get :: "request \<Rightarrow> string \<Rightarrow> string" where
  "hdr_Get req k =
     (case r_header req (CanonicalHeaderKey k) of None \<Rightarrow> [] | Some [] \<Rightarrow> [] | Some (v # vs) \<Rightarrow> v)"

definition RemoteIp :: "request \<Rightarrow> string" where
  "RemoteIp req =
     (if r_RemoteAddr req \<noteq> [] then r_RemoteAddr req
      else if hdr_Get req ''ipv4'' \<noteq> [] then hdr_Get req ''ipv4''
      else if hdr_Get req ''XForwardedFor'' \<noteq> [] then hdr_Get req ''XForwardedFor''
      else if hdr_Get req ''X-Forwarded-For'' \<noteq> [] then hdr_Get req ''X-Forwarded-For''
      else if hdr_Get req ''X-Real-Ip'' \<noteq> [] then hdr_Get req ''X-Real-Ip''
      else ''127.0.0.1'')"

section \<open>ValidIPAddress\<close>

fun v4_segments_ok :: "string list \<Rightarrow> bool" where
  "v4_segments_ok [] = True"
| "v4_segments_ok (s # ss) =
     (if length s > 1 \<and> s ! 0 = CHR ''0'' then False
      else case Atoi s of None \<Rightarrow> False | Some v \<Rightarrow> if v > 255 then False else v4_segments_ok ss)"

fun v6_segments_ok :: "string list \<Rightarrow> bool" where
  "v6_segments_ok [] = True"
| "v6_segments_ok (s # ss) =
     (if length s > 4 then False
      else case ParseUint16 s of None \<Rightarrow> False | Some _ \<Rightarrow> v6_segments_ok ss)"

definition ValidIPAddress :: "string \<Rightarrow> string" where
  "ValidIPAddress queryIP =
     (let sp = Split CHR ''.'' queryIP in
      if length sp = 4 then (if v4_segments_ok sp then ''IPv4'' else ''Neither'')
      else
        let sp6 = Split CHR '':'' queryIP in
        if length sp6 = 8 then (if v6_segments_ok sp6 then ''IPv6'' else ''Neither'')
        else ''Neither'')"

section \<open>ParseTag\<close>

definition ParseTag :: "string \<Rightarrow> string list" where
  "ParseTag tag = map (\<lambda>s. Trim s CHR '' '') (Split CHR '','' tag)"

section \<open>Dotted addresses\<close>

text \<open>The text of an address given by its octets, used to state what the parser reads.\<close>

definition dotted :: "nat list \<Rightarrow> string" where
  "dotted ns = Join CHR ''.'' (map (\<lambda>n. Itoa (int n)) ns)"

lemma Split_dotted: "ns \<noteq> [] \<Longrightarrow> Split CHR ''.'' (dotted ns) = map (\<lambda>n. Itoa (int n)) ns"
  unfolding dotted_def by (rule Split_Join) (auto simp: Itoa_no_sep)

lemma Atoi_Itoa_nat: "int n \<le> int64_max \<Longrightarrow> Atoi (Itoa (int n)) = Some (int n)"
  by (rule Atoi_Itoa) auto

lemma ucast_push: "(ucast (push_bit p (word_of_int (int n) :: 64 word)) :: 32 word) = push_bit p (of_nat n)"
  by (rule bit_word_eqI) (auto simp: bit_simps)

lemma ucast_of_int_nat: "(ucast (word_of_int (int n) :: 64 word) :: 32 word) = of_nat n"
  using ucast_push[of 0 n] by (simp only: push_bit_0_id id_apply)

lemma bit_octet: "n < 256 \<Longrightarrow> bit (push_bit p (of_nat n :: 32 word)) i \<Longrightarrow> p \<le> i \<and> i < p + 8"
proof -
  assume a: "n < 256" "bit (push_bit p (of_nat n :: 32 word)) i"
  then have "p \<le> i" "bit n (i - p)" by (auto simp: bit_simps)
  moreover have "n = take_bit 8 n" using a(1) by (simp add: take_bit_nat_eq_self)
  ultimately have "i - p < 8" by (metis bit_take_bit_iff)
  with \<open>p \<le> i\<close> show ?thesis by simp
qed

lemma InetToi_dotted:
  assumes "a < 256" "b < 256" "c < 256" "d < 256"
  shows "InetToi (dotted [a, b, c, d])
    = Inr (Some (of_nat (a * 2 ^ 24 + b * 2 ^ 16 + c * 2 ^ 8 + d)))"
proof -
  have "int a \<le> int64_max" "int b \<le> int64_max" "int c \<le> int64_max" "int d \<le> int64_max"
    using assms by auto
  then have "InetToi (dotted [a, b, c, d])
    = Inr (Some (push_bit 24 (of_nat a) OR push_bit 16 (of_nat b) OR push_bit 8 (of_nat c) OR of_nat d))"
    by (simp add: InetToi_def Split_dotted Atoi_Itoa_nat ucast_push ucast_of_int_nat or.assoc del: of_int_of_nat_eq)
  moreover have "push_bit 24 (of_nat a) OR push_bit 16 (of_nat b) OR push_bit 8 (of_nat c) OR (of_nat d :: 32 word)
    = push_bit 24 (of_nat a) + push_bit 16 (of_nat b) + push_bit 8 (of_nat c) + of_nat d"
    using bit_octet[OF assms(1), of 24] bit_octet[OF assms(2), of 16] bit_octet[OF assms(3), of 8]
      bit_octet[OF assms(4), of 0]
    apply (subst disjunctive_add [symmetric])
     apply (fastforce simp: bit_or_iff)
    apply (subst disjunctive_add [symmetric])
     apply (fastforce simp: bit_or_iff)
    apply (subst disjunctive_add [symmetric])
     apply (fastforce simp: bit_or_iff)
    apply simp
    done
  ultimately show ?thesis by (simp add: push_bit_eq_mult ac_simps)
qed

lemma InetToi_loop_fault:
  "InetToi_loop segs pos ret = Inl f \<longleftrightarrow>
     f = NegativeShift \<and> (\<exists>i < length segs. pos < 8 * int i \<and> (\<forall>j \<le> i. Atoi (segs ! j) \<noteq> None))"
proof (induction segs pos ret rule: InetToi_loop.induct)
  case (2 seg segs pos ret)
  show ?case
  proof (cases "Atoi seg")
    case None
    then show ?thesis by fastforce
  next
    case (Some t)
    show ?thesis
    proof (cases "pos < 0")
      case True
      have "\<exists>i < length (seg # segs). pos < 8 * int i \<and> (\<forall>j \<le> i. Atoi ((seg # segs) ! j) \<noteq> None)"
        by (rule exI[of _ 0]) (use True Some in simp)
      with True Some show ?thesis by auto
    next
      case False
      have "(\<exists>i < length (seg # segs). pos < 8 * int i \<and> (\<forall>j \<le> i. Atoi ((seg # segs) ! j) \<noteq> None))
        \<longleftrightarrow> (\<exists>i < length segs. pos - 8 < 8 * int i \<and> (\<forall>j \<le> i. Atoi (segs ! j) \<noteq> None))"
        using False Some by (auto simp: Ex_less_Suc2 All_less_Suc2 less_Suc_eq_le [symmetric])
      with False Some "2.IH" show ?thesis by simp
    qed
  qed
qed simp

lemma InetToi_fault_iff:
  "InetToi ip = Inl f \<longleftrightarrow>
     f = NegativeShift \<and> 5 \<le> length (Split CHR ''.'' ip) \<and>
     (\<forall>j \<le> 4. Atoi (Split CHR ''.'' ip ! j) \<noteq> None)"
proof -
  let ?p = "\<lambda>i. \<forall>j \<le> i. Atoi (Split CHR ''.'' ip ! j) \<noteq> None"
  have "(\<exists>i < length (Split CHR ''.'' ip). 24 < 8 * int i \<and> ?p i)
    \<longleftrightarrow> 5 \<le> length (Split CHR ''.'' ip) \<and> ?p 4"
  proof
    assume "\<exists>i < length (Split CHR ''.'' ip). 24 < 8 * int i \<and> ?p i"
    then obtain i where "i < length (Split CHR ''.'' ip)" "4 \<le> i" "?p i" by auto
    then show "5 \<le> length (Split CHR ''.'' ip) \<and> ?p 4" by auto
  next
    assume "5 \<le> length (Split CHR ''.'' ip) \<and> ?p 4"
    then show "\<exists>i < length (Split CHR ''.'' ip). 24 < 8 * int i \<and> ?p i"
      by (intro exI[of _ 4]) simp
  qed
  then show ?thesis by (simp only: InetToi_def InetToi_loop_fault)
qed

lemma hd_nat_digits_zero: "length (nat_digits n) > 1 \<Longrightarrow> nat_digits n ! 0 \<noteq> digit_char 0"
proof (induction n rule: nat_digits.induct)
  case (1 n)
  show ?case
  proof (cases "n < 10")
    case True
    with "1.prems" show ?thesis by (simp add: nat_digits.simps[of n])
  next
    case False
    have nth: "nat_digits n ! 0 = nat_digits (n div 10) ! 0"
      using False by (simp add: nat_digits.simps[of n] nth_append)
    show ?thesis
    proof (cases "length (nat_digits (n div 10)) > 1")
      case True
      with False "1.IH" nth show ?thesis by simp
    next
      case short: False
      then have "n div 10 < 10"
        by (subst (asm) nat_digits.simps) (auto split: if_splits)
      moreover have "of_char (digit_char (n div 10)) \<noteq> (of_char (digit_char 0) :: nat)"
        using \<open>n div 10 < 10\<close> False of_digit_char[of "n div 10"] of_digit_char[of 0] by simp
      ultimately show ?thesis
        using nth by (auto simp: nat_digits.simps[of "n div 10"])
    qed
  qed
qed

lemma digit_char_0: "digit_char 0 = CHR ''0''"
  by code_simp

lemma octet_segment:
  "n < 256 \<Longrightarrow> v4_segments_ok (Itoa (int n) # ss) = v4_segments_ok ss"
proof -
  assume "n < 256"
  then have "Atoi (Itoa (int n)) = Some (int n)" by (intro Atoi_Itoa_nat) simp
  moreover have "\<not> (length (Itoa (int n)) > 1 \<and> Itoa (int n) ! 0 = CHR ''0'')"
    using hd_nat_digits_zero[of n] by (auto simp: Itoa_def digit_char_0)
  ultimately show ?thesis using \<open>n < 256\<close> by (auto simp del: One_nat_def)
qed

lemma ValidIPAddress_dotted:
  "a < 256 \<Longrightarrow> b < 256 \<Longrightarrow> c < 256 \<Longrightarrow> d < 256 \<Longrightarrow>
   ValidIPAddress (dotted [a, b, c, d]) = ''IPv4''"
  by (simp add: ValidIPAddress_def Split_dotted octet_segment del: v4_segments_ok.simps(2))

lemma ValidIPAddress_IPv4_no_fault:
  assumes "ValidIPAddress s = ''IPv4''"
  shows "\<exists>w. InetToi s = Inr w"
proof (cases "InetToi s")
  case (Inl f)
  then have "5 \<le> length (Split CHR ''.'' s)" by (simp add: InetToi_fault_iff)
  with assms show ?thesis by (auto simp: ValidIPAddress_def Let_def split: if_splits)
qed simp

section \<open>Reading back what was written\<close>

text \<open>
  the dotted text of four octets is read back as the 32-bit number of these octets, and is
  classed as an IPv4 address.
\<close>

theorem dotted_address_round_trip:
  assumes "a < 256" "b < 256" "c < 256" "d < 256"
  shows "InetToi (dotted [a, b, c, d]) = Inr (Some (of_nat (a * 2 ^ 24 + b * 2 ^ 16 + c * 2 ^ 8 + d))) \<and>
    ValidIPAddress (dotted [a, b, c, d]) = ''IPv4''"
  using assms by (simp only: InetToi_dotted ValidIPAddress_dotted)

theorem dotted_address_round_trip_witness:
  "InetToi (dotted [192, 168, 0, 1]) = Inr (Some (of_nat (192 * 2 ^ 24 + 168 * 2 ^ 16 + 0 * 2 ^ 8 + 1))) \<and>
    ValidIPAddress (dotted [192, 168, 0, 1]) = ''IPv4''"
  by (rule dotted_address_round_trip) simp_all

end
