(* ===== verification/RadixTree.thy ===== *)
theory RadixTree
  imports NetUtils
begin

text \<open>
  The access control list of \<open>src/acl/radix_tree.go\<close>: a binary tree of heap nodes, one
  level per bit of an IPv4 network number, with a free list of unlinked nodes that is threaded
  through the \<open>right\<close> pointers.

  Nodes live in a heap, a function from addresses to nodes; \<open>t_next\<close> is the first address
  not allocated yet. The heap is explicit because \<open>delete\<close> and \<open>newNode\<close> share nodes
  between the tree and the free list. \<open>search\<close> and the unlinking loop of \<open>delete\<close>
  follow pointers without a bound, so they are \<open>partial_function (option)\<close>; not returning is
  the fault \<open>Diverges\<close>.
\<close>

section \<open>Data\<close>

type_synonym addr = nat

record radixNode =
  n_right :: "addr option"
  n_left :: "addr option"
  n_parent :: "addr option"
  n_value :: string

type_synonym heap = "addr \<Rightarrow> radixNode"

record RadixTree =
  t_heap :: heap
  t_next :: addr
  t_root :: addr
  t_free :: "addr option"
  t_Record :: "string \<Rightarrow> bool option"

datatype acl_error = InvaildIpAddress | InvaildNetMask | CantFindIpNet | AtoiError

definition MAX_IPV4_BIT :: "32 word" where
  "MAX_IPV4_BIT = 0x80000000"

definition NO_VALUE :: string where
  "NO_VALUE = ''''"

definition fresh_node :: radixNode where
  "fresh_node = \<lparr>n_right = None, n_left = None, n_parent = None, n_value = NO_VALUE\<rparr>"

definition NewRadixTree :: RadixTree where
  "NewRadixTree =
     \<lparr>t_heap = (\<lambda>_. fresh_node), t_next = 1, t_root = 0, t_free = None, t_Record = (\<lambda>_. None)\<rparr>"

text \<open>\<open>newNode\<close> pops the free list as it is: the popped node keeps its \<open>right\<close> pointer.\<close>

definition newNode :: "RadixTree \<Rightarrow> addr \<times> RadixTree" where
  "newNode tree =
     (case t_free tree of
        Some node \<Rightarrow> (node, tree\<lparr>t_free := n_right (t_heap tree node)\<rparr>)
      | None \<Rightarrow> (t_next tree,
          tree\<lparr>t_heap := (t_heap tree)(t_next tree := fresh_node), t_next := t_next tree + 1\<rparr>))"

section \<open>insert\<close>

text \<open>Bit 1 goes right, bit 0 goes left.\<close>

definition child :: "heap \<Rightarrow> addr \<Rightarrow> bool \<Rightarrow> addr option" where
  "child h a b = (if b then n_right (h a) else n_left (h a))"

definition set_child :: "heap \<Rightarrow> addr \<Rightarrow> bool \<Rightarrow> addr \<Rightarrow> heap" where
  "set_child h a b c =
     (if b then h(a := (h a)\<lparr>n_right := Some c\<rparr>) else h(a := (h a)\<lparr>n_left := Some c\<rparr>))"

lemma and_drop_bit_decreases:
  "(b :: 32 word) AND m \<noteq> 0 \<Longrightarrow> unat (drop_bit 1 b) < unat b"
proof -
  assume "b AND m \<noteq> 0"
  then have "b \<noteq> 0" by auto
  then have "0 < unat b" by (simp add: unat_gt_0)
  moreover have "unat (drop_bit 1 b) = unat b div 2"
    by (subst unat_drop_bit_eq) (simp add: drop_bit_eq_div)
  ultimately show ?thesis by simp
qed

text \<open>The first loop: walk down along the bits of \<open>key\<close> while the mask lasts and nodes exist.\<close>

function insert_walk ::
  "heap \<Rightarrow> 32 word \<Rightarrow> 32 word \<Rightarrow> 32 word \<Rightarrow> addr \<Rightarrow> addr option \<Rightarrow> 32 word \<times> addr \<times> addr option"
where
  "insert_walk h key msk bt node next =
     (if bt AND msk \<noteq> 0 then
        (case child h node (key AND bt \<noteq> 0) of
           None \<Rightarrow> (bt, node, None)
         | Some n \<Rightarrow> insert_walk h key msk (drop_bit 1 bt) n (Some n))
      else (bt, node, next))"
  by pat_completeness auto
termination
  by (relation "measure (\<lambda>(h, key, msk, bt, node, next). unat bt)")
     (auto intro: and_drop_bit_decreases simp del: One_nat_def)

declare insert_walk.simps [simp del]

text \<open>The second loop: append one new node per remaining bit of the mask.\<close>

function insert_grow ::
  "RadixTree \<Rightarrow> 32 word \<Rightarrow> 32 word \<Rightarrow> 32 word \<Rightarrow> addr \<Rightarrow> RadixTree \<times> addr"
where
  "insert_grow tree key msk bt node =
     (if bt AND msk \<noteq> 0 then
        (let (next, tree1) = newNode tree;
             h1 = (t_heap tree1)(next := (t_heap tree1 next)\<lparr>n_parent := Some node\<rparr>);
             h2 = h1(next := (h1 next)\<lparr>n_value := NO_VALUE\<rparr>);
             h3 = set_child h2 node (key AND bt \<noteq> 0) next
         in insert_grow (tree1\<lparr>t_heap := h3\<rparr>) key msk (drop_bit 1 bt) next)
      else (tree, node))"
  by pat_completeness auto
termination
  by (relation "measure (\<lambda>(tree, key, msk, bt, node). unat bt)")
     (auto intro: and_drop_bit_decreases simp del: One_nat_def)

declare insert_grow.simps [simp del]

definition set_value :: "RadixTree \<Rightarrow> addr \<Rightarrow> string \<Rightarrow> RadixTree" where
  "set_value tree node v = tree\<lparr>t_heap := (t_heap tree)(node := (t_heap tree node)\<lparr>n_value := v\<rparr>)\<rparr>"

definition tree_insert :: "RadixTree \<Rightarrow> 32 word \<Rightarrow> 32 word \<Rightarrow> string \<Rightarrow> RadixTree" where
  "tree_insert tree key msk v =
     (case insert_walk (t_heap tree) key msk MAX_IPV4_BIT (t_root tree) (Some (t_root tree)) of
        (bt, node, Some _) \<Rightarrow> set_value tree node v
      | (bt, node, None) \<Rightarrow>
          (case insert_grow tree key msk bt node of (tree', node') \<Rightarrow> set_value tree' node' v))"

text \<open>
  \<open>((1 << (32 - cidr)) - 1) ^ 0xffffffff\<close> in \<open>uint32\<close>: for \<open>cidr = 0\<close> the shift gives 0
  and the mask is 0.
\<close>

definition net_mask :: "nat \<Rightarrow> 32 word" where
  "net_mask cidr = (push_bit (32 - cidr) 1 - 1) XOR 0xffffffff"

definition Add :: "RadixTree \<Rightarrow> string \<Rightarrow> string \<Rightarrow> (acl_error option \<times> RadixTree) go" where
  "Add tree ipNet v =
     (let strs = Split CHR ''/'' ipNet in
      go_bind (InetToi (strs ! 0)) (\<lambda>r.
        case r of
          None \<Rightarrow> Inr (Some InvaildIpAddress, tree)
        | Some ip \<Rightarrow>
            (if length strs < 2 then Inr (Some InvaildIpAddress, tree)
             else case Atoi (strs ! 1) of
               None \<Rightarrow> Inr (Some AtoiError, tree)
             | Some cidr \<Rightarrow>
                 (if cidr < 0 \<or> cidr > 32 then Inr (Some InvaildNetMask, tree)
                  else
                    let tree' = tree_insert tree ip (net_mask (nat cidr)) v
                    in Inr (None, tree'\<lparr>t_Record := (t_Record tree')(ipNet \<mapsto> True)\<rparr>)))))"

section \<open>search\<close>

partial_function (option) search_loop ::
  "heap \<Rightarrow> 32 word \<Rightarrow> 32 word \<Rightarrow> addr option \<Rightarrow> string \<Rightarrow> string option"
where
  "search_loop h key bt node v =
     (case node of
        None \<Rightarrow> Some v
      | Some n \<Rightarrow>
          search_loop h key (drop_bit 1 bt) (child h n (key AND bt \<noteq> 0))
            (if n_value (h n) \<noteq> NO_VALUE then n_value (h n) else v))"

declare search_loop.simps [code]

definition search :: "RadixTree \<Rightarrow> 32 word \<Rightarrow> string go" where
  "search tree key =
     (case search_loop (t_heap tree) key MAX_IPV4_BIT (Some (t_root tree)) NO_VALUE of
        None \<Rightarrow> Inl Diverges | Some v \<Rightarrow> Inr v)"

text \<open>\<open>Search\<close> ignores the error of \<open>InetToi\<close> and looks up address 0 then.\<close>

definition Search :: "RadixTree \<Rightarrow> string \<Rightarrow> string go" where
  "Search tree ip =
     go_bind (InetToi ip) (\<lambda>r. search tree (case r of None \<Rightarrow> 0 | Some i \<Rightarrow> i))"

definition AccessControl :: "RadixTree \<Rightarrow> string \<Rightarrow> bool go" where
  "AccessControl tree ipAddress =
     (let ipWithPort = Split CHR '':'' ipAddress
      in go_bind (Search tree (ipWithPort ! 0)) (\<lambda>v. Inr (v \<noteq> '''')))"

section \<open>delete\<close>

function delete_walk ::
  "heap \<Rightarrow> 32 word \<Rightarrow> 32 word \<Rightarrow> 32 word \<Rightarrow> addr option \<Rightarrow> addr option"
where
  "delete_walk h key msk bt node =
     (case node of
        None \<Rightarrow> None
      | Some n \<Rightarrow>
          (if bt AND msk \<noteq> 0
           then delete_walk h key msk (drop_bit 1 bt) (child h n (key AND bt \<noteq> 0))
           else Some n))"
  by pat_completeness auto
termination
  by (relation "measure (\<lambda>(h, key, msk, bt, node). unat bt)")
     (auto intro: and_drop_bit_decreases simp del: One_nat_def)

declare delete_walk.simps [simp del]

text \<open>The \<open>for\<close> loop that unlinks a leaf and pushes it on the free list, going up.\<close>

partial_function (option) delete_unlink :: "RadixTree \<Rightarrow> addr \<Rightarrow> RadixTree go option" where
  "delete_unlink tree node =
     (case n_parent (t_heap tree node) of
        None \<Rightarrow> Some (Inl NilDeref)
      | Some p \<Rightarrow>
          (let h = t_heap tree;
               h1 = (if n_right (h p) = Some node then h(p := (h p)\<lparr>n_right := None\<rparr>)
                     else h(p := (h p)\<lparr>n_left := None\<rparr>));
               h2 = h1(node := (h1 node)\<lparr>n_right := t_free tree\<rparr>);
               tree' = tree\<lparr>t_heap := h2, t_free := Some node\<rparr>
           in if n_right (h2 p) \<noteq> None \<or> n_left (h2 p) \<noteq> None then Some (Inr tree')
              else if n_value (h2 p) \<noteq> NO_VALUE then Some (Inr tree')
              else if n_parent (h2 p) = None then Some (Inr tree')
              else delete_unlink tree' p))"

declare delete_unlink.simps [code]

definition tree_delete :: "RadixTree \<Rightarrow> 32 word \<Rightarrow> 32 word \<Rightarrow> (bool \<times> RadixTree) go" where
  "tree_delete tree key msk =
     (case delete_walk (t_heap tree) key msk MAX_IPV4_BIT (Some (t_root tree)) of
        None \<Rightarrow> Inr (False, tree)
      | Some node \<Rightarrow>
          (if n_right (t_heap tree node) \<noteq> None \<or> n_left (t_heap tree node) \<noteq> None then
             (if n_value (t_heap tree node) \<noteq> NO_VALUE
              then Inr (True, set_value tree node NO_VALUE)
              else Inr (False, tree))
           else
             (case delete_unlink tree node of
                None \<Rightarrow> Inl Diverges
              | Some (Inl f) \<Rightarrow> Inl f
              | Some (Inr tree') \<Rightarrow> Inr (True, tree'))))"

definition Delete :: "RadixTree \<Rightarrow> string \<Rightarrow> (acl_error option \<times> RadixTree) go" where
  "Delete tree ipNet =
     (let strs = Split CHR ''/'' ipNet in
      go_bind (InetToi (strs ! 0)) (\<lambda>r.
        case r of
          None \<Rightarrow> Inr (Some InvaildIpAddress, tree)
        | Some ip \<Rightarrow>
            (if length strs < 2 then Inr (Some InvaildIpAddress, tree)
             else case Atoi (strs ! 1) of
               None \<Rightarrow> Inr (Some InvaildNetMask, tree)
             | Some cidr \<Rightarrow>
                 (if cidr < 0 \<or> cidr > 32 then Inr (Some InvaildNetMask, tree)
                  else go_bind (tree_delete tree ip (net_mask (nat cidr))) (\<lambda>(ret, tree').
                    if ret then Inr (None, tree'\<lparr>t_Record := (t_Record tree')(ipNet := None)\<rparr>)
                    else Inr (Some CantFindIpNet, tree'))))))"

text \<open>\<open>GetBlackList\<close> lists the keys of \<open>Record\<close> in the map's order, here as a set.\<close>

definition GetBlackList :: "RadixTree \<Rightarrow> string set" where
  "GetBlackList tree = dom (t_Record tree)"

end
