(* ===== verification/RadixTreeBits.thy ===== *)
theory RadixTreeBits
  imports RadixTree
begin

text \<open>
  The loops of the radix tree count down a one-bit word under a network mask. This theory
  replaces the words by lists of bits: a network is the list of its first \<open>cidr\<close> address bits,
  and each loop is equal to a structural recursion over that list.
\<close>

section \<open>The travelling bit and the network mask\<close>

definition bitw :: "nat \<Rightarrow> 32 word" where
  "bitw i = drop_bit i MAX_IPV4_BIT"

lemma bitw_0: "MAX_IPV4_BIT = bitw 0"
  by (simp add: bitw_def)

lemma drop_bit_bitw: "drop_bit 1 (bitw i) = bitw (Suc i)"
  by (simp add: bitw_def add.commute)

lemma bit_MAX: "bit MAX_IPV4_BIT n \<longleftrightarrow> n = 31"
proof -
  have *: "MAX_IPV4_BIT = push_bit 31 1" by (simp add: MAX_IPV4_BIT_def)
  show ?thesis unfolding * bit_push_bit_iff by (auto simp: bit_1_iff)
qed

lemma bit_bitw: "bit (bitw i) j \<longleftrightarrow> i + j = 31"
  by (simp add: bitw_def bit_drop_bit_eq bit_MAX)

lemma and_bitw: "w AND bitw i \<noteq> 0 \<longleftrightarrow> i < 32 \<and> bit w (31 - i)"
proof -
  have "w AND bitw i \<noteq> 0 \<longleftrightarrow> (\<exists>j. bit w j \<and> i + j = 31)"
    by (simp only: bit_eq_iff[of _ 0] bit_and_iff bit_bitw bit_0_eq) force
  also have "\<dots> \<longleftrightarrow> i < 32 \<and> bit w (31 - i)"
    by (auto intro: exI[of _ "31 - i"]) (metis add_diff_cancel_left')
  finally show ?thesis .
qed

lemma bit_net_mask: "c \<le> 32 \<Longrightarrow> bit (net_mask c) j \<longleftrightarrow> 32 - c \<le> j \<and> j < 32"
proof -
  assume "c \<le> 32"
  have *: "push_bit (32 - c) 1 - 1 = (mask (32 - c) :: 32 word)"
    by (simp add: mask_eq_exp_minus_1 push_bit_eq_mult)
  have **: "(0xffffffff :: 32 word) = - 1" by simp
  have "net_mask c = mask (32 - c) XOR - 1"
    unfolding net_mask_def * ** ..
  then show ?thesis using \<open>c \<le> 32\<close> by (auto simp only: bit_xor_iff bit_mask_iff bit_minus_1_iff possible_bit_word) simp_all
qed

lemma bitw_and_net_mask: "c \<le> 32 \<Longrightarrow> bitw i AND net_mask c \<noteq> 0 \<longleftrightarrow> i < c"
  by (subst and.commute, subst and_bitw) (auto simp: bit_net_mask)

definition key_bits :: "32 word \<Rightarrow> nat \<Rightarrow> bool list" where
  "key_bits key n = map (\<lambda>i. bit key (31 - i)) [0..<n]"

lemma length_key_bits [simp]: "length (key_bits key n) = n"
  by (simp add: key_bits_def)

lemma take_key_bits: "n \<le> m \<Longrightarrow> take n (key_bits key m) = key_bits key n"
  by (simp add: key_bits_def take_map)

lemma drop_key_bits:
  "i < n \<Longrightarrow> drop i (key_bits key n) = bit key (31 - i) # drop (Suc i) (key_bits key n)"
  by (simp add: key_bits_def Cons_nth_drop_Suc [symmetric])

section \<open>The loops over bit lists\<close>

fun walk :: "heap \<Rightarrow> addr \<Rightarrow> bool list \<Rightarrow> addr option" where
  "walk h a [] = Some a"
| "walk h a (b # bs) = (case child h a b of None \<Rightarrow> None | Some c \<Rightarrow> walk h c bs)"

lemma walk_append: "walk h a (p @ q) = Option.bind (walk h a p) (\<lambda>c. walk h c q)"
  by (induction p arbitrary: a) (auto split: option.split)

lemma walk_snoc: "walk h a (p @ [b]) = Option.bind (walk h a p) (\<lambda>c. child h c b)"
  by (auto simp: walk_append split: option.split Option.bind_split)

fun descend :: "heap \<Rightarrow> addr \<Rightarrow> bool list \<Rightarrow> addr \<times> bool list" where
  "descend h a [] = (a, [])"
| "descend h a (b # bs) = (case child h a b of None \<Rightarrow> (a, b # bs) | Some c \<Rightarrow> descend h c bs)"

lemma descend_walk:
  "descend h a bs = (c, rest) \<Longrightarrow> \<exists>p. bs = p @ rest \<and> walk h a p = Some c \<and>
     (rest \<noteq> [] \<longrightarrow> child h c (hd rest) = None)"
proof (induction bs arbitrary: a)
  case (Cons b bs)
  show ?case
  proof (cases "child h a b")
    case None
    with Cons.prems show ?thesis by (intro exI[of _ "[]"]) auto
  next
    case (Some d)
    with Cons.prems have "descend h d bs = (c, rest)" by simp
    from Cons.IH[OF this] Some show ?thesis by (metis append_Cons option.simps(5) walk.simps(2))
  qed
qed simp

lemma descend_length: "descend h a bs = (c, rest) \<Longrightarrow> length rest \<le> length bs"
  using descend_walk by fastforce

lemma insert_walk_descend:
  assumes "c \<le> 32" "i \<le> c"
  shows "insert_walk h key (net_mask c) (bitw i) a nxt =
    (case descend h a (drop i (key_bits key c)) of
       (a', rest) \<Rightarrow> (bitw (c - length rest), a',
         if rest \<noteq> [] then None else if i = c then nxt else Some a'))"
  using assms(2)
proof (induction "c - i" arbitrary: i a nxt)
  case 0
  then have "i = c" by simp
  then show ?case
    by (subst insert_walk.simps) (simp add: bitw_and_net_mask[OF assms(1)])
next
  case (Suc n)
  then have i: "i < c" by simp
  with assms have and_bit: "(key AND bitw i \<noteq> 0) = bit key (31 - i)" by (simp add: and_bitw)
  note bits = drop_key_bits[OF i, of key]
  show ?case
  proof (cases "child h a (bit key (31 - i))")
    case None
    with i and_bit bits assms(1) show ?thesis
      by (subst insert_walk.simps) (simp add: bitw_and_net_mask)
  next
    case (Some d)
    have "n = c - Suc i" "Suc i \<le> c" using Suc.hyps(2) i by auto
    from Suc.hyps(1)[OF this, of d "Some d"] show ?thesis
      using Some i and_bit bits assms(1) unfolding insert_walk.simps[of h key "net_mask c" "bitw i"]
      by (auto simp: bitw_and_net_mask drop_bit_bitw simp del: One_nat_def split: prod.splits)
  qed
qed

lemma delete_walk_walk:
  assumes "c \<le> 32" "i \<le> c"
  shows "delete_walk h key (net_mask c) (bitw i) (Some a) = walk h a (drop i (key_bits key c))"
  using assms(2)
proof (induction "c - i" arbitrary: i a)
  case 0
  then have "i = c" by simp
  then show ?case
    by (subst delete_walk.simps) (simp add: bitw_and_net_mask[OF assms(1)])
next
  case (Suc n)
  then have i: "i < c" by simp
  with assms have and_bit: "(key AND bitw i \<noteq> 0) = bit key (31 - i)" by (simp add: and_bitw)
  show ?case
  proof (cases "child h a (bit key (31 - i))")
    case None
    with i and_bit assms(1) show ?thesis
      by (subst delete_walk.simps) (simp add: bitw_and_net_mask drop_key_bits delete_walk.simps)
  next
    case (Some d)
    have "n = c - Suc i" "Suc i \<le> c" using Suc.hyps(2) i by auto
    from Suc.hyps(1)[OF this, of d] show ?thesis
      using Some i and_bit drop_key_bits[OF i, of key] assms(1)
      by (subst delete_walk.simps) (simp add: bitw_and_net_mask drop_bit_bitw del: One_nat_def)
  qed
qed

end
