(* ===== verification/RadixTreeInv.thy ===== *)
theory RadixTreeInv
  imports RadixTreeBits
begin

text \<open>
  What the heap of a radix tree has to satisfy, the abstract table it stands for, and the proof
  that insertion, lookup and deletion on the heap are update, longest match and removal on the
  table.
\<close>

section \<open>Well-formed trees\<close>

text \<open>
  No node is reached along two bit paths, every node is allocated and at most 32 levels deep, and
  the \<open>parent\<close> pointer of a node is the node one level up.
\<close>

definition tree_wf :: "RadixTree \<Rightarrow> bool" where
  "tree_wf t \<longleftrightarrow>
     (\<forall>p q a. walk (t_heap t) (t_root t) p = Some a \<longrightarrow> walk (t_heap t) (t_root t) q = Some a \<longrightarrow> p = q) \<and>
     (\<forall>p a. walk (t_heap t) (t_root t) p = Some a \<longrightarrow> a < t_next t \<and> length p \<le> 32) \<and>
     (\<forall>p b a c. walk (t_heap t) (t_root t) p = Some a \<longrightarrow> child (t_heap t) a b = Some c \<longrightarrow>
        n_parent (t_heap t c) = Some a) \<and>
     n_parent (t_heap t (t_root t)) = None"

definition leaf_node :: "heap \<Rightarrow> addr \<Rightarrow> bool" where
  "leaf_node h a \<longleftrightarrow> n_right (h a) = None \<and> n_left (h a) = None"

text \<open>Every leaf but the root, and but the nodes at the paths of \<open>P\<close>, carries a value.\<close>

definition leaves_valued :: "RadixTree \<Rightarrow> bool list set \<Rightarrow> bool" where
  "leaves_valued t P \<longleftrightarrow>
     (\<forall>q a. walk (t_heap t) (t_root t) q = Some a \<longrightarrow> q \<noteq> [] \<longrightarrow> q \<notin> P \<longrightarrow>
        leaf_node (t_heap t) a \<longrightarrow> n_value (t_heap t a) \<noteq> NO_VALUE)"

definition tree_inv :: "RadixTree \<Rightarrow> bool" where
  "tree_inv t \<longleftrightarrow> tree_wf t \<and> leaves_valued t {}"

text \<open>The abstract table: the value stored at each network that has one.\<close>

definition entries :: "RadixTree \<Rightarrow> bool list \<Rightarrow> string option" where
  "entries t p =
     (case walk (t_heap t) (t_root t) p of
        None \<Rightarrow> None
      | Some a \<Rightarrow> if n_value (t_heap t a) = NO_VALUE then None else Some (n_value (t_heap t a)))"

text \<open>The value of the longest network of the table that covers an address.\<close>

definition longest_match :: "(bool list \<Rightarrow> string option) \<Rightarrow> bool list \<Rightarrow> string" where
  "longest_match E bs =
     (case filter (\<lambda>n. E (take n bs) \<noteq> None) [0..<Suc (length bs)] of
        [] \<Rightarrow> NO_VALUE | ns \<Rightarrow> the (E (take (last ns) bs)))"

lemma leaf_node_child: "leaf_node h a \<longleftrightarrow> (\<forall>b. child h a b = None)"
  by (auto simp: leaf_node_def child_def split: if_splits dest: spec[of _ True] spec[of _ False])

lemma tree_wf_inj:
  "tree_wf t \<Longrightarrow> walk (t_heap t) (t_root t) p = Some a \<Longrightarrow> walk (t_heap t) (t_root t) q = Some a \<Longrightarrow> p = q"
  unfolding tree_wf_def by blast

lemma tree_wf_alloc:
  "tree_wf t \<Longrightarrow> walk (t_heap t) (t_root t) p = Some a \<Longrightarrow> a < t_next t \<and> length p \<le> 32"
  unfolding tree_wf_def by blast

lemma tree_wf_parent:
  "tree_wf t \<Longrightarrow> walk (t_heap t) (t_root t) p = Some a \<Longrightarrow> child (t_heap t) a b = Some c \<Longrightarrow>
   n_parent (t_heap t c) = Some a"
  unfolding tree_wf_def by blast

lemma tree_wf_root: "tree_wf t \<Longrightarrow> n_parent (t_heap t (t_root t)) = None"
  unfolding tree_wf_def by blast

lemma child_neq:
  assumes "tree_wf t" "walk (t_heap t) (t_root t) p = Some a" "child (t_heap t) a b = Some c"
    "child (t_heap t) a b' = Some c"
  shows "b = b'"
proof -
  have "walk (t_heap t) (t_root t) (p @ [b]) = Some c" "walk (t_heap t) (t_root t) (p @ [b']) = Some c"
    using assms by (auto simp: walk_snoc)
  with tree_wf_inj[OF assms(1)] show ?thesis by blast
qed

lemma walk_leaf_append:
  "walk h r p = Some a \<Longrightarrow> leaf_node h a \<Longrightarrow> walk h r (p @ q) = (if q = [] then Some a else None)"
  by (cases q) (auto simp: walk_append leaf_node_child)

text \<open>Changing values only changes neither walks nor well-formedness.\<close>

lemma child_set_value [simp]: "child (t_heap (set_value t n v)) = child (t_heap t)"
  by (intro ext) (simp add: child_def set_value_def)

lemma walk_cong_child: "(\<And>a b. child h a b = child h' a b) \<Longrightarrow> walk h a p = walk h' a p"
  by (induction p arbitrary: a) (auto split: option.split)

lemma walk_set_value [simp]: "walk (t_heap (set_value t n v)) a p = walk (t_heap t) a p"
  by (rule walk_cong_child) simp

lemma set_value_fields [simp]:
  "t_root (set_value t n v) = t_root t" "t_next (set_value t n v) = t_next t"
  "t_free (set_value t n v) = t_free t" "t_Record (set_value t n v) = t_Record t"
  "n_parent (t_heap (set_value t n v) a) = n_parent (t_heap t a)"
  "n_value (t_heap (set_value t n v) a) = (if a = n then v else n_value (t_heap t a))"
  by (auto simp: set_value_def)

lemma tree_wf_set_value [simp]: "tree_wf (set_value t n v) = tree_wf t"
  by (simp add: tree_wf_def)

lemma leaf_node_set_value [simp]: "leaf_node (t_heap (set_value t n v)) a = leaf_node (t_heap t) a"
  by (simp add: leaf_node_child)

lemma entries_set_value:
  assumes "tree_wf t" "walk (t_heap t) (t_root t) p = Some a"
  shows "entries (set_value t a v) = (entries t)(p := if v = NO_VALUE then None else Some v)"
  using assms tree_wf_inj[OF assms(1)] by (fastforce simp: entries_def fun_eq_iff split: option.split)

lemma leaves_valued_set_value:
  assumes "tree_wf t" "walk (t_heap t) (t_root t) p = Some a" "v \<noteq> NO_VALUE" "leaves_valued t {p}"
  shows "leaves_valued (set_value t a v) {}"
  unfolding leaves_valued_def
proof (intro allI impI)
  fix q c
  assume q: "walk (t_heap (set_value t a v)) (t_root (set_value t a v)) q = Some c" "q \<noteq> []"
    and l: "leaf_node (t_heap (set_value t a v)) c"
  show "n_value (t_heap (set_value t a v) c) \<noteq> NO_VALUE"
  proof (cases "c = a")
    case True
    with assms(3) show ?thesis by simp
  next
    case False
    with q assms(2) have "q \<noteq> p" by auto
    with q l False assms(4) show ?thesis by (simp add: leaves_valued_def)
  qed
qed

lemma leaves_valued_mono: "leaves_valued t P \<Longrightarrow> P \<subseteq> Q \<Longrightarrow> leaves_valued t Q"
  by (auto simp: leaves_valued_def)

section \<open>A new tree\<close>

lemma walk_New: "walk (t_heap NewRadixTree) a p = (if p = [] then Some a else None)"
  by (cases p) (auto simp: NewRadixTree_def child_def fresh_node_def)

lemma tree_inv_New: "tree_inv NewRadixTree"
  unfolding tree_inv_def tree_wf_def leaves_valued_def walk_New
  by (auto simp: NewRadixTree_def child_def fresh_node_def)

lemma entries_New: "entries NewRadixTree = (\<lambda>_. None)"
  unfolding entries_def walk_New by (auto simp: fun_eq_iff NewRadixTree_def fresh_node_def)

section \<open>insert\<close>

text \<open>One iteration of the second loop with an empty free list.\<close>

definition attach :: "RadixTree \<Rightarrow> addr \<Rightarrow> bool \<Rightarrow> RadixTree" where
  "attach t a b =
     t\<lparr>t_heap := set_child ((t_heap t)(t_next t := fresh_node\<lparr>n_parent := Some a\<rparr>)) a b (t_next t),
       t_next := t_next t + 1\<rparr>"

fun grow :: "RadixTree \<Rightarrow> addr \<Rightarrow> bool list \<Rightarrow> RadixTree \<times> addr" where
  "grow t a [] = (t, a)"
| "grow t a (b # bs) = grow (attach t a b) (t_next t) bs"

lemma attach_fields [simp]:
  "t_root (attach t a b) = t_root t" "t_next (attach t a b) = t_next t + 1"
  "t_free (attach t a b) = t_free t" "t_Record (attach t a b) = t_Record t"
  by (simp_all add: attach_def)

lemma insert_grow_grow:
  assumes "c \<le> 32" "i \<le> c" "t_free t = None"
  shows "insert_grow t key (net_mask c) (bitw i) a = grow t a (drop i (key_bits key c))"
  using assms(2,3)
proof (induction "c - i" arbitrary: i a t)
  case 0
  then have "i = c" by simp
  then show ?case
    by (subst insert_grow.simps) (simp add: bitw_and_net_mask[OF assms(1)])
next
  case (Suc n)
  then have i: "i < c" by simp
  with assms have and_bit: "(key AND bitw i \<noteq> 0) = bit key (31 - i)" by (simp add: and_bitw)
  have "n = c - Suc i" "Suc i \<le> c" using Suc.hyps(2) i by auto
  note IH = Suc.hyps(1)[OF this, of "attach t a (bit key (31 - i))" "t_next t"]
  have "t\<lparr>t_next := t_next t + 1,
      t_heap := set_child ((t_heap t)(t_next t := fresh_node\<lparr>n_parent := Some a, n_value := NO_VALUE\<rparr>))
        a (bit key (31 - i)) (t_next t)\<rparr> = attach t a (bit key (31 - i))"
    by (simp add: attach_def fresh_node_def)
  then show ?case
    using IH i and_bit drop_key_bits[OF i, of key] assms(1) Suc.prems(2)
    unfolding insert_grow.simps[of t key "net_mask c" "bitw i"]
    by (simp add: bitw_and_net_mask drop_bit_bitw newNode_def del: One_nat_def)
qed

lemma child_attach:
  assumes "x \<noteq> t_next t"
  shows "child (t_heap (attach t a b)) x c =
    (if x = a \<and> c = b then Some (t_next t) else child (t_heap t) x c)"
  using assms by (auto simp: attach_def set_child_def child_def)

lemma child_attach_new [simp]:
  "a \<noteq> t_next t \<Longrightarrow> child (t_heap (attach t a b)) (t_next t) c = None"
  by (auto simp: attach_def set_child_def child_def fresh_node_def)

lemma value_attach:
  "a \<noteq> t_next t \<Longrightarrow>
   n_value (t_heap (attach t a b) x) = (if x = t_next t then NO_VALUE else n_value (t_heap t x))"
  by (auto simp: attach_def set_child_def fresh_node_def)

lemma parent_attach:
  "a \<noteq> t_next t \<Longrightarrow>
   n_parent (t_heap (attach t a b) x) = (if x = t_next t then Some a else n_parent (t_heap t x))"
  by (auto simp: attach_def set_child_def fresh_node_def)

text \<open>The premises of one iteration: an allocated tree node with no child on the side wanted.\<close>

definition free_side :: "RadixTree \<Rightarrow> bool list \<Rightarrow> addr \<Rightarrow> bool \<Rightarrow> bool" where
  "free_side t p a b \<longleftrightarrow>
     tree_wf t \<and> walk (t_heap t) (t_root t) p = Some a \<and> child (t_heap t) a b = None \<and> length p < 32"

lemma walk_attach:
  assumes "free_side t p a b"
  shows "walk (t_heap (attach t a b)) (t_root t) q =
    (if q = p @ [b] then Some (t_next t) else walk (t_heap t) (t_root t) q)"
proof (induction q rule: rev_induct)
  case Nil
  then show ?case by simp
next
  case (snoc c q)
  from assms have wf: "tree_wf t" and a: "walk (t_heap t) (t_root t) p = Some a"
    and none: "child (t_heap t) a b = None" by (auto simp: free_side_def)
  have an: "a \<noteq> t_next t" using tree_wf_alloc[OF wf a] by simp
  show ?case
  proof (cases "q = p @ [b]")
    case True
    then have "walk (t_heap t) (t_root t) q = None" using a none by (simp add: walk_snoc)
    moreover have "walk (t_heap (attach t a b)) (t_root t) q = Some (t_next t)" using True snoc by simp
    moreover have "q @ [c] \<noteq> p @ [b]" using True by simp
    ultimately show ?thesis using an by (simp add: walk_snoc[of _ _ q])
  next
    case q: False
    show ?thesis
    proof (cases "walk (t_heap t) (t_root t) q")
      case None
      with a have "q \<noteq> p" by auto
      with None q snoc show ?thesis by (simp add: walk_snoc[of _ _ q])
    next
      case (Some x)
      then have "x \<noteq> t_next t" using tree_wf_alloc[OF wf] by fastforce
      moreover have "x = a \<longleftrightarrow> q = p" using tree_wf_inj[OF wf Some, of p] a Some by (metis option.inject)
      ultimately show ?thesis using q snoc Some by (simp add: walk_snoc[of _ _ q] child_attach)
    qed
  qed
qed

lemma tree_wf_attach:
  assumes "free_side t p a b"
  shows "tree_wf (attach t a b)"
proof -
  from assms have wf: "tree_wf t" and a: "walk (t_heap t) (t_root t) p = Some a"
    and none: "child (t_heap t) a b = None" and len: "length p < 32" by (auto simp: free_side_def)
  have an: "a \<noteq> t_next t" using tree_wf_alloc[OF wf a] by simp
  have fresh: "walk (t_heap t) (t_root t) q \<noteq> Some (t_next t)" for q
    using tree_wf_alloc[OF wf, of q "t_next t"] by auto
  have root: "t_root t \<noteq> t_next t" using fresh[of "[]"] by auto
  note w = walk_attach[OF assms]
  have "n_parent (t_heap (attach t a b) y) = Some x"
    if x: "walk (t_heap (attach t a b)) (t_root t) q = Some x"
      and y: "child (t_heap (attach t a b)) x d = Some y" for q d x y
  proof -
    have "x \<noteq> t_next t" using y an by auto
    with x have x': "walk (t_heap t) (t_root t) q = Some x" by (auto simp: w split: if_splits)
    show ?thesis
    proof (cases "x = a \<and> d = b")
      case True
      with y \<open>x \<noteq> t_next t\<close> an show ?thesis by (simp add: child_attach parent_attach)
    next
      case False
      with y \<open>x \<noteq> t_next t\<close> have y': "child (t_heap t) x d = Some y" by (simp add: child_attach)
      then have "walk (t_heap t) (t_root t) (q @ [d]) = Some y" using x' by (simp add: walk_snoc)
      with fresh have "y \<noteq> t_next t" by auto
      with tree_wf_parent[OF wf x' y'] an show ?thesis by (simp add: parent_attach)
    qed
  qed
  then show ?thesis
    unfolding tree_wf_def using tree_wf_inj[OF wf] tree_wf_alloc[OF wf] tree_wf_root[OF wf] fresh an root len
    by (auto simp: w parent_attach less_Suc_eq dest: sym split: if_splits)
qed

lemma entries_attach:
  assumes "free_side t p a b"
  shows "entries (attach t a b) = entries t"
proof
  fix q
  from assms have wf: "tree_wf t" and a: "walk (t_heap t) (t_root t) p = Some a"
    and none: "child (t_heap t) a b = None" by (auto simp: free_side_def)
  have "a \<noteq> t_next t" using tree_wf_alloc[OF wf a] by simp
  moreover have "walk (t_heap t) (t_root t) (p @ [b]) = None" using a none by (simp add: walk_snoc)
  moreover have "walk (t_heap t) (t_root t) q \<noteq> Some (t_next t)"
    using tree_wf_alloc[OF wf, of q "t_next t"] by auto
  ultimately show "entries (attach t a b) q = entries t q"
    by (auto simp: entries_def walk_attach[OF assms] value_attach split: option.split)
qed

lemma leaves_valued_attach:
  assumes "free_side t p a b" "leaves_valued t {p}"
  shows "leaves_valued (attach t a b) {p @ [b]}"
  unfolding leaves_valued_def
proof (intro allI impI)
  fix q x
  assume q: "walk (t_heap (attach t a b)) (t_root (attach t a b)) q = Some x" "q \<noteq> []" "q \<notin> {p @ [b]}"
    and l: "leaf_node (t_heap (attach t a b)) x"
  from assms have wf: "tree_wf t" and a: "walk (t_heap t) (t_root t) p = Some a"
    by (auto simp: free_side_def)
  have an: "a \<noteq> t_next t" using tree_wf_alloc[OF wf a] by simp
  from q have q': "walk (t_heap t) (t_root t) q = Some x" by (simp add: walk_attach[OF assms(1)])
  then have xn: "x \<noteq> t_next t" using tree_wf_alloc[OF wf] by fastforce
  have "x \<noteq> a" using l an by (auto simp: leaf_node_child child_attach dest: spec[of _ b])
  with l xn have "leaf_node (t_heap t) x" by (simp add: leaf_node_child child_attach)
  moreover have "q \<noteq> p" using q' a \<open>x \<noteq> a\<close> by auto
  ultimately show "n_value (t_heap (attach t a b) x) \<noteq> NO_VALUE"
    using assms(2) q' q(2) an xn by (simp add: leaves_valued_def value_attach)
qed

lemma grow_correct:
  assumes "tree_wf t" "walk (t_heap t) (t_root t) p = Some a" "length p + length bs \<le> 32"
    "bs \<noteq> [] \<longrightarrow> child (t_heap t) a (hd bs) = None" "leaves_valued t {p}" "t_free t = None"
    "grow t a bs = (t', a')"
  shows "tree_wf t' \<and> walk (t_heap t') (t_root t') (p @ bs) = Some a' \<and> entries t' = entries t \<and>
    leaves_valued t' {p @ bs} \<and> t_free t' = None \<and> t_Record t' = t_Record t"
  using assms
proof (induction bs arbitrary: t a p)
  case Nil
  then show ?case by simp
next
  case (Cons b bs)
  then have fs: "free_side t p a b" by (simp add: free_side_def)
  have an: "a \<noteq> t_next t" using tree_wf_alloc[OF Cons.prems(1,2)] by simp
  have "walk (t_heap (attach t a b)) (t_root (attach t a b)) (p @ [b]) = Some (t_next t)"
    by (simp add: walk_attach[OF fs])
  from Cons.IH[OF tree_wf_attach[OF fs] this] show ?case
    using Cons.prems leaves_valued_attach[OF fs] an by (simp add: entries_attach[OF fs])
qed

lemma tree_insert_eq:
  assumes "c \<le> 32" "t_free t = None"
  shows "tree_insert t key (net_mask c) v =
    (case descend (t_heap t) (t_root t) (key_bits key c) of (a, rest) \<Rightarrow>
       case grow t a rest of (t', a') \<Rightarrow> set_value t' a' v)"
proof -
  obtain a rest where d: "descend (t_heap t) (t_root t) (key_bits key c) = (a, rest)" by fastforce
  from descend_walk[OF d] obtain p where p: "key_bits key c = p @ rest" by blast
  then have "c = length p + length rest" using length_key_bits[of key c] by simp
  with p have r: "drop (c - length rest) (key_bits key c) = rest" "length rest \<le> c" by simp_all
  have "insert_grow t key (net_mask c) (bitw (c - length rest)) a = grow t a rest"
    using insert_grow_grow[OF assms(1) _ assms(2), of "c - length rest"] r by simp
  then show ?thesis
    using d by (auto simp: tree_insert_def bitw_0 insert_walk_descend[OF assms(1)] split: prod.splits)
qed

theorem tree_insert_correct:
  assumes "tree_inv t" "t_free t = None" "c \<le> 32" "v \<noteq> NO_VALUE"
    and t': "t' = tree_insert t key (net_mask c) v"
  shows "tree_inv t' \<and> t_free t' = None \<and> entries t' = (entries t)(key_bits key c \<mapsto> v) \<and>
    t_Record t' = t_Record t"
proof -
  obtain a rest where d: "descend (t_heap t) (t_root t) (key_bits key c) = (a, rest)" by fastforce
  obtain t1 a1 where g: "grow t a rest = (t1, a1)" by fastforce
  from descend_walk[OF d] obtain p where p: "key_bits key c = p @ rest"
    "walk (t_heap t) (t_root t) p = Some a" "rest \<noteq> [] \<longrightarrow> child (t_heap t) a (hd rest) = None" by blast
  have len: "length p + length rest \<le> 32"
    using assms(3) length_key_bits[of key c] unfolding p(1) by simp
  from assms(1) have wf: "tree_wf t" and lv: "leaves_valued t {p}"
    by (auto simp: tree_inv_def intro: leaves_valued_mono)
  from grow_correct[OF wf p(2) len p(3) lv assms(2) g]
  have t1: "tree_wf t1" "walk (t_heap t1) (t_root t1) (key_bits key c) = Some a1" "entries t1 = entries t"
    "leaves_valued t1 {key_bits key c}" "t_free t1 = None" "t_Record t1 = t_Record t"
    by (simp_all add: p(1))
  have "t' = set_value t1 a1 v"
    using tree_insert_eq[OF assms(3,2)] d g by (simp add: t')
  with t1 assms(4) show ?thesis
    by (simp add: tree_inv_def entries_set_value[OF t1(1,2)] leaves_valued_set_value[OF t1(1,2)])
qed

end
