(* ===== verification/RadixTreeOps.thy ===== *)
theory RadixTreeOps
  imports RadixTreeInv
begin

text \<open>
  Lookup and deletion on a well-formed radix tree: lookup returns the value of the longest
  network that covers the address, deletion removes exactly one network. Both return.
\<close>

section \<open>search\<close>

definition match_step :: "(bool list \<Rightarrow> string option) \<Rightarrow> bool list \<Rightarrow> string \<Rightarrow> nat \<Rightarrow> string" where
  "match_step E K acc n = (case E (take n K) of None \<Rightarrow> acc | Some w \<Rightarrow> w)"

lemma foldl_match_step_none:
  "(\<And>n. n \<in> set ns \<Longrightarrow> E (take n K) = None) \<Longrightarrow> foldl (match_step E K) v ns = v"
  by (induction ns arbitrary: v) (auto simp: match_step_def)

lemma longest_match_foldl:
  "longest_match E K = foldl (match_step E K) NO_VALUE [0..<Suc (length K)]"
  unfolding longest_match_def match_step_def by (simp only: foldl_go_last_Some)

lemma walk_prefix_None:
  "walk h r (take i K) = None \<Longrightarrow> i \<le> n \<Longrightarrow> walk h r (take n K) = None"
  by (metis Option.bind.bind_lunit append_take_drop_id bind_eq_None_conv min.absorb1 take_take walk_append)

lemma search_loop_match:
  assumes wf: "tree_wf t" and i: "i \<le> 32"
    and w: "walk (t_heap t) (t_root t) (take i (key_bits key 32)) = Some a"
  shows "search_loop (t_heap t) key (bitw i) (Some a) v =
    Some (foldl (match_step (entries t) (key_bits key 32)) v [i..<33])"
  using i w
proof (induction "32 - i" arbitrary: i a v)
  case 0
  then have i: "i = 32" by simp
  with 0 have "walk (t_heap t) (t_root t) (key_bits key 32) = Some a" by simp
  moreover from this have "child (t_heap t) a False = None"
    using tree_wf_alloc[OF wf, of "key_bits key 32 @ [False]"]
    by (cases "child (t_heap t) a False") (auto simp: walk_snoc)
  ultimately show ?case using i
    by (simp add: search_loop.simps[of _ _ _ "Some a"] search_loop.simps[of _ _ _ None] and_bitw
        match_step_def entries_def)
next
  case (Suc n)
  then have i: "i < 32" by simp
  let ?K = "key_bits key 32"
  have take: "take (Suc i) ?K = take i ?K @ [bit key (31 - i)]"
    using i by (simp add: take_Suc_conv_app_nth) (simp add: key_bits_def)
  have ns: "[i..<33] = i # [Suc i..<33]" using i by (simp add: upt_conv_Cons)
  have step: "match_step (entries t) ?K v i = (if n_value (t_heap t a) \<noteq> NO_VALUE then n_value (t_heap t a) else v)"
    using Suc.prems(2) by (simp add: match_step_def entries_def)
  show ?case
  proof (cases "child (t_heap t) a (bit key (31 - i))")
    case None
    have "walk (t_heap t) (t_root t) (take (Suc i) ?K) = None"
      using Suc.prems(2) None by (simp add: take walk_snoc)
    then have "foldl (match_step (entries t) ?K) w [Suc i..<33] = w" for w
      by (intro foldl_match_step_none) (auto simp: entries_def dest: walk_prefix_None split: option.splits)
    with None i show ?thesis
      by (simp add: search_loop.simps[of _ _ _ "Some a"] search_loop.simps[of _ _ _ None] and_bitw ns step
          del: upt_Suc)
  next
    case (Some c)
    have "walk (t_heap t) (t_root t) (take (Suc i) ?K) = Some c"
      using Suc.prems(2) Some by (simp add: take walk_snoc)
    moreover have "n = 32 - Suc i" "Suc i \<le> 32" using Suc.hyps(2) i by auto
    ultimately show ?thesis
      using Suc.hyps(1) Some i
      by (simp add: search_loop.simps[of _ _ _ "Some a"] and_bitw ns step drop_bit_bitw del: upt_Suc One_nat_def)
  qed
qed

theorem search_correct:
  "tree_wf t \<Longrightarrow> search t key = Inr (longest_match (entries t) (key_bits key 32))"
  using search_loop_match[of t 0 key "t_root t" NO_VALUE]
  by (simp add: search_def bitw_0 longest_match_foldl)

section \<open>delete\<close>

text \<open>The effect of unlinking one leaf that is not the root.\<close>

definition unlink :: "RadixTree \<Rightarrow> addr \<Rightarrow> addr \<Rightarrow> bool \<Rightarrow> RadixTree" where
  "unlink t a p b =
     (let h = t_heap t;
          h1 = (if b then h(p := (h p)\<lparr>n_right := None\<rparr>) else h(p := (h p)\<lparr>n_left := None\<rparr>))
      in t\<lparr>t_heap := h1(a := (h1 a)\<lparr>n_right := t_free t\<rparr>), t_free := Some a\<rparr>)"

lemma unlink_fields [simp]:
  "t_root (unlink t a p b) = t_root t" "t_next (unlink t a p b) = t_next t"
  "t_Record (unlink t a p b) = t_Record t"
  "n_value (t_heap (unlink t a p b) x) = n_value (t_heap t x)"
  "n_parent (t_heap (unlink t a p b) x) = n_parent (t_heap t x)"
  by (auto simp: unlink_def Let_def)

text \<open>A leaf, the node above it and the side it hangs on.\<close>

definition hanging :: "RadixTree \<Rightarrow> bool list \<Rightarrow> bool \<Rightarrow> addr \<Rightarrow> addr \<Rightarrow> bool" where
  "hanging t q b p a \<longleftrightarrow>
     tree_wf t \<and> walk (t_heap t) (t_root t) q = Some p \<and> child (t_heap t) p b = Some a \<and>
     leaf_node (t_heap t) a"

lemma hanging_walk: "hanging t q b p a \<Longrightarrow> walk (t_heap t) (t_root t) (q @ [b]) = Some a"
  by (simp add: hanging_def walk_snoc)

lemma hanging_neq: "hanging t q b p a \<Longrightarrow> p \<noteq> a"
  using hanging_walk[of t q b p a] tree_wf_inj[of t q a "q @ [b]"] by (auto simp: hanging_def)

lemma child_unlink:
  assumes "hanging t q b p a" "x \<noteq> a"
  shows "child (t_heap (unlink t a p b)) x d = (if x = p \<and> d = b then None else child (t_heap t) x d)"
  using assms(2) by (auto simp: unlink_def Let_def child_def)

lemma walk_unlink:
  assumes "hanging t q b p a"
  shows "walk (t_heap (unlink t a p b)) (t_root t) s =
    (if s = q @ [b] then None else walk (t_heap t) (t_root t) s)"
proof (induction s rule: rev_induct)
  case Nil
  then show ?case by simp
next
  case (snoc d s)
  from assms have wf: "tree_wf t" and q: "walk (t_heap t) (t_root t) q = Some p"
    and leaf: "leaf_node (t_heap t) a" by (auto simp: hanging_def)
  note qb = hanging_walk[OF assms]
  show ?case
  proof (cases "s = q @ [b]")
    case True
    then have "walk (t_heap t) (t_root t) s = Some a" using qb by simp
    moreover have "s @ [d] \<noteq> q @ [b]" using True by simp
    moreover have "walk (t_heap (unlink t a p b)) (t_root t) s = None" using snoc True by simp
    ultimately show ?thesis using leaf by (simp add: walk_snoc[of _ _ s] leaf_node_child)
  next
    case s: False
    show ?thesis
    proof (cases "walk (t_heap t) (t_root t) s")
      case None
      with q have "s \<noteq> q" by auto
      with None s snoc show ?thesis by (simp add: walk_snoc[of _ _ s])
    next
      case (Some x)
      have "x \<noteq> a" using tree_wf_inj[OF wf Some, of "q @ [b]"] qb s by blast
      moreover have "x = p \<longleftrightarrow> s = q"
        using tree_wf_inj[OF wf Some, of q] q Some by (metis option.inject)
      ultimately show ?thesis using s snoc Some by (simp add: walk_snoc[of _ _ s] child_unlink[OF assms])
    qed
  qed
qed

lemma tree_wf_unlink:
  assumes "hanging t q b p a"
  shows "tree_wf (unlink t a p b)"
proof -
  from assms have wf: "tree_wf t" by (simp add: hanging_def)
  note w = walk_unlink[OF assms]
  have "n_parent (t_heap (unlink t a p b) y) = Some x"
    if x: "walk (t_heap (unlink t a p b)) (t_root t) s = Some x"
      and y: "child (t_heap (unlink t a p b)) x d = Some y" for s d x y
  proof -
    from x have s: "s \<noteq> q @ [b]" and x': "walk (t_heap t) (t_root t) s = Some x"
      by (auto simp: w split: if_splits)
    then have "x \<noteq> a" using hanging_walk[OF assms] tree_wf_inj[OF wf x', of "q @ [b]"] by auto
    with y have "child (t_heap t) x d = Some y" by (simp add: child_unlink[OF assms] split: if_splits)
    with tree_wf_parent[OF wf x'] show ?thesis by simp
  qed
  then show ?thesis
    unfolding tree_wf_def using tree_wf_inj[OF wf] tree_wf_alloc[OF wf] tree_wf_root[OF wf]
    by (auto simp: w split: if_splits)
qed

lemma entries_unlink:
  assumes "hanging t q b p a"
  shows "entries (unlink t a p b) = (entries t)(q @ [b] := None)"
  by (auto simp: entries_def walk_unlink[OF assms] fun_eq_iff split: option.split)

lemma leaf_node_unlink:
  assumes "hanging t q b p a" "x \<noteq> a" "x \<noteq> p"
  shows "leaf_node (t_heap (unlink t a p b)) x = leaf_node (t_heap t) x"
  using assms by (simp add: leaf_node_child child_unlink)

lemma leaves_valued_unlink:
  assumes h: "hanging t q b p a" and lv: "leaves_valued t {q @ [b]}"
  shows "leaves_valued (unlink t a p b) {q}"
  unfolding leaves_valued_def
proof (intro allI impI)
  fix s x
  assume s: "walk (t_heap (unlink t a p b)) (t_root (unlink t a p b)) s = Some x" "s \<noteq> []" "s \<notin> {q}"
    and l: "leaf_node (t_heap (unlink t a p b)) x"
  have wf: "tree_wf t" and q: "walk (t_heap t) (t_root t) q = Some p" using h by (auto simp: hanging_def)
  from s have s': "walk (t_heap t) (t_root t) s = Some x" "s \<noteq> q @ [b]"
    by (auto simp: walk_unlink[OF h] split: if_splits)
  have "x \<noteq> a" using hanging_walk[OF h] tree_wf_inj[OF wf s'(1), of "q @ [b]"] s'(2) by auto
  moreover have "x \<noteq> p" using q tree_wf_inj[OF wf s'(1), of q] s(3) by auto
  ultimately show "n_value (t_heap (unlink t a p b) x) \<noteq> NO_VALUE"
    using lv l s' s(2) by (simp add: leaf_node_unlink[OF h] leaves_valued_def)
qed

lemma delete_unlink_step:
  assumes "hanging t q b p a"
  shows "delete_unlink t a =
    (if leaf_node (t_heap (unlink t a p b)) p \<and> n_value (t_heap t p) = NO_VALUE \<and>
        n_parent (t_heap t p) \<noteq> None
     then delete_unlink (unlink t a p b) p else Some (Inr (unlink t a p b)))"
proof -
  from assms have wf: "tree_wf t" and q: "walk (t_heap t) (t_root t) q = Some p"
    and c: "child (t_heap t) p b = Some a" by (auto simp: hanging_def)
  have par: "n_parent (t_heap t a) = Some p" by (rule tree_wf_parent[OF wf q c])
  have right: "n_right (t_heap t p) = Some a \<longleftrightarrow> b"
    using c child_neq[OF wf q c, of True] by (auto simp: child_def)
  show ?thesis
    by (subst delete_unlink.simps)
      (auto simp: par right unlink_def Let_def leaf_node_def hanging_neq[OF assms])
qed

lemma leaves_valued_but_one:
  assumes "leaves_valued t {q}" "walk (t_heap t) (t_root t) q = Some x"
    "leaf_node (t_heap t) x \<longrightarrow> n_value (t_heap t x) \<noteq> NO_VALUE"
  shows "leaves_valued t {}"
  using assms unfolding leaves_valued_def by (metis empty_iff option.inject singletonD)

lemma delete_unlink_correct:
  assumes "hanging t q b p a" "leaves_valued t {q @ [b]}"
  shows "\<exists>t'. delete_unlink t a = Some (Inr t') \<and> tree_inv t' \<and>
    entries t' = (entries t)(q @ [b] := None) \<and> t_Record t' = t_Record t"
  using assms
proof (induction q arbitrary: t b p a rule: rev_induct)
  case Nil
  then have "p = t_root t" "tree_wf t" by (auto simp: hanging_def)
  moreover have "leaves_valued (unlink t a p b) {}"
    using leaves_valued_unlink[OF Nil.prems(1)] Nil.prems(2) by (simp add: leaves_valued_def)
  ultimately show ?case
    using delete_unlink_step[OF Nil.prems(1)] tree_wf_unlink[OF Nil.prems(1)] entries_unlink[OF Nil.prems(1)]
    by (simp add: tree_wf_root tree_inv_def fun_upd_def)
next
  case (snoc d q)
  note h = snoc.prems(1)
  let ?t = "unlink t a p b"
  have wf: "tree_wf ?t" and e: "entries ?t = (entries t)((q @ [d]) @ [b] := None)"
    and lv: "leaves_valued ?t {q @ [d]}"
    using tree_wf_unlink[OF h] entries_unlink[OF h] leaves_valued_unlink[OF h snoc.prems(2)] by auto
  have wp: "walk (t_heap ?t) (t_root ?t) (q @ [d]) = Some p"
    using h by (simp add: walk_unlink[OF h]) (simp add: hanging_def)
  then obtain g where g: "walk (t_heap ?t) (t_root ?t) q = Some g" "child (t_heap ?t) g d = Some p"
    unfolding walk_snoc bind_eq_Some_conv by blast
  show ?case
  proof (cases "leaf_node (t_heap ?t) p \<and> n_value (t_heap t p) = NO_VALUE")
    case True
    then have h': "hanging ?t q d g p" using wf g by (simp add: hanging_def)
    have "n_parent (t_heap t p) \<noteq> None"
      using tree_wf_parent[OF wf g] by simp
    moreover from True have "entries ?t (q @ [d]) = None" using wp by (simp add: entries_def)
    then have same: "(entries ?t)(q @ [d] := None) = entries ?t" by auto
    from snoc.IH[OF h' lv, unfolded same] obtain t' where
      "delete_unlink ?t p = Some (Inr t')" "tree_inv t'" "entries t' = entries ?t" "t_Record t' = t_Record t"
      by auto
    ultimately show ?thesis using delete_unlink_step[OF h] True e by (intro exI[of _ t']) simp
  next
    case False
    have "leaves_valued ?t {}" by (rule leaves_valued_but_one[OF lv wp]) (use False in simp)
    with wf e False show ?thesis using delete_unlink_step[OF h] by (auto simp: tree_inv_def)
  qed
qed

text \<open>
  Deletion of a network other than \<open>/0\<close>. It reports whether the network was in the table.
\<close>

theorem tree_delete_correct:
  assumes inv: "tree_inv t" and c: "0 < c" "c \<le> 32"
  shows "\<exists>t'. tree_delete t key (net_mask c) = Inr (entries t (key_bits key c) \<noteq> None, t') \<and>
    tree_inv t' \<and> entries t' = (entries t)(key_bits key c := None) \<and> t_Record t' = t_Record t"
proof (cases "walk (t_heap t) (t_root t) (key_bits key c)")
  case None
  then have "entries t (key_bits key c) = None" by (simp add: entries_def)
  moreover from this have "(entries t)(key_bits key c := None) = entries t" by auto
  ultimately show ?thesis
    using None inv c by (simp add: tree_delete_def bitw_0 delete_walk_walk)
next
  case (Some a)
  have wf: "tree_wf t" and lv: "leaves_valued t {}" using inv by (auto simp: tree_inv_def)
  have dw: "delete_walk (t_heap t) key (net_mask c) MAX_IPV4_BIT (Some (t_root t)) = Some a"
    using Some c by (simp add: bitw_0 delete_walk_walk)
  have ent: "entries t (key_bits key c) =
    (if n_value (t_heap t a) = NO_VALUE then None else Some (n_value (t_heap t a)))"
    using Some by (simp add: entries_def)
  have ne: "key_bits key c \<noteq> []" using c by (auto simp: key_bits_def)
  show ?thesis
  proof (cases "leaf_node (t_heap t) a")
    case False
    then have kids: "n_right (t_heap t a) \<noteq> None \<or> n_left (t_heap t a) \<noteq> None"
      by (simp add: leaf_node_def)
    have "leaves_valued (set_value t a NO_VALUE) {}"
      using lv False by (auto simp: leaves_valued_def)
    moreover have "entries t (key_bits key c) = None \<Longrightarrow> (entries t)(key_bits key c := None) = entries t"
      by auto
    ultimately show ?thesis
      using dw kids ent inv wf entries_set_value[OF wf Some, of NO_VALUE]
      by (auto simp: tree_delete_def tree_inv_def)
  next
    case True
    obtain q b where qb: "key_bits key c = q @ [b]" using ne by (metis append_butlast_last_id)
    with Some obtain p where p: "walk (t_heap t) (t_root t) q = Some p" "child (t_heap t) p b = Some a"
      by (auto simp: walk_snoc bind_eq_Some_conv)
    then have h: "hanging t q b p a" using wf True by (simp add: hanging_def)
    have "entries t (key_bits key c) \<noteq> None"
      using lv Some ne True ent by (auto simp: leaves_valued_def)
    moreover from delete_unlink_correct[OF h leaves_valued_mono[OF lv]] obtain t' where
      "delete_unlink t a = Some (Inr t')" "tree_inv t'" "entries t' = (entries t)(key_bits key c := None)"
      "t_Record t' = t_Record t"
      unfolding qb by blast
    ultimately show ?thesis using dw True by (simp add: tree_delete_def leaf_node_def)
  qed
qed

text \<open>
  Deletion of \<open>/0\<close> reaches the root: with nodes below it only its value goes, without any the
  unlinking loop reads the parent of the root and panics.
\<close>

theorem tree_delete_root:
  assumes "tree_wf t"
  shows "tree_delete t key (net_mask 0) =
    (if leaf_node (t_heap t) (t_root t) then Inl NilDeref
     else if n_value (t_heap t (t_root t)) = NO_VALUE then Inr (False, t)
     else Inr (True, set_value t (t_root t) NO_VALUE))"
  using assms
  by (auto simp: tree_delete_def bitw_0 delete_walk_walk key_bits_def leaf_node_def
      delete_unlink.simps[of t] tree_wf_root)

end
