(* ===== verification/CidrTable.thy ===== *)
theory CidrTable
  imports RadixTreeOps
begin

text \<open>
  The contract of the access control list as its clients use it: a table from networks to values
  with longest-match lookup, to which networks are added and from which they are removed. The
  locales state the contract and prove what a client concludes from it; the radix tree of
  \<open>src/acl/radix_tree.go\<close> is their interpretation.
\<close>

section \<open>Networks and addresses\<close>

text \<open>\<open>in_net ip c w\<close>: address \<open>w\<close> lies in the network of the first \<open>c\<close> bits of \<open>ip\<close>.\<close>

definition in_net :: "32 word \<Rightarrow> nat \<Rightarrow> 32 word \<Rightarrow> bool" where
  "in_net ip c w \<longleftrightarrow> drop_bit (32 - c) ip = drop_bit (32 - c) w"

lemma key_bits_eq_iff: "c \<le> 32 \<Longrightarrow> key_bits k c = key_bits k' c \<longleftrightarrow> in_net k c k'"
proof -
  assume c: "c \<le> 32"
  have high: "bit k (32 - c + j) = bit k' (32 - c + j)" if "c \<le> j" for j
    using that c bit_imp_le_length[of k "32 - c + j"] bit_imp_le_length[of k' "32 - c + j"] by auto
  have low: "possible_bit TYPE(32 word) j" if "j < c" for j using that c by simp
  have "in_net k c k' \<longleftrightarrow>
      (\<forall>j. possible_bit TYPE(32 word) j \<longrightarrow> bit k (32 - c + j) = bit k' (32 - c + j))"
    by (simp only: in_net_def bit_eq_iff bit_drop_bit_eq o_apply)
  also have "\<dots> \<longleftrightarrow> (\<forall>j < c. bit k (32 - c + j) = bit k' (32 - c + j))"
    using high low by (meson not_less)
  also have "\<dots> \<longleftrightarrow> (\<forall>i < c. bit k (31 - i) = bit k' (31 - i))"
  proof (rule iffI; intro allI impI)
    fix i assume *: "\<forall>j < c. bit k (32 - c + j) = bit k' (32 - c + j)" and "i < c"
    then have "31 - i = 32 - c + (c - 1 - i)" "c - 1 - i < c" using c by simp_all
    with * show "bit k (31 - i) = bit k' (31 - i)" by simp
  next
    fix j assume *: "\<forall>i < c. bit k (31 - i) = bit k' (31 - i)" and "j < c"
    then have eq: "32 - c + j = 31 - (c - 1 - j)" and "c - 1 - j < c" using c by simp_all
    then show "bit k (32 - c + j) = bit k' (32 - c + j)" unfolding eq using * by blast
  qed
  also have "\<dots> \<longleftrightarrow> key_bits k c = key_bits k' c"
    by (auto simp: key_bits_def)
  finally show ?thesis by simp
qed

lemma key_bits_eq_length: "key_bits k n = key_bits k' m \<Longrightarrow> n = m"
  by (metis length_key_bits)

section \<open>Longest match\<close>

lemma longest_match_None:
  "(\<And>n. n \<le> length K \<Longrightarrow> E (take n K) = None) \<Longrightarrow> longest_match E K = NO_VALUE"
proof -
  assume "\<And>n. n \<le> length K \<Longrightarrow> E (take n K) = None"
  then have "filter (\<lambda>n. E (take n K) \<noteq> None) [0..<Suc (length K)] = []"
    by (simp add: filter_empty_conv del: upt_Suc)
  then show ?thesis by (simp add: longest_match_def del: upt_Suc)
qed

lemma longest_match_Some:
  assumes "n \<le> length K" "E (take n K) = Some v" "\<And>m. n < m \<Longrightarrow> m \<le> length K \<Longrightarrow> E (take m K) = None"
  shows "longest_match E K = v"
proof -
  have "[0..<Suc (length K)] = [0..<n] @ n # [Suc n..<Suc (length K)]"
    using assms(1) upt_add_eq_append[of 0 n "Suc (length K) - n"] by (simp add: upt_conv_Cons del: upt_Suc)
  moreover have "filter (\<lambda>m. E (take m K) \<noteq> None) [Suc n..<Suc (length K)] = []"
    using assms(3) assms(3)[of "length K"] by (auto simp: filter_empty_conv)
  ultimately obtain xs where xs: "filter (\<lambda>m. E (take m K) \<noteq> None) [0..<Suc (length K)] = xs @ [n]"
    using assms(2) by (simp del: upt_Suc)
  show ?thesis unfolding longest_match_def xs using assms(2) by (cases xs) simp_all
qed

lemma longest_match_cases:
  obtains "\<forall>n \<le> length K. E (take n K) = None" "longest_match E K = NO_VALUE"
  | n v where "n \<le> length K" "E (take n K) = Some v" "\<forall>m. n < m \<longrightarrow> m \<le> length K \<longrightarrow> E (take m K) = None"
      "longest_match E K = v"
proof (cases "\<exists>n \<le> length K. E (take n K) \<noteq> None")
  case False
  then show ?thesis using that(1) longest_match_None[of K E] by auto
next
  case True
  let ?n = "GREATEST n. n \<le> length K \<and> E (take n K) \<noteq> None"
  from True have n: "?n \<le> length K \<and> E (take ?n K) \<noteq> None"
    using GreatestI_ex_nat[of "\<lambda>n. n \<le> length K \<and> E (take n K) \<noteq> None" "length K"] by blast
  then obtain v where v: "E (take ?n K) = Some v" by auto
  have above: "E (take m K) = None" if "?n < m" "m \<le> length K" for m
    using that Greatest_le_nat[of "\<lambda>n. n \<le> length K \<and> E (take n K) \<noteq> None" m "length K"] by force
  from that(2)[of ?n v] n v above longest_match_Some[of ?n K E v] show ?thesis by blast
qed

section \<open>The contract\<close>

text \<open>A list of additions, on the abstract table.\<close>

fun tab_adds ::
  "(bool list \<Rightarrow> string option) \<Rightarrow> (32 word \<times> nat \<times> string) list \<Rightarrow> bool list \<Rightarrow> string option"
where
  "tab_adds m [] = m"
| "tab_adds m ((ip, c, v) # ns) = tab_adds (m(key_bits ip c \<mapsto> v)) ns"

lemma dom_tab_adds: "dom (tab_adds m ns) = dom m \<union> (\<lambda>(ip, c, v). key_bits ip c) ` set ns"
proof (induction m ns rule: tab_adds.induct)
  case (2 m ip c v ns)
  show ?case unfolding tab_adds.simps 2 by simp
qed simp

locale cidr_lookup =
  fixes look :: "'t \<Rightarrow> 32 word \<Rightarrow> string go"
    and inv :: "'t \<Rightarrow> bool"
    and tab :: "'t \<Rightarrow> bool list \<Rightarrow> string option"
  assumes look_match: "inv t \<Longrightarrow> look t w = Inr (longest_match (tab t) (key_bits w 32))"
    and tab_value: "inv t \<Longrightarrow> tab t p \<noteq> Some NO_VALUE"
begin

lemma look_returns: "inv t \<Longrightarrow> \<exists>v. look t w = Inr v"
  by (simp add: look_match)

lemma look_hit_iff:
  assumes "inv t"
  shows "look t w = Inr v \<Longrightarrow> v \<noteq> NO_VALUE \<longleftrightarrow> (\<exists>n \<le> 32. tab t (key_bits w n) \<noteq> None)"
  using assms tab_value[OF assms]
  by (cases rule: longest_match_cases[of "key_bits w 32" "tab t"])
     (auto simp: look_match take_key_bits)

lemma look_longest:
  assumes "inv t" "n \<le> 32" "tab t (key_bits w n) = Some v"
    "\<And>m. n < m \<Longrightarrow> m \<le> 32 \<Longrightarrow> tab t (key_bits w m) = None"
  shows "look t w = Inr v"
  using assms longest_match_Some[of n "key_bits w 32" "tab t" v] by (simp add: look_match take_key_bits)

end

locale cidr_insert = cidr_lookup +
  fixes empty :: 't
    and add :: "'t \<Rightarrow> 32 word \<Rightarrow> nat \<Rightarrow> string \<Rightarrow> 't"
    and ready :: "'t \<Rightarrow> bool"
  assumes ready_inv: "ready t \<Longrightarrow> inv t"
    and ready_empty: "ready empty"
    and tab_empty: "tab empty = (\<lambda>_. None)"
    and ready_add: "ready t \<Longrightarrow> c \<le> 32 \<Longrightarrow> v \<noteq> NO_VALUE \<Longrightarrow> ready (add t ip c v)"
    and tab_add: "ready t \<Longrightarrow> c \<le> 32 \<Longrightarrow> v \<noteq> NO_VALUE \<Longrightarrow> tab (add t ip c v) = (tab t)(key_bits ip c \<mapsto> v)"
begin

lemma add_seq:
  assumes "ready t" "\<forall>(ip, c, v) \<in> set ns. c \<le> 32 \<and> v \<noteq> NO_VALUE"
  shows "ready (foldl (\<lambda>t (ip, c, v). add t ip c v) t ns) \<and>
    tab (foldl (\<lambda>t (ip, c, v). add t ip c v) t ns) = tab_adds (tab t) ns"
  using assms
proof (induction ns arbitrary: t)
  case (Cons n ns)
  obtain ip c v where n: "n = (ip, c, v)" by (cases n) auto
  with Cons show ?case by (simp add: ready_add tab_add)
qed simp

text \<open>After any additions to the empty table an address is hit iff a network added covers it.\<close>

lemma look_added_iff:
  assumes ns: "\<forall>(ip, c, v) \<in> set ns. c \<le> 32 \<and> v \<noteq> NO_VALUE"
    and t: "t = foldl (\<lambda>t (ip, c, v). add t ip c v) empty ns"
  shows "\<exists>v. look t w = Inr v \<and> (v \<noteq> NO_VALUE \<longleftrightarrow> (\<exists>(ip, c, v) \<in> set ns. in_net ip c w))"
proof -
  from add_seq[OF ready_empty ns] have r: "ready t"
    and "tab t = tab_adds (\<lambda>_. None) ns"
    by (simp_all add: t tab_empty)
  then have "dom (tab t) = (\<lambda>(ip, c, v). key_bits ip c) ` set ns"
    by (simp add: dom_tab_adds)
  then have d: "tab t p \<noteq> None \<longleftrightarrow> p \<in> (\<lambda>(ip, c, v). key_bits ip c) ` set ns" for p
    using domIff[of p "tab t"] by simp
  have "(\<exists>n \<le> 32. tab t (key_bits w n) \<noteq> None) \<longleftrightarrow> (\<exists>(ip, c, v) \<in> set ns. in_net ip c w)"
  proof
    assume "\<exists>n \<le> 32. tab t (key_bits w n) \<noteq> None"
    then obtain n ip c v where "n \<le> 32" "(ip, c, v) \<in> set ns" "key_bits w n = key_bits ip c"
      unfolding d by auto
    then show "\<exists>(ip, c, v) \<in> set ns. in_net ip c w"
      using key_bits_eq_length key_bits_eq_iff by (metis (mono_tags, lifting) case_prodI)
  next
    assume "\<exists>(ip, c, v) \<in> set ns. in_net ip c w"
    then obtain ip c v where "(ip, c, v) \<in> set ns" "in_net ip c w" by auto
    moreover from this ns have "c \<le> 32" by auto
    ultimately have "key_bits w c \<in> (\<lambda>(ip, c, v). key_bits ip c) ` set ns"
      by (auto simp: key_bits_eq_iff [symmetric] intro!: image_eqI)
    with \<open>c \<le> 32\<close> show "\<exists>n \<le> 32. tab t (key_bits w n) \<noteq> None" unfolding d by blast
  qed
  with look_hit_iff[OF ready_inv[OF r]] look_returns[OF ready_inv[OF r]] show ?thesis by metis
qed

end

locale cidr_remove = cidr_lookup +
  fixes del :: "'t \<Rightarrow> 32 word \<Rightarrow> nat \<Rightarrow> (bool \<times> 't) go"
  assumes del_returns: "inv t \<Longrightarrow> 0 < c \<Longrightarrow> c \<le> 32 \<Longrightarrow>
      \<exists>t'. del t ip c = Inr (tab t (key_bits ip c) \<noteq> None, t') \<and> inv t' \<and>
        tab t' = (tab t)(key_bits ip c := None)"
begin

lemma del_then_look:
  assumes "inv t" "0 < c" "c \<le> 32" "del t ip c = Inr (b, t')" "look t' w = Inr v"
  shows "v \<noteq> NO_VALUE \<longleftrightarrow> (\<exists>n \<le> 32. tab t (key_bits w n) \<noteq> None \<and> \<not> (n = c \<and> in_net ip c w))"
proof -
  from del_returns[OF assms(1-3), of ip] assms(4) have "inv t'" "tab t' = (tab t)(key_bits ip c := None)"
    by auto
  moreover have "key_bits w n = key_bits ip c \<longleftrightarrow> n = c \<and> in_net ip c w" for n
    using key_bits_eq_length key_bits_eq_iff[OF assms(3)] by metis
  ultimately show ?thesis using look_hit_iff[OF _ assms(5)] by auto
qed

end

section \<open>The radix tree satisfies it\<close>

lemma entries_not_empty: "entries t p \<noteq> Some NO_VALUE"
  by (simp add: entries_def split: option.split)

interpretation radix: cidr_lookup search tree_inv entries
  by unfold_locales (auto simp: search_correct tree_inv_def entries_not_empty)

interpretation radix_add: cidr_insert search tree_inv entries NewRadixTree
  "\<lambda>t ip c v. tree_insert t ip (net_mask c) v" "\<lambda>t. tree_inv t \<and> t_free t = None"
proof unfold_locales
  show "tree_inv NewRadixTree \<and> t_free NewRadixTree = None"
    by (simp add: tree_inv_New) (simp add: NewRadixTree_def)
qed (auto simp: entries_New dest: tree_insert_correct)

interpretation radix_del: cidr_remove search tree_inv entries
  "\<lambda>t ip c. tree_delete t ip (net_mask c)"
proof unfold_locales
  fix t ip and c :: nat
  assume "tree_inv t" "0 < c" "c \<le> 32"
  from tree_delete_correct[OF this, of ip]
  show "\<exists>t'. tree_delete t ip (net_mask c) = Inr (entries t (key_bits ip c) \<noteq> None, t') \<and> tree_inv t' \<and>
      entries t' = (entries t)(key_bits ip c := None)" by blast
qed

end
