(* ===== verification/AclHistory.thy ===== *)
theory AclHistory
  imports AccessList
begin

text \<open>
  Which clients the access control list turns away after a history of additions and removals:
  exactly the covered ones as long as nothing is added after a removal, and, on concrete
  histories, what goes wrong when \<open>newNode\<close> hands out a freed node with its old \<open>right\<close>
  pointer.
\<close>

section \<open>Histories\<close>

datatype acl_op = AddIps "string list" | RemoveIps "string list"

fun acl_op_apply :: "acl_op \<Rightarrow> RadixTree \<Rightarrow> RadixTree go" where
  "acl_op_apply (AddIps ips) t = acl_add_all ips t"
| "acl_op_apply (RemoveIps ips) t = acl_remove_all ips t"

definition acl_history :: "acl_op list \<Rightarrow> RadixTree go" where
  "acl_history ops = go_fold acl_op_apply ops NewRadixTree"

text \<open>The address a client is looked up under: 0 when the text does not parse.\<close>

definition client_word :: "string \<Rightarrow> 32 word" where
  "client_word addr =
     (case InetToi (Split CHR '':'' addr ! 0) of Inr (Some w) \<Rightarrow> w | _ \<Rightarrow> 0)"

definition client_ok :: "string \<Rightarrow> bool" where
  "client_ok addr \<longleftrightarrow> parsable (Split CHR '':'' addr ! 0)"

definition nets_ok :: "string list \<Rightarrow> bool" where
  "nets_ok ips \<longleftrightarrow> (\<forall>s \<in> set ips. parsable (Split CHR ''/'' s ! 0))"

text \<open>The network of text \<open>s\<close> covers the address.\<close>

definition covers :: "string \<Rightarrow> 32 word \<Rightarrow> bool" where
  "covers s w = (case net_of s of None \<Rightarrow> False | Some (ip, c) \<Rightarrow> in_net ip c w)"

lemma AccessControl_entries:
  assumes "tree_inv t" "client_ok addr"
  shows "AccessControl t addr = Inr (\<exists>n \<le> 32. key_bits (client_word addr) n \<in> dom (entries t))"
proof -
  from assms(2) obtain r where r: "InetToi (Split CHR '':'' addr ! 0) = Inr r"
    unfolding client_ok_def parsable_iff by blast
  from radix.look_returns[OF assms(1)] obtain v where v: "search t (client_word addr) = Inr v" by blast
  have "AccessControl t addr = Inr (v \<noteq> NO_VALUE)"
    using r v by (simp add: AccessControl_def Search_def client_word_def NO_VALUE_def split: option.splits)
  with radix.look_hit_iff[OF assms(1) v] show ?thesis by (simp add: domIff del: not_None_eq)
qed

lemma covers_iff_key: "covers s w \<longleftrightarrow> (\<exists>n \<le> 32. key_bits w n \<in> net_keys s)"
proof (cases "net_of s")
  case (Some n)
  then obtain ip c where n: "net_of s = Some (ip, c)" by (cases n) auto
  from net_of_bound[OF n] have "key_bits w m = key_bits ip c \<longleftrightarrow> m = c \<and> in_net ip c w" for m
    using key_bits_eq_length key_bits_eq_iff by metis
  with n net_of_bound[OF n] show ?thesis by (auto simp: covers_def net_keys_def)
qed (simp add: covers_def net_keys_def)

lemma acl_history_adds:
  assumes "nets_ok ips"
  shows "\<exists>t. acl_history [AddIps ips] = Inr t \<and> tree_inv t \<and> t_free t = None \<and>
    dom (entries t) = (\<Union>s \<in> set ips. net_keys s) \<and> GetBlackList t = {s \<in> set ips. net_of s \<noteq> None}"
proof -
  have "t_free NewRadixTree = None" "t_Record NewRadixTree = (\<lambda>_. None)"
    by (simp_all add: NewRadixTree_def)
  with acl_add_all_correct[OF tree_inv_New _ assms[unfolded nets_ok_def]] show ?thesis
    by (auto simp: acl_history_def GetBlackList_def entries_New go_bind_def)
qed

text \<open>
  C2: after any additions to a new list, the list holds exactly the texts that denote a network,
  and a client is turned away exactly when one of these networks covers its address.
\<close>

theorem blacklist_exact_after_adds:
  assumes "nets_ok ips"
  shows "\<exists>t. acl_history [AddIps ips] = Inr t \<and> GetBlackList t = {s \<in> set ips. net_of s \<noteq> None} \<and>
    (\<forall>addr. client_ok addr \<longrightarrow> AccessControl t addr = Inr (\<exists>s \<in> set ips. covers s (client_word addr)))"
proof -
  from acl_history_adds[OF assms] obtain t where t: "acl_history [AddIps ips] = Inr t" "tree_inv t"
    "dom (entries t) = (\<Union>s \<in> set ips. net_keys s)" "GetBlackList t = {s \<in> set ips. net_of s \<noteq> None}"
    by blast
  have "AccessControl t addr = Inr (\<exists>s \<in> set ips. covers s (client_word addr))" if "client_ok addr" for addr
    unfolding AccessControl_entries[OF t(2) that] t(3) covers_iff_key by auto
  with t show ?thesis by blast
qed

theorem blacklist_exact_after_adds_witness:
  "\<exists>t. acl_history [AddIps [''192.168.3.0/24'', ''10.0.0.7/32'']] = Inr t \<and>
     AccessControl t ''192.168.3.77:5000'' = Inr True \<and> AccessControl t ''10.0.0.8:5000'' = Inr False"
proof -
  have "nets_ok [''192.168.3.0/24'', ''10.0.0.7/32'']" by code_simp
  from blacklist_exact_after_adds[OF this] obtain t where
    t: "acl_history [AddIps [''192.168.3.0/24'', ''10.0.0.7/32'']] = Inr t"
    "\<And>addr. client_ok addr \<Longrightarrow> AccessControl t addr =
      Inr (\<exists>s \<in> set [''192.168.3.0/24'', ''10.0.0.7/32'']. covers s (client_word addr))" by blast
  have "client_ok ''192.168.3.77:5000''" "client_ok ''10.0.0.8:5000''" by code_simp+
  moreover have "\<exists>s \<in> set [''192.168.3.0/24'', ''10.0.0.7/32'']. covers s (client_word ''192.168.3.77:5000'')"
    by code_simp
  moreover have "\<not> (\<exists>s \<in> set [''192.168.3.0/24'', ''10.0.0.7/32'']. covers s (client_word ''10.0.0.8:5000''))"
    by code_simp
  ultimately show ?thesis using t by simp
qed

text \<open>
  C3: on a new list, one round of additions and then one round of removals, no removed network being a /0
  (removing that panics, \<open>root_removal_panics\<close>), take exactly the removed networks out: a client is turned
  away exactly when a network added and not removed covers it. Neither the lists nor the lookups fail. What
  additions after removals do, \<open>reused_node_forbids_uncovered\<close> shows.
\<close>

theorem blacklist_exact_after_removals:
  assumes "nets_ok ips" "nets_ok rs" "\<forall>s \<in> set rs. \<forall>ip. net_of s \<noteq> Some (ip, 0)"
  shows "\<exists>t. acl_history [AddIps ips, RemoveIps rs] = Inr t \<and>
    (\<forall>addr. client_ok addr \<longrightarrow> AccessControl t addr =
      Inr (\<exists>s \<in> set ips. covers s (client_word addr) \<and> (\<forall>r \<in> set rs. net_keys r \<noteq> net_keys s)))"
proof -
  from acl_history_adds[OF assms(1)] obtain t where t: "acl_history [AddIps ips] = Inr t" "tree_inv t"
    "dom (entries t) = (\<Union>s \<in> set ips. net_keys s)" by blast
  from acl_remove_all_correct[OF t(2) assms(2)[unfolded nets_ok_def] assms(3)] obtain t' where
    t': "acl_remove_all rs t = Inr t'" "tree_inv t'"
    "dom (entries t') = dom (entries t) - (\<Union>s \<in> set rs. net_keys s)" by blast
  from t(1) t'(1) have h: "acl_history [AddIps ips, RemoveIps rs] = Inr t'"
    by (simp add: acl_history_def go_bind_eq_Inr_iff)
  have single: "k \<in> net_keys s \<Longrightarrow> net_keys s = {k}" for k s
    by (auto simp: net_keys_def split: option.splits prod.splits)
  have key: "(\<forall>r \<in> set rs. net_keys r \<noteq> net_keys s) \<longleftrightarrow> k \<notin> (\<Union>r \<in> set rs. net_keys r)"
    if "k \<in> net_keys s" for k s using single[OF that] single[of k] by (metis UN_iff singletonI)
  have "AccessControl t' addr =
      Inr (\<exists>s \<in> set ips. covers s (client_word addr) \<and> (\<forall>r \<in> set rs. net_keys r \<noteq> net_keys s))"
    if "client_ok addr" for addr
  proof -
    let ?kb = "key_bits (client_word addr)" and ?R = "\<Union>r \<in> set rs. net_keys r"
    have "(\<exists>n \<le> 32. ?kb n \<in> (\<Union>s \<in> set ips. net_keys s) - ?R)
      \<longleftrightarrow> (\<exists>s \<in> set ips. \<exists>n \<le> 32. ?kb n \<in> net_keys s \<and> ?kb n \<notin> ?R)" by blast
    also have "\<dots> \<longleftrightarrow> (\<exists>s \<in> set ips. \<exists>n \<le> 32. ?kb n \<in> net_keys s \<and> (\<forall>r \<in> set rs. net_keys r \<noteq> net_keys s))"
      using key by meson
    finally show ?thesis
      unfolding AccessControl_entries[OF t'(2) that] t'(3) t(3) covers_iff_key by blast
  qed
  with h show ?thesis by blast
qed

theorem blacklist_exact_after_removals_witness:
  "\<exists>t. acl_history [AddIps [''192.168.3.0/24'', ''192.168.3.7/32''], RemoveIps [''192.168.3.0/24'']] = Inr t \<and>
     AccessControl t ''192.168.3.7:80'' = Inr True \<and> AccessControl t ''192.168.3.8:80'' = Inr False"
proof -
  let ?a = "[''192.168.3.0/24'', ''192.168.3.7/32'']" and ?r = "[''192.168.3.0/24'']"
  have "nets_ok ?a" "nets_ok ?r" by code_simp+
  moreover have "net_of ''192.168.3.0/24'' = Some (3232236288, 24)" by code_simp
  then have "\<forall>s \<in> set ?r. \<forall>ip. net_of s \<noteq> Some (ip, 0)" by simp
  ultimately obtain t where t: "acl_history [AddIps ?a, RemoveIps ?r] = Inr t"
    "\<And>addr. client_ok addr \<Longrightarrow> AccessControl t addr =
      Inr (\<exists>s \<in> set ?a. covers s (client_word addr) \<and> (\<forall>r \<in> set ?r. net_keys r \<noteq> net_keys s))"
    using blacklist_exact_after_removals by blast
  have "client_ok ''192.168.3.7:80''" "client_ok ''192.168.3.8:80''" by code_simp+
  moreover have "\<exists>s \<in> set ?a. covers s (client_word ''192.168.3.7:80'') \<and> (\<forall>r \<in> set ?r. net_keys r \<noteq> net_keys s)"
    by code_simp
  moreover have "\<not> (\<exists>s \<in> set ?a. covers s (client_word ''192.168.3.8:80'') \<and> (\<forall>r \<in> set ?r. net_keys r \<noteq> net_keys s))"
    by code_simp
  ultimately show ?thesis using t by simp
qed

section \<open>Histories that reuse freed nodes\<close>

text \<open>
  C35: a freed node handed out again can bring its old \<open>right\<close> pointer into the tree. After
  \<open>128.0.0.0/2\<close> was added and removed and \<open>0.0.0.0/2\<close> added, the list holds only
  \<open>0.0.0.0/2\<close>, and the client \<open>64.0.0.1\<close>, outside that network, is turned away.
\<close>

definition stale_history :: "acl_op list" where
  "stale_history = [AddIps [''128.0.0.0/2''], RemoveIps [''128.0.0.0/2''], AddIps [''0.0.0.0/2'']]"

definition on_history :: "acl_op list \<Rightarrow> (RadixTree \<Rightarrow> bool) \<Rightarrow> bool" where
  "on_history ops P \<longleftrightarrow> (case acl_history ops of Inl _ \<Rightarrow> False | Inr t \<Rightarrow> P t)"

lemma on_historyD: "on_history ops P \<Longrightarrow> \<exists>t. acl_history ops = Inr t \<and> P t"
  by (simp add: on_history_def split: sum.splits)

theorem reused_node_forbids_uncovered:
  "\<exists>t. acl_history stale_history = Inr t \<and> t_Record t ''128.0.0.0/2'' = None \<and>
     t_Record t ''0.0.0.0/2'' = Some True \<and> \<not> covers ''0.0.0.0/2'' (client_word ''64.0.0.1:80'') \<and>
     AccessControl t ''64.0.0.1:80'' = Inr True"
proof -
  have "on_history stale_history (\<lambda>t. t_Record t ''128.0.0.0/2'' = None \<and>
     t_Record t ''0.0.0.0/2'' = Some True \<and> \<not> covers ''0.0.0.0/2'' (client_word ''64.0.0.1:80'') \<and>
     AccessControl t ''64.0.0.1:80'' = Inr True)" by code_simp
  then show ?thesis by (rule on_historyD)
qed

lemma search_loop_cycle:
  assumes "search_loop h key b node v = Some r"
    and "b = bitw i" "node = Some a" "child h a False = Some a" "\<forall>j < 32. i \<le> j \<longrightarrow> \<not> bit key (31 - j)"
  shows False
proof -
  have "\<forall>i a. b = bitw i \<longrightarrow> node = Some a \<longrightarrow> child h a False = Some a \<longrightarrow>
    \<not> (\<forall>j < 32. i \<le> j \<longrightarrow> \<not> bit key (31 - j))"
  proof (rule search_loop.raw_induct[where P = "\<lambda>h key b node v r. \<forall>i a. b = bitw i \<longrightarrow> node = Some a \<longrightarrow>
      child h a False = Some a \<longrightarrow> \<not> (\<forall>j < 32. i \<le> j \<longrightarrow> \<not> bit key (31 - j))", OF _ assms(1)])
    fix f h key b node v r
    assume IH: "\<And>h key b node v r. f h key b node v = Some r \<Longrightarrow> \<forall>i a. b = bitw i \<longrightarrow> node = Some a \<longrightarrow>
        child h a False = Some a \<longrightarrow> \<not> (\<forall>j < 32. i \<le> j \<longrightarrow> \<not> bit key (31 - j))"
      and eq: "(case node of None \<Rightarrow> Some v | Some n \<Rightarrow>
          f h key (drop_bit 1 b) (child h n (key AND b \<noteq> 0))
            (if n_value (h n) \<noteq> NO_VALUE then n_value (h n) else v)) = Some r"
    show "\<forall>i a. b = bitw i \<longrightarrow> node = Some a \<longrightarrow> child h a False = Some a \<longrightarrow>
        \<not> (\<forall>j < 32. i \<le> j \<longrightarrow> \<not> bit key (31 - j))"
    proof (intro allI impI notI)
      fix i a
      assume b: "b = bitw i" and node: "node = Some a" and loop: "child h a False = Some a"
        and zero: "\<forall>j < 32. i \<le> j \<longrightarrow> \<not> bit key (31 - j)"
      have "(key AND b \<noteq> 0) = False" using zero by (auto simp: b and_bitw)
      then have "f h key (bitw (Suc i)) (Some a)
          (if n_value (h a) \<noteq> NO_VALUE then n_value (h a) else v) = Some r"
        using eq by (simp add: node loop b drop_bit_bitw del: One_nat_def)
      from IH[OF this, rule_format, of "Suc i" a] loop zero show False by auto
    qed
  qed
  with assms(2-) show False by blast
qed

text \<open>
  C36: reuse can also tie a node to itself. After the history below the lookup of the client
  \<open>64.0.0.0\<close> follows that loop for ever, so the request never gets an answer.
\<close>

definition loop_history :: "acl_op list" where
  "loop_history =
     [AddIps [''128.0.0.0/2''], RemoveIps [''128.0.0.0/2''], AddIps [''0.0.0.0/1'', ''64.0.0.0/3'']]"

lemma loop_history_tree:
  "\<exists>t. acl_history loop_history = Inr t \<and> t_root t = 0 \<and> child (t_heap t) 0 False = Some 1 \<and>
     child (t_heap t) 1 True = Some 2 \<and> child (t_heap t) 2 False = Some 2"
proof -
  have "on_history loop_history (\<lambda>t. t_root t = 0 \<and> child (t_heap t) 0 False = Some 1 \<and>
     child (t_heap t) 1 True = Some 2 \<and> child (t_heap t) 2 False = Some 2)" by code_simp
  then show ?thesis by (rule on_historyD)
qed

theorem reused_node_lookup_diverges:
  "\<exists>t. acl_history loop_history = Inr t \<and> AccessControl t ''64.0.0.0:80'' = Inl Diverges"
proof -
  from loop_history_tree obtain t where t: "acl_history loop_history = Inr t" "t_root t = 0"
    "child (t_heap t) 0 False = Some 1" "child (t_heap t) 1 True = Some 2"
    "child (t_heap t) 2 False = Some 2" by blast
  have addr: "InetToi (Split CHR '':'' ''64.0.0.0:80'' ! 0) = Inr (Some 0x40000000)" by code_simp
  let ?k = "0x40000000 :: 32 word"
  have key: "?k = push_bit 30 1" by simp
  have bits: "bit ?k j \<longleftrightarrow> j = 30" for j
    unfolding key bit_push_bit_iff by (auto simp: bit_1_iff)
  have zero: "\<forall>j < 32. 2 \<le> j \<longrightarrow> \<not> bit ?k (31 - j)" unfolding bits by auto
  have s2: "search_loop (t_heap t) ?k (bitw 2) (Some 2) v = None" for v
    using search_loop_cycle[OF _ refl refl t(5) zero] by fastforce
  have b1: "drop_bit 1 (bitw 0) = bitw 1" and b2: "drop_bit 1 (bitw 1) = bitw 2"
    using drop_bit_bitw[of 0] drop_bit_bitw[of 1] by (simp_all add: numeral_2_eq_2)
  have a0: "(?k AND bitw 0 \<noteq> 0) = False" and a1: "(?k AND bitw 1 \<noteq> 0) = True"
    by (simp_all add: and_bitw bits)
  have s1: "search_loop (t_heap t) ?k (bitw 1) (Some 1) v = None" for v
    by (subst search_loop.simps) (simp only: option.case a1 b2 t(4) s2)
  have "search_loop (t_heap t) ?k (bitw 0) (Some (t_root t)) NO_VALUE = None"
    by (subst search_loop.simps) (simp only: option.case a0 b1 t(2,3) s1)
  then have "search t ?k = Inl Diverges" by (simp add: search_def bitw_0)
  then show ?thesis using t(1) addr by (simp add: AccessControl_def Search_def)
qed

section \<open>Failing and odd inputs\<close>

text \<open>
  A client whose text does not parse as an address, such as any IPv6 client, is let in or
  turned away as if it were \<open>0.0.0.0\<close>.
\<close>

theorem unparsable_client_is_zero:
  assumes "InetToi (Split CHR '':'' addr ! 0) = Inr None"
  shows "AccessControl t addr = AccessControl t ''0.0.0.0''"
proof -
  have "InetToi (Split CHR '':'' ''0.0.0.0'' ! 0) = Inr (Some 0)" by code_simp
  with assms show ?thesis by (simp add: AccessControl_def Search_def)
qed

theorem unparsable_client_is_zero_witness:
  "AccessControl NewRadixTree ''[2001:db8::1]:443'' = AccessControl NewRadixTree ''0.0.0.0''"
  by (rule unparsable_client_is_zero) code_simp

text \<open>
  A client text whose host part has five numeric segments makes the lookup panic, on every
  list.
\<close>

theorem long_client_panics:
  assumes "\<not> client_ok addr"
  shows "AccessControl t addr = Inl NegativeShift"
proof -
  from assms have "InetToi (Split CHR '':'' addr ! 0) = Inl NegativeShift"
    by (simp add: client_ok_def parsable_def InetToi_fault_iff)
  then show ?thesis by (simp add: AccessControl_def Search_def)
qed

theorem long_client_panics_witness: "AccessControl NewRadixTree ''1.2.3.4.5:80'' = Inl NegativeShift"
  by (rule long_client_panics) code_simp

text \<open>
  Removing a network of prefix length 0 from a list without any other node panics: the root
  is a leaf and \<open>delete\<close> follows its parent pointer.
\<close>

theorem root_removal_panics:
  assumes "net_of s = Some (ip, 0)"
  shows "acl_history [RemoveIps [s]] = Inl NilDeref"
proof -
  have "tree_wf NewRadixTree" using tree_inv_New by (simp add: tree_inv_def)
  moreover have "leaf_node (t_heap NewRadixTree) (t_root NewRadixTree)"
    by (simp add: leaf_node_def NewRadixTree_def fresh_node_def)
  ultimately have "tree_delete NewRadixTree ip (net_mask 0) = Inl NilDeref"
    by (simp add: tree_delete_root)
  then show ?thesis by (simp add: acl_history_def acl_remove_all_def Delete_accepts[OF assms])
qed

theorem root_removal_panics_witness: "acl_history [RemoveIps [''10.0.0.0/0'']] = Inl NilDeref"
proof -
  have "net_of ''10.0.0.0/0'' = Some (0x0A000000, 0)" by code_simp
  then show ?thesis by (rule root_removal_panics)
qed

end
