(* ===== verification/Balancer.thy ===== *)
theory Balancer
  imports NetUtils
begin

text \<open>
  The \<open>Balancer\<close> interface of \<open>src/balancer/balancer.go\<close> as a contract: what the
  prefix table and the proxy rely on when they ask a balancer for a host, and when they add or
  remove one. \<open>RoundRobin\<close> and \<open>ConsistHash\<close> interpret it.
\<close>

datatype balancer_error = NoHostError | AlgorithmNotSupportedError | CantFindAnyHost

type_synonym 'b pick_result = "((balancer_error + string) \<times> 'b) go"

text \<open>Serving a list of requests one after the other; the hosts in order.\<close>

fun serve :: "('b \<Rightarrow> string \<Rightarrow> request option \<Rightarrow> 'b pick_result) \<Rightarrow>
    (string \<times> request option) list \<Rightarrow> 'b \<Rightarrow> ((balancer_error + string) list \<times> 'b) go" where
  "serve pick [] b = Inr ([], b)"
| "serve pick ((url, r) # reqs) b =
     go_bind (pick b url r) (\<lambda>(h, b1). go_bind (serve pick reqs b1) (\<lambda>(hs, b2). Inr (h # hs, b2)))"

lemma serve_append:
  "serve pick (xs @ ys) b =
     go_bind (serve pick xs b) (\<lambda>(hs, b1). go_bind (serve pick ys b1) (\<lambda>(hs', b2). Inr (hs @ hs', b2)))"
proof (induction pick xs b rule: serve.induct)
  case (1 pick b)
  show ?case by (cases "serve pick ys b") auto
next
  case (2 pick url r reqs b)
  then show ?case by (cases "pick b url r") (auto simp: go_bind_assoc split_beta)
qed

text \<open>
  \<open>live b\<close> are the hosts a balancer may answer with, \<open>inv b\<close> its representation invariant
  and \<open>rok r\<close> the requests it can read.
\<close>

locale host_selector =
  fixes pick :: "'b \<Rightarrow> string \<Rightarrow> request option \<Rightarrow> 'b pick_result"
    and live :: "'b \<Rightarrow> string set"
    and inv :: "'b \<Rightarrow> bool"
    and rok :: "request option \<Rightarrow> bool"
  assumes pick_live: "inv b \<Longrightarrow> live b \<noteq> {} \<Longrightarrow> rok r \<Longrightarrow>
      \<exists>h b'. pick b url r = Inr (Inr h, b') \<and> h \<in> live b \<and> live b' = live b \<and> inv b'"
    and pick_empty: "inv b \<Longrightarrow> live b = {} \<Longrightarrow>
      \<exists>e b'. pick b url r = Inr (Inl e, b') \<and> live b' = {} \<and> inv b'"
begin

lemma pick_returns:
  assumes "inv b" "rok r"
  shows "\<exists>h b'. pick b url r = Inr (h, b') \<and> live b' = live b \<and> inv b' \<and>
    (case h of Inl e \<Rightarrow> live b = {} | Inr h \<Rightarrow> h \<in> live b)"
proof (cases "live b = {}")
  case True
  from pick_empty[OF assms(1) True, of url r] obtain e b' where
    "pick b url r = Inr (Inl e, b')" "live b' = {}" "inv b'" by blast
  with True show ?thesis by (intro exI[of _ "Inl e"] exI[of _ b']) simp
next
  case False
  from pick_live[OF assms(1) False assms(2), of url] obtain h b' where
    "pick b url r = Inr (Inr h, b')" "h \<in> live b" "live b' = live b" "inv b'" by blast
  then show ?thesis by (intro exI[of _ "Inr h"] exI[of _ b']) simp
qed

lemma serve_live:
  assumes "inv b" "live b \<noteq> {}" "\<forall>(url, r) \<in> set reqs. rok r"
  shows "\<exists>hs b'. serve pick reqs b = Inr (map Inr hs, b') \<and> length hs = length reqs \<and>
    set hs \<subseteq> live b \<and> live b' = live b \<and> inv b'"
  using assms
proof (induction reqs arbitrary: b)
  case Nil
  then show ?case by simp
next
  case (Cons q reqs)
  obtain url r where q: "q = (url, r)" by (cases q)
  with Cons.prems have "rok r" by simp
  from pick_live[OF Cons.prems(1,2) this, of url] obtain h b1 where
    b1: "pick b url r = Inr (Inr h, b1)" "h \<in> live b" "live b1 = live b" "inv b1" by blast
  from Cons.IH[of b1] Cons.prems b1 obtain hs b' where
    "serve pick reqs b1 = Inr (map Inr hs, b')" "length hs = length reqs" "set hs \<subseteq> live b"
    "live b' = live b" "inv b'" by auto
  with b1 q show ?case by (intro exI[of _ "h # hs"] exI[of _ b']) simp
qed

end

text \<open>
  A balancer whose hosts can be edited: \<open>fits h b\<close> says that host \<open>h\<close> can be added to
  \<open>b\<close>, \<open>editable b\<close> that edits do not wait.
\<close>

locale host_editor = host_selector +
  fixes add :: "string \<Rightarrow> 'b \<Rightarrow> 'b go"
    and remove :: "string \<Rightarrow> 'b \<Rightarrow> 'b go"
    and editable :: "'b \<Rightarrow> bool"
    and fits :: "string \<Rightarrow> 'b \<Rightarrow> bool"
  assumes add_live: "inv b \<Longrightarrow> editable b \<Longrightarrow> fits h b \<Longrightarrow>
      \<exists>b'. add h b = Inr b' \<and> live b' = insert h (live b) \<and> inv b' \<and> editable b'"
    and remove_live: "inv b \<Longrightarrow> editable b \<Longrightarrow> h \<in> live b \<Longrightarrow>
      \<exists>b'. remove h b = Inr b' \<and> live b' = live b - {h} \<and> inv b' \<and> editable b'"
begin

text \<open>A host that was removed is not answered any more, one that was added may be.\<close>

lemma remove_then_pick:
  assumes "inv b" "editable b" "h \<in> live b" "rok r"
  shows "\<exists>b1 g b2. remove h b = Inr b1 \<and> pick b1 url r = Inr (g, b2) \<and> g \<noteq> Inr h"
proof -
  from remove_live[OF assms(1-3)] obtain b1 where
    b1: "remove h b = Inr b1" "live b1 = live b - {h}" "inv b1" by blast
  obtain g b2 where
    g: "pick b1 url r = Inr (g, b2)" "case g of Inl e \<Rightarrow> live b1 = {} | Inr g \<Rightarrow> g \<in> live b1"
    using pick_returns[OF b1(3) assms(4), of url] by (elim exE conjE) (rule that)
  have "g \<noteq> Inr h"
  proof
    assume "g = Inr h"
    with g(2) have "h \<in> live b1" by simp
    with b1(2) show False by simp
  qed
  with b1(1) g(1) show ?thesis by blast
qed

lemma add_then_remove:
  assumes "inv b" "editable b" "fits h b" "h \<notin> live b"
  shows "\<exists>b'. go_bind (add h b) (remove h) = Inr b' \<and> live b' = live b \<and> inv b' \<and> editable b'"
proof -
  from add_live[OF assms(1-3)] obtain b1 where
    b1: "add h b = Inr b1" "live b1 = insert h (live b)" "inv b1" "editable b1" by blast
  then have "h \<in> live b1" by simp
  from remove_live[OF b1(3,4) this] obtain b2 where
    "remove h b1 = Inr b2" "live b2 = live b1 - {h}" "inv b2" "editable b2" by blast
  moreover have "insert h (live b) - {h} = live b" using assms(4) by simp
  ultimately show ?thesis using b1 by (intro exI[of _ b2]) simp
qed

end

end
