(* ===== verification/RoundRobin.thy ===== *)
theory RoundRobin
  imports Balancer
begin

text \<open>
  \<open>src/balancer/round_robin.go\<close>: the counter is a \<open>uint64\<close>, the hosts are a slice. Every
  operation takes the lock and releases it before it returns.
\<close>

record RoundRobin =
  rr_mu :: RWMutex
  rr_idx :: "64 word"
  rr_hosts :: "string list"

definition NewRoundRobin :: "string list \<Rightarrow> RoundRobin" where
  "NewRoundRobin hosts = \<lparr>rr_mu = unlocked, rr_idx = 0, rr_hosts = hosts\<rparr>"

definition rr_Add :: "string \<Rightarrow> RoundRobin \<Rightarrow> RoundRobin go" where
  "rr_Add host r =
     go_bind (mu_Lock (rr_mu r)) (\<lambda>m.
       if host \<in> set (rr_hosts r) then Inr (r\<lparr>rr_mu := mu_Unlock m\<rparr>)
       else Inr (r\<lparr>rr_mu := mu_Unlock m, rr_hosts := rr_hosts r @ [host]\<rparr>))"

text \<open>The first slot that holds the host is cut out.\<close>

fun rr_cut :: "string \<Rightarrow> string list \<Rightarrow> string list" where
  "rr_cut host [] = []"
| "rr_cut host (h # hs) = (if h = host then hs else h # rr_cut host hs)"

definition rr_Remove :: "string \<Rightarrow> RoundRobin \<Rightarrow> RoundRobin go" where
  "rr_Remove host r =
     go_bind (mu_Lock (rr_mu r)) (\<lambda>m. Inr (r\<lparr>rr_mu := mu_Unlock m, rr_hosts := rr_cut host (rr_hosts r)\<rparr>))"

definition rr_Balance :: "RoundRobin \<Rightarrow> string \<Rightarrow> request option \<Rightarrow> RoundRobin pick_result" where
  "rr_Balance r _ _ =
     go_bind (mu_RLock (rr_mu r)) (\<lambda>m.
       if length (rr_hosts r) = 0 then Inr (Inl NoHostError, r\<lparr>rr_mu := mu_RUnlock m\<rparr>)
       else
         let host = rr_hosts r ! unat (rr_idx r mod of_nat (length (rr_hosts r)))
         in Inr (Inr host, r\<lparr>rr_mu := mu_RUnlock m, rr_idx := rr_idx r + 1\<rparr>))"

definition rr_Len :: "RoundRobin \<Rightarrow> nat" where "rr_Len r = length (rr_hosts r)"
definition rr_Mode :: "RoundRobin \<Rightarrow> string" where "rr_Mode r = ''round-robin''"
definition rr_Hosts :: "RoundRobin \<Rightarrow> string list" where "rr_Hosts r = rr_hosts r"

section \<open>Invariant and contract\<close>

text \<open>The lock is free, no host occurs twice, and the slice is shorter than \<open>2 ^ 64\<close>.\<close>

definition rr_inv :: "RoundRobin \<Rightarrow> bool" where
  "rr_inv r \<longleftrightarrow> rr_mu r = unlocked \<and> distinct (rr_hosts r) \<and> length (rr_hosts r) < 2 ^ 63"

definition rr_live :: "RoundRobin \<Rightarrow> string set" where
  "rr_live r = set (rr_hosts r)"

lemma rr_cut_remove1: "rr_cut h hs = remove1 h hs"
  by (induction hs) auto

lemma unat_mod_length:
  fixes i :: "64 word"
  assumes "0 < n" "n < 2 ^ 64"
  shows "unat (i mod of_nat n) = unat i mod n"
proof -
  have "unat (of_nat n :: 64 word) = n"
    using assms(2) by (simp add: unat_of_nat take_bit_nat_eq_self)
  then show ?thesis by (simp add: unat_mod_distrib)
qed

lemma rr_Balance_step:
  assumes "rr_mu r = unlocked" "0 < length (rr_hosts r)" "length (rr_hosts r) < 2 ^ 63"
  shows "rr_Balance r url q =
    Inr (Inr (rr_hosts r ! (unat (rr_idx r) mod length (rr_hosts r))), r\<lparr>rr_idx := rr_idx r + 1\<rparr>)"
  using assms unat_mod_length[of "length (rr_hosts r)" "rr_idx r"]
  by (cases r) (simp add: rr_Balance_def)

interpretation rr: host_editor rr_Balance rr_live rr_inv "\<lambda>_. True" rr_Add rr_Remove "\<lambda>_. True"
  "\<lambda>h r. length (rr_hosts r) + 1 < 2 ^ 63"
proof unfold_locales
  fix b :: RoundRobin and url and r :: "request option"
  assume b: "rr_inv b" "rr_live b \<noteq> {}"
  then show "\<exists>h b'. rr_Balance b url r = Inr (Inr h, b') \<and> h \<in> rr_live b \<and> rr_live b' = rr_live b \<and> rr_inv b'"
    using rr_Balance_step[of b url r] by (auto simp: rr_inv_def rr_live_def)
next
  fix b :: RoundRobin and url and r :: "request option"
  assume "rr_inv b" "rr_live b = {}"
  then show "\<exists>e b'. rr_Balance b url r = Inr (Inl e, b') \<and> rr_live b' = {} \<and> rr_inv b'"
    by (simp add: rr_inv_def rr_live_def rr_Balance_def)
next
  fix b :: RoundRobin and h
  assume "rr_inv b" "length (rr_hosts b) + 1 < 2 ^ 63"
  then show "\<exists>b'. rr_Add h b = Inr b' \<and> rr_live b' = insert h (rr_live b) \<and> rr_inv b' \<and> True"
    by (auto simp: rr_inv_def rr_live_def rr_Add_def)
next
  fix b :: RoundRobin and h
  assume "rr_inv b" "h \<in> rr_live b"
  then show "\<exists>b'. rr_Remove h b = Inr b' \<and> rr_live b' = rr_live b - {h} \<and> rr_inv b' \<and> True"
    by (auto simp: rr_inv_def rr_live_def rr_Remove_def rr_cut_remove1 length_remove1
        distinct_remove1_filter intro: le_less_trans[OF length_filter_le])
qed

section \<open>Round robin\<close>

lemma serve_rr:
  assumes "rr_mu r = unlocked" "0 < length (rr_hosts r)" "length (rr_hosts r) < 2 ^ 63"
    "unat (rr_idx r) + length reqs \<le> 2 ^ 64"
  shows "\<exists>i'. serve rr_Balance reqs r =
    Inr (map (\<lambda>j. Inr (rr_hosts r ! ((unat (rr_idx r) + j) mod length (rr_hosts r)))) [0..<length reqs],
      r\<lparr>rr_idx := i'\<rparr>)"
  using assms
proof (induction reqs arbitrary: r)
  case Nil
  show ?case by (rule exI[of _ "rr_idx r"]) simp
next
  case (Cons q reqs)
  obtain url x where q: "q = (url, x)" by (cases q)
  let ?n = "length (rr_hosts r)" and ?r1 = "r\<lparr>rr_idx := rr_idx r + 1\<rparr>"
  have step: "rr_Balance r url x = Inr (Inr (rr_hosts r ! (unat (rr_idx r) mod ?n)), ?r1)"
    by (rule rr_Balance_step) (use Cons.prems in auto)
  show ?case
  proof (cases reqs)
    case Nil
    with step q show ?thesis by (intro exI[of _ "rr_idx r + 1"]) simp
  next
    case (Cons q2 reqs2)
    with Cons.prems have lt: "unat (rr_idx r) + 1 < 2 ^ 64" by simp
    then have u: "unat (rr_idx r + 1) = unat (rr_idx r) + 1"
      by (subst unat_add_lem[THEN iffD1]) auto
    then have "unat (rr_idx ?r1) + length reqs \<le> 2 ^ 64" using Cons.prems(4) by simp
    with Cons.IH[of ?r1] Cons.prems obtain i' where
      "serve rr_Balance reqs ?r1 =
        Inr (map (\<lambda>j. Inr (rr_hosts r ! ((unat (rr_idx r) + 1 + j) mod ?n))) [0..<length reqs], r\<lparr>rr_idx := i'\<rparr>)"
      by (auto simp: u)
    moreover have "[0..<length (q # reqs)] = 0 # map Suc [0..<length reqs]"
      by (simp add: map_Suc_upt upt_conv_Cons del: upt_Suc)
    ultimately show ?thesis using step q
      by (intro exI[of _ i']) (simp add: o_def del: upt_Suc)
  qed
qed

lemma rotate_window:
  "map (\<lambda>j. xs ! ((i + j) mod length xs)) [0..<length xs] = rotate i xs"
  by (rule nth_equalityI) (simp_all add: nth_rotate)

lemma periodic_window:
  "count_list (map (\<lambda>j. xs ! ((i + j) mod length xs)) [0..<k * length xs]) h = k * count_list xs h"
proof (induction k)
  case (Suc k)
  let ?f = "\<lambda>j. xs ! ((i + j) mod length xs)"
  have "[0..<Suc k * length xs] = [0..<k * length xs] @ map (\<lambda>j. j + k * length xs) [0..<length xs]"
    using upt_add_eq_append[of 0 "k * length xs" "length xs"]
    by (simp add: add.commute map_add_upt)
  moreover have "?f (j + k * length xs) = ?f j" for j
    by (metis add.assoc mod_mult_self1)
  ultimately have "map ?f [0..<Suc k * length xs] = map ?f [0..<k * length xs] @ rotate i xs"
    using rotate_window[of xs i] by (simp add: o_def)
  moreover have "count_list (rotate i xs) h = count_list xs h"
    by (metis rotate_drop_take count_list_append add.commute append_take_drop_id)
  ultimately show ?case using Suc by simp
qed simp

lemma count_list_distinct: "distinct xs \<Longrightarrow> h \<in> set xs \<Longrightarrow> count_list xs h = 1"
  by (induction xs) auto

text \<open>
  C26: from any state of the counter, a whole number of rounds gives every host the same number of
  requests, as long as the 64-bit counter does not wrap on the way.
\<close>

theorem round_robin_is_fair:
  assumes "rr_inv r" "rr_hosts r \<noteq> []" "length reqs = k * length (rr_hosts r)"
    "unat (rr_idx r) + length reqs \<le> 2 ^ 64"
  shows "\<exists>hs r'. serve rr_Balance reqs r = Inr (map Inr hs, r') \<and>
    (\<forall>h \<in> rr_live r. count_list hs h = k) \<and> rr_hosts r' = rr_hosts r"
proof -
  let ?hs = "map (\<lambda>j. rr_hosts r ! ((unat (rr_idx r) + j) mod length (rr_hosts r))) [0..<length reqs]"
  from serve_rr[of r reqs] assms obtain i' where
    "serve rr_Balance reqs r = Inr (map Inr ?hs, r\<lparr>rr_idx := i'\<rparr>)"
    by (auto simp: rr_inv_def o_def)
  moreover have "count_list ?hs h = k" if "h \<in> rr_live r" for h
    using that assms(1,3) periodic_window[of "rr_hosts r" "unat (rr_idx r)" k h]
    by (simp add: rr_live_def rr_inv_def count_list_distinct)
  ultimately show ?thesis by (intro exI[of _ ?hs] exI[of _ "r\<lparr>rr_idx := i'\<rparr>"]) simp
qed

theorem round_robin_is_fair_witness:
  "\<exists>hs r'. serve rr_Balance (replicate 6 (''/x'', None)) (NewRoundRobin [''a:1'', ''b:2'', ''c:3'']) =
      Inr (map Inr hs, r') \<and>
    (\<forall>h \<in> rr_live (NewRoundRobin [''a:1'', ''b:2'', ''c:3'']). count_list hs h = 2) \<and>
    rr_hosts r' = rr_hosts (NewRoundRobin [''a:1'', ''b:2'', ''c:3''])"
  by (rule round_robin_is_fair) (simp_all add: NewRoundRobin_def rr_inv_def)

text \<open>
  an edit takes effect at once and keeps the balancer sound: after removing a host no
  request is sent to it, however many follow, and all of them are answered while a host is left.
\<close>

theorem round_robin_removed_host_unused:
  assumes "rr_inv r" "h \<in> rr_live r" "rr_live r \<noteq> {h}"
  shows "\<exists>r1 hs r2. rr_Remove h r = Inr r1 \<and> serve rr_Balance reqs r1 = Inr (map Inr hs, r2) \<and>
    length hs = length reqs \<and> set hs \<subseteq> rr_live r - {h} \<and> rr_inv r2"
proof -
  from rr.remove_live[OF assms(1) TrueI assms(2)] obtain r1 where
    r1: "rr_Remove h r = Inr r1" "rr_live r1 = rr_live r - {h}" "rr_inv r1" by blast
  then have "rr_live r1 \<noteq> {}" using assms(2,3) by blast
  from rr.serve_live[OF r1(3) this, of reqs] r1 show ?thesis by auto
qed

theorem round_robin_removed_host_unused_witness:
  "\<exists>r1 hs r2. rr_Remove ''b:2'' (NewRoundRobin [''a:1'', ''b:2'', ''c:3'']) = Inr r1 \<and>
    serve rr_Balance [(''/x'', None), (''/y'', None)] r1 = Inr (map Inr hs, r2) \<and>
    length hs = length [(''/x'', None :: request option), (''/y'', None)] \<and>
    set hs \<subseteq> rr_live (NewRoundRobin [''a:1'', ''b:2'', ''c:3'']) - {''b:2''} \<and> rr_inv r2"
  by (rule round_robin_removed_host_unused)
     (auto simp: NewRoundRobin_def rr_inv_def rr_live_def)

end
