(* ===== verification/ConsistHash.thy ===== *)
theory ConsistHash
  imports Balancer
begin

text \<open>
  \<open>src/balancer/consist-hash.go\<close>: hosts are put on a ring of 32-bit points, three per host,
  and a request goes to the host of the first point at or after its own hash. The hash function
  is a field, as in the code; \<open>NewConsistenceHash\<close> sets it to the IEEE CRC-32 of Go's
  \<open>hash/crc32\<close>. \<open>sort.Search\<close> is Go's binary search.

  \<open>Balance\<close> defers the call \<open>c.RLocker()\<close>, which only returns a locker: the read lock
  is never given back.
\<close>

section \<open>crc32.ChecksumIEEE and sort.Search\<close>

definition crc_bit :: "32 word \<Rightarrow> 32 word" where
  "crc_bit c = (if bit c 0 then drop_bit 1 c XOR 0xEDB88320 else drop_bit 1 c)"

definition crc_byte :: "32 word \<Rightarrow> char \<Rightarrow> 32 word" where
  "crc_byte crc b =
     crc_bit (crc_bit (crc_bit (crc_bit (crc_bit (crc_bit (crc_bit (crc_bit (crc XOR of_char b))))))))"

definition ChecksumIEEE :: "string \<Rightarrow> 32 word" where
  "ChecksumIEEE s = NOT (foldl crc_byte 0xFFFFFFFF s)"

lemma ChecksumIEEE_check: "ChecksumIEEE ''123456789'' = 0xCBF43926"
  by code_simp

function sort_Search_loop :: "(nat \<Rightarrow> bool) \<Rightarrow> nat \<Rightarrow> nat \<Rightarrow> nat" where
  "sort_Search_loop f i j =
     (if i < j then
        (let h = (i + j) div 2 in
         if \<not> f h then sort_Search_loop f (h + 1) j else sort_Search_loop f i h)
      else i)"
  by pat_completeness auto
termination by (relation "measure (\<lambda>(f, i, j). j - i)") auto

declare sort_Search_loop.simps [simp del]

definition sort_Search :: "nat \<Rightarrow> (nat \<Rightarrow> bool) \<Rightarrow> nat" where
  "sort_Search n f = sort_Search_loop f 0 n"

definition SearchInts :: "int list \<Rightarrow> int \<Rightarrow> nat" where
  "SearchInts keys x = sort_Search (length keys) (\<lambda>i. keys ! i \<ge> x)"

lemma sort_Search_loop_correct:
  assumes "\<And>a b. a \<le> b \<Longrightarrow> b < n \<Longrightarrow> f a \<Longrightarrow> f b"
    and "i \<le> j" "j \<le> n" "\<And>m. m < i \<Longrightarrow> \<not> f m" "\<And>m. j \<le> m \<Longrightarrow> m < n \<Longrightarrow> f m"
  shows "sort_Search_loop f i j \<le> n \<and> (\<forall>m < sort_Search_loop f i j. \<not> f m) \<and>
    (\<forall>m. sort_Search_loop f i j \<le> m \<longrightarrow> m < n \<longrightarrow> f m)"
  using assms
proof (induction f i j rule: sort_Search_loop.induct)
  case (1 f i j)
  let ?h = "(i + j) div 2"
  show ?case
  proof (cases "i < j")
    case True
    then have h: "i \<le> ?h" "?h < j" by auto
    show ?thesis
    proof (cases "f ?h")
      case True
      then have "\<And>m. ?h \<le> m \<Longrightarrow> m < n \<Longrightarrow> f m" using "1.prems"(1) by blast
      with "1.IH"(2)[OF \<open>i < j\<close> refl] True h "1.prems" \<open>i < j\<close> show ?thesis
        by (subst (1 2 3) sort_Search_loop.simps) (simp add: Let_def)
    next
      case False
      have "?h < n" using h "1.prems"(3) by simp
      then have "\<And>m. m < ?h + 1 \<Longrightarrow> \<not> f m"
        using "1.prems"(1)[of _ ?h] False by (metis less_Suc_eq_le Suc_eq_plus1)
      with "1.IH"(1)[OF \<open>i < j\<close> refl] False h "1.prems" \<open>i < j\<close> show ?thesis
        by (subst (1 2 3) sort_Search_loop.simps) (simp add: Let_def)
    qed
  next
    case False
    with "1.prems" show ?thesis by (subst (1 2 3) sort_Search_loop.simps) simp
  qed
qed

lemma SearchInts_takeWhile:
  assumes "sorted keys"
  shows "SearchInts keys x = length (takeWhile (\<lambda>k. k < x) keys)"
proof -
  let ?f = "\<lambda>i. keys ! i \<ge> x" and ?r = "SearchInts keys x"
  have "?f b" if "a \<le> b" "b < length keys" "?f a" for a b
    using that assms sorted_nth_mono by fastforce
  from sort_Search_loop_correct[of "length keys" ?f 0 "length keys", OF this]
  have r: "?r \<le> length keys" "\<forall>m < ?r. keys ! m < x" "\<forall>m. ?r \<le> m \<longrightarrow> m < length keys \<longrightarrow> x \<le> keys ! m"
    by (auto simp: SearchInts_def sort_Search_def not_le)
  have "takeWhile (\<lambda>k. k < x) keys = take ?r keys"
    by (rule takeWhile_eq_take_P_nth) (use r in auto)
  with r(1) show ?thesis by simp
qed

section \<open>The balancer\<close>

record ConsistenceHash =
  ch_mu :: RWMutex
  ch_hash :: "string \<Rightarrow> 32 word"
  ch_replicas :: nat
  ch_keys :: "int list"
  ch_hosts :: "int \<Rightarrow> string option"
  ch_list :: "string list"

text \<open>\<open>int(c.hash([]byte(strconv.Itoa(i) + host)))\<close>.\<close>

definition ch_point :: "ConsistenceHash \<Rightarrow> string \<Rightarrow> nat \<Rightarrow> int" where
  "ch_point c host i = uint (ch_hash c (Itoa (int i) @ host))"

fun ch_put :: "string \<Rightarrow> nat list \<Rightarrow> ConsistenceHash \<Rightarrow> ConsistenceHash" where
  "ch_put host [] c = c"
| "ch_put host (i # is) c =
     (let hash = ch_point c host i
      in ch_put host is (c\<lparr>ch_keys := ch_keys c @ [hash], ch_hosts := (ch_hosts c)(hash \<mapsto> host)\<rparr>))"

definition ch_Add :: "string \<Rightarrow> ConsistenceHash \<Rightarrow> ConsistenceHash go" where
  "ch_Add host c =
     go_bind (mu_Lock (ch_mu c)) (\<lambda>m.
       let c1 = ch_put host [0..<ch_replicas c] c
       in Inr (c1\<lparr>ch_keys := sort (ch_keys c1), ch_mu := mu_Unlock m\<rparr>))"

definition ch_empty :: "(string \<Rightarrow> 32 word) \<Rightarrow> ConsistenceHash" where
  "ch_empty hash =
     \<lparr>ch_mu = unlocked, ch_hash = hash, ch_replicas = 3, ch_keys = [], ch_hosts = (\<lambda>_. None), ch_list = []\<rparr>"

definition ch_init_host :: "string \<Rightarrow> ConsistenceHash \<Rightarrow> ConsistenceHash go" where
  "ch_init_host host c = go_bind (ch_Add host c) (\<lambda>c. Inr (c\<lparr>ch_list := ch_list c @ [host]\<rparr>))"

definition NewConsistenceHash :: "string list \<Rightarrow> ConsistenceHash go" where
  "NewConsistenceHash hosts = go_fold ch_init_host hosts (ch_empty ChecksumIEEE)"

text \<open>
  One round of the loop of \<open>Remove\<close>: the index found is cut out whether or not the point is
  there; past the end, \<open>c.keys[idx+1:]\<close> panics.
\<close>

definition ch_cut :: "string \<Rightarrow> nat \<Rightarrow> ConsistenceHash \<Rightarrow> ConsistenceHash go" where
  "ch_cut host i c =
     (let hash = ch_point c host i; idx = SearchInts (ch_keys c) hash
      in if idx + 1 > length (ch_keys c) then Inl SliceBounds
         else Inr (c\<lparr>ch_keys := take idx (ch_keys c) @ drop (idx + 1) (ch_keys c),
                     ch_hosts := (ch_hosts c)(hash := None)\<rparr>))"

definition ch_Remove :: "string \<Rightarrow> ConsistenceHash \<Rightarrow> ConsistenceHash go" where
  "ch_Remove host c =
     go_bind (mu_Lock (ch_mu c)) (\<lambda>m.
       go_bind (go_fold (ch_cut host) [0..<ch_replicas c] c) (\<lambda>c1.
         Inr (c1\<lparr>ch_list := remove1 host (ch_list c1), ch_mu := mu_Unlock m\<rparr>)))"

text \<open>The text a request is hashed under; without a colon the slice bound is \<open>-1\<close>.\<close>

definition ch_request_key :: "string \<Rightarrow> request option \<Rightarrow> string go" where
  "ch_request_key url r =
     (case r of
        None \<Rightarrow> Inr url
      | Some q \<Rightarrow>
          (let ipWithPort = RemoteIp q; portIdx = LastIndex ipWithPort CHR '':''
           in if portIdx < 0 then Inl SliceBounds
              else Inr (take (nat portIdx) ipWithPort @ ''.'' @ hdr_Get q ''Authorization'')))"

definition ch_Balance :: "ConsistenceHash \<Rightarrow> string \<Rightarrow> request option \<Rightarrow> ConsistenceHash pick_result" where
  "ch_Balance c url r =
     go_bind (mu_RLock (ch_mu c)) (\<lambda>m.
       if length (ch_keys c) = 0 then Inr (Inl CantFindAnyHost, c\<lparr>ch_mu := m\<rparr>)
       else go_bind (ch_request_key url r) (\<lambda>url1.
         let hash = uint (ch_hash c url1);
             idx = sort_Search (length (ch_keys c)) (\<lambda>i. ch_keys c ! i \<ge> hash)
         in Inr (Inr (case ch_hosts c (ch_keys c ! (idx mod length (ch_keys c))) of None \<Rightarrow> '''' | Some h \<Rightarrow> h),
                 c\<lparr>ch_mu := m\<rparr>)))"

definition ch_Len :: "ConsistenceHash \<Rightarrow> nat" where "ch_Len c = card (dom (ch_hosts c))"
definition ch_Mode :: "ConsistenceHash \<Rightarrow> string" where "ch_Mode c = ''consistence-hash''"
definition ch_Hosts :: "ConsistenceHash \<Rightarrow> string list" where "ch_Hosts c = ch_list c"

end
