(* ===== verification/ConsistRing.thy ===== *)
theory ConsistRing
  imports ConsistHash "HOL-Library.Multiset"
begin

text \<open>
  What consistent hashing is for, proved of \<open>ConsistHash\<close>: the host chosen is that of the
  next point of the ring, adding a host moves requests only to the new host, removing one moves
  only its own requests. Then the balancer contract, and where the code leaves it: the read lock
  that is never released, a host added twice, the removal of an absent host.
\<close>

section \<open>The ring\<close>

text \<open>The first point at or after \<open>x\<close>, the smallest point when there is none.\<close>

definition ring_next :: "int set \<Rightarrow> int \<Rightarrow> int" where
  "ring_next S x = (if {k \<in> S. x \<le> k} = {} then Min S else Min {k \<in> S. x \<le> k})"

lemma ring_next_in: "finite S \<Longrightarrow> S \<noteq> {} \<Longrightarrow> ring_next S x \<in> S"
  unfolding ring_next_def using Min_in[of S] Min_in[of "{k \<in> S. x \<le> k}"] by auto

lemma ring_next_Un:
  assumes "finite S" "finite T" "S \<noteq> {}"
  shows "ring_next (S \<union> T) x = ring_next S x \<or> ring_next (S \<union> T) x \<in> T"
proof (cases "{k \<in> S \<union> T. x \<le> k} = {}")
  case True
  then have "ring_next (S \<union> T) x = Min (S \<union> T)" "ring_next S x = Min S"
    by (auto simp: ring_next_def)
  moreover have "Min (S \<union> T) = Min S \<or> Min (S \<union> T) \<in> T"
    using assms Min_in[of "S \<union> T"] by (metis Min_eqI Min_le UnE Un_iff finite_UnI sup_eq_bot_iff)
  ultimately show ?thesis by simp
next
  case False
  let ?m = "Min {k \<in> S \<union> T. x \<le> k}"
  have m: "?m \<in> S \<union> T" "x \<le> ?m" "\<And>k. k \<in> S \<union> T \<Longrightarrow> x \<le> k \<Longrightarrow> ?m \<le> k"
    using False assms Min_in[of "{k \<in> S \<union> T. x \<le> k}"] by auto
  have n: "ring_next (S \<union> T) x = ?m"
    unfolding ring_next_def by (rule if_not_P[OF False])
  show ?thesis
  proof (cases "?m \<in> T")
    case False
    with m(1) have "?m \<in> S" by blast
    then have "Min {k \<in> S. x \<le> k} = ?m" using m assms(1) by (intro Min_eqI) auto
    moreover have "{k \<in> S. x \<le> k} \<noteq> {}" using \<open>?m \<in> S\<close> m(2) by blast
    ultimately have "ring_next S x = ?m" unfolding ring_next_def by (simp only: if_False)
    then show ?thesis using n by (simp only: simp_thms)
  qed (simp only: n simp_thms)
qed

lemma ring_next_sorted:
  assumes "sorted keys" "keys \<noteq> []"
  shows "keys ! (SearchInts keys x mod length keys) = ring_next (set keys) x"
proof -
  let ?P = "\<lambda>k. k < x"
  have split: "keys = takeWhile ?P keys @ dropWhile ?P keys" by simp
  show ?thesis
  proof (cases "dropWhile ?P keys")
    case Nil
    then have all: "\<forall>k \<in> set keys. k < x" by (simp add: dropWhile_eq_Nil_conv)
    then have "takeWhile ?P keys = keys" by (simp add: takeWhile_eq_all_conv)
    then have "SearchInts keys x = length keys"
      using SearchInts_takeWhile[OF assms(1), of x] by (simp only:)
    moreover have "Min (set keys) = keys ! 0"
      using assms by (cases keys) (auto intro!: Min_eqI)
    moreover have "{k \<in> set keys. x \<le> k} = {}" using all by auto
    ultimately show ?thesis by (simp add: ring_next_def)
  next
    case (Cons k ks)
    let ?n = "length (takeWhile ?P keys)"
    from split Cons have keys: "keys = takeWhile ?P keys @ k # ks" by simp
    have n: "?n < length keys" "keys ! ?n = k"
      by (subst (2) keys, simp) (metis keys nth_append_length)
    have "x \<le> k" using Cons hd_dropWhile[of ?P keys] by auto
    have le: "k \<le> k'" if "k' \<in> set keys" "x \<le> k'" for k'
    proof -
      from that have "k' \<in> set (k # ks)"
        using keys set_takeWhileD[of k' ?P keys] by (metis Un_iff leD set_append)
      moreover have "sorted (k # ks)" using assms(1) keys sorted_append by metis
      ultimately show ?thesis by auto
    qed
    have "k \<in> set keys" using keys by (metis in_set_conv_decomp)
    with \<open>x \<le> k\<close> le have "Min {k \<in> set keys. x \<le> k} = k" by (intro Min_eqI) auto
    moreover have "{k \<in> set keys. x \<le> k} \<noteq> {}" using \<open>k \<in> set keys\<close> \<open>x \<le> k\<close> by blast
    ultimately have "ring_next (set keys) x = k" unfolding ring_next_def by (simp only: if_False)
    then show ?thesis
      using n SearchInts_takeWhile[OF assms(1), of x] by simp
  qed
qed

section \<open>Choosing a host\<close>

definition ch_points :: "ConsistenceHash \<Rightarrow> string \<Rightarrow> int set" where
  "ch_points c h = ch_point c h ` {..<ch_replicas c}"

text \<open>
  The host of a request hashed under \<open>url\<close>, as a function of the ring. It is what
  \<open>Balance\<close> answers.
\<close>

definition ch_target :: "ConsistenceHash \<Rightarrow> string \<Rightarrow> string" where
  "ch_target c url =
     (case ch_hosts c (ring_next (set (ch_keys c)) (uint (ch_hash c url))) of None \<Rightarrow> '''' | Some h \<Rightarrow> h)"

lemma ch_Balance_target:
  assumes "\<not> w_held (ch_mu c)" "sorted (ch_keys c)" "ch_keys c \<noteq> []" "ch_request_key url r = Inr k"
  shows "ch_Balance c url r =
    Inr (Inr (ch_target c k), c\<lparr>ch_mu := (ch_mu c)\<lparr>r_count := r_count (ch_mu c) + 1\<rparr>\<rparr>)"
  using assms ring_next_sorted[OF assms(2,3), of "uint (ch_hash c k)"]
  by (simp add: ch_Balance_def mu_RLock_def ch_target_def SearchInts_def)

lemma ch_request_key_returns:
  assumes "case r of None \<Rightarrow> True | Some q \<Rightarrow> CHR '':'' \<in> set (RemoteIp q)"
  shows "\<exists>k. ch_request_key url r = Inr k"
proof (cases r)
  case (Some q)
  with assms obtain y z where "RemoteIp q = y @ CHR '':'' # z" "CHR '':'' \<notin> set z"
    by (auto dest: split_list_last)
  then have "\<not> LastIndex (RemoteIp q) CHR '':'' < 0" by (simp add: LastIndex_append)
  with Some show ?thesis by (simp add: ch_request_key_def Let_def)
qed (simp add: ch_request_key_def)

section \<open>Invariant\<close>

text \<open>
  The points in \<open>keys\<close> are exactly the points of the hosts in \<open>hosts\<close>, sorted, without a
  collision, and nobody holds the write lock.
\<close>

definition ch_live :: "ConsistenceHash \<Rightarrow> string set" where
  "ch_live c = ran (ch_hosts c)"

definition ch_inv :: "ConsistenceHash \<Rightarrow> bool" where
  "ch_inv c \<longleftrightarrow>
     \<not> w_held (ch_mu c) \<and> sorted (ch_keys c) \<and> distinct (ch_keys c) \<and> set (ch_keys c) = dom (ch_hosts c) \<and>
     (\<forall>k h. ch_hosts c k = Some h \<longrightarrow> k \<in> ch_points c h) \<and>
     (\<forall>h \<in> ch_live c. inj_on (ch_point c h) {..<ch_replicas c} \<and> (\<forall>k \<in> ch_points c h. ch_hosts c k = Some h))"

text \<open>A host whose points are distinct and collide with none on the ring.\<close>

definition ch_fits :: "string \<Rightarrow> ConsistenceHash \<Rightarrow> bool" where
  "ch_fits h c \<longleftrightarrow> 0 < ch_replicas c \<and> inj_on (ch_point c h) {..<ch_replicas c} \<and>
     ch_points c h \<inter> set (ch_keys c) = {}"

definition ch_request_ok :: "request option \<Rightarrow> bool" where
  "ch_request_ok r \<longleftrightarrow> (case r of None \<Rightarrow> True | Some q \<Rightarrow> CHR '':'' \<in> set (RemoteIp q))"

lemma ch_point_cong [simp]:
  "ch_point (c\<lparr>ch_keys := x\<rparr>) = ch_point c" "ch_point (c\<lparr>ch_hosts := y\<rparr>) = ch_point c"
  "ch_point (c\<lparr>ch_mu := m\<rparr>) = ch_point c" "ch_point (c\<lparr>ch_list := l\<rparr>) = ch_point c"
  by (simp_all add: ch_point_def fun_eq_iff)

lemma ch_points_cong [simp]:
  "ch_points (c\<lparr>ch_keys := x\<rparr>) = ch_points c" "ch_points (c\<lparr>ch_hosts := y\<rparr>) = ch_points c"
  "ch_points (c\<lparr>ch_mu := m\<rparr>) = ch_points c" "ch_points (c\<lparr>ch_list := l\<rparr>) = ch_points c"
  by (simp_all add: ch_points_def fun_eq_iff)

lemma ch_live_cong [simp]:
  "ch_live (c\<lparr>ch_keys := x\<rparr>) = ch_live c" "ch_live (c\<lparr>ch_mu := m\<rparr>) = ch_live c"
  "ch_live (c\<lparr>ch_list := l\<rparr>) = ch_live c"
  by (simp_all add: ch_live_def)

lemma ch_invI:
  assumes "\<not> w_held (ch_mu c)" "sorted (ch_keys c)" "distinct (ch_keys c)" "set (ch_keys c) = dom (ch_hosts c)"
    "\<And>h. h \<in> ch_live c \<Longrightarrow> inj_on (ch_point c h) {..<ch_replicas c}"
    "\<And>h k. h \<in> ch_live c \<Longrightarrow> k \<in> ch_points c h \<Longrightarrow> ch_hosts c k = Some h"
    "\<And>k h. ch_hosts c k = Some h \<Longrightarrow> k \<in> ch_points c h"
  shows "ch_inv c"
  unfolding ch_inv_def using assms by blast

lemma ch_invD:
  assumes "ch_inv c"
  shows "\<not> w_held (ch_mu c)" "sorted (ch_keys c)" "distinct (ch_keys c)" "set (ch_keys c) = dom (ch_hosts c)"
    "\<And>h. h \<in> ch_live c \<Longrightarrow> inj_on (ch_point c h) {..<ch_replicas c}"
    "\<And>h k. h \<in> ch_live c \<Longrightarrow> k \<in> ch_points c h \<Longrightarrow> ch_hosts c k = Some h"
    "\<And>k h. ch_hosts c k = Some h \<Longrightarrow> k \<in> ch_points c h"
  using assms unfolding ch_inv_def by blast+

lemma ch_target_live:
  assumes "set (ch_keys c) = dom (ch_hosts c)" "ch_live c \<noteq> {}"
  shows "ch_target c url \<in> ch_live c"
proof -
  have "set (ch_keys c) \<noteq> {}" using assms by (auto simp: ch_live_def ran_def dom_def)
  then have "ring_next (set (ch_keys c)) (uint (ch_hash c url)) \<in> dom (ch_hosts c)"
    using ring_next_in[OF finite_set, of "ch_keys c"] unfolding assms(1) by blast
  then show ?thesis by (auto simp: ch_target_def ch_live_def ran_def)
qed

section \<open>Add\<close>

lemma ch_put_fields:
  "ch_put h is c = c\<lparr>ch_keys := ch_keys c @ map (ch_point c h) is,
     ch_hosts := (\<lambda>k. if k \<in> ch_point c h ` set is then Some h else ch_hosts c k)\<rparr>"
proof (induction "is" arbitrary: c)
  case (Cons i "is")
  have "(\<lambda>k. if k \<in> ch_point c h ` set is then Some h else ((ch_hosts c)(ch_point c h i \<mapsto> h)) k) =
    (\<lambda>k. if k \<in> ch_point c h ` set (i # is) then Some h else ch_hosts c k)" by auto
  with Cons show ?case by (simp add: Let_def cong: if_cong)
qed simp

lemma ch_Add_fields:
  assumes "ch_mu c = unlocked"
  shows "ch_Add h c = Inr (c\<lparr>ch_keys := sort (ch_keys c @ map (ch_point c h) [0..<ch_replicas c]),
    ch_hosts := (\<lambda>k. if k \<in> ch_points c h then Some h else ch_hosts c k)\<rparr>)"
  using assms by (simp add: ch_Add_def ch_put_fields ch_points_def Let_def lessThan_atLeast0 cong: if_cong)

text \<open>Adding a host moves requests only to that host, whatever the hash function does.\<close>

lemma ch_Add_target:
  assumes "ch_mu c = unlocked" "ch_keys c \<noteq> []" "ch_Add h c = Inr c'"
  shows "ch_target c' url = ch_target c url \<or> ch_target c' url = h"
proof -
  from ch_Add_fields[OF assms(1), of h] assms(3) have c': "set (ch_keys c') = set (ch_keys c) \<union> ch_points c h"
    "ch_hash c' = ch_hash c" "ch_hosts c' = (\<lambda>k. if k \<in> ch_points c h then Some h else ch_hosts c k)"
    by (auto simp: ch_points_def)
  have "finite (ch_points c h)" by (simp add: ch_points_def)
  from ring_next_Un[OF _ this, of "set (ch_keys c)" "uint (ch_hash c url)"] assms(2)
  show ?thesis by (auto simp: ch_target_def c')
qed

lemma ch_live_put:
  assumes "\<And>k. k \<in> ch_points c h \<Longrightarrow> ch_hosts c k = None" "ch_points c h \<noteq> {}"
  shows "ch_live (c\<lparr>ch_keys := ks, ch_hosts := (\<lambda>k. if k \<in> ch_points c h then Some h else ch_hosts c k)\<rparr>) =
    insert h (ch_live c)"
proof (intro equalityI subsetI)
  fix x assume "x \<in> insert h (ch_live c)"
  then consider "x = h" | k where "ch_hosts c k = Some x" by (auto simp: ch_live_def ran_def)
  then show "x \<in> ch_live (c\<lparr>ch_keys := ks, ch_hosts := (\<lambda>k. if k \<in> ch_points c h then Some h else ch_hosts c k)\<rparr>)"
  proof cases
    case (2 k)
    with assms(1)[of k] have "k \<notin> ch_points c h" by auto
    with 2 show ?thesis by (auto simp: ch_live_def ran_def intro!: exI[of _ k])
  qed (use assms(2) in \<open>auto simp: ch_live_def ran_def\<close>)
qed (auto simp: ch_live_def ran_def split: if_splits)

lemma ch_Add_inv:
  assumes "ch_inv c" "ch_mu c = unlocked" "ch_fits h c"
  shows "\<exists>c'. ch_Add h c = Inr c' \<and> ch_live c' = insert h (ch_live c) \<and> ch_inv c' \<and> ch_mu c' = unlocked"
proof -
  let ?c = "c\<lparr>ch_keys := sort (ch_keys c @ map (ch_point c h) [0..<ch_replicas c]),
    ch_hosts := (\<lambda>k. if k \<in> ch_points c h then Some h else ch_hosts c k)\<rparr>"
  have fresh: "k \<in> ch_points c h \<Longrightarrow> ch_hosts c k = None" for k
    using assms(1,3) by (auto simp: ch_fits_def ch_inv_def)
  have ne: "ch_points c h \<noteq> {}" using assms(3) by (auto simp: ch_fits_def ch_points_def)
  have live: "ch_live ?c = insert h (ch_live c)" using ch_live_put[OF fresh ne] .
  have "h \<notin> ch_live c"
    using ch_invD(6)[OF assms(1)] fresh ne by fastforce
  then have new: "x \<in> ch_live c" if "x \<in> ch_live ?c" "x \<noteq> h" for x using that live by blast
  have disj: "k \<notin> ch_points c h" if "k \<in> ch_points c x" "x \<in> ch_live c" for k x
    using ch_invD(6)[OF assms(1) that(2,1)] fresh[of k] by auto
  have "ch_inv ?c"
  proof (rule ch_invI)
    show "distinct (ch_keys ?c)"
      using assms(3) ch_invD(3)[OF assms(1)]
      by (auto simp: ch_fits_def distinct_map ch_points_def lessThan_atLeast0)
    show "set (ch_keys ?c) = dom (ch_hosts ?c)"
      using ch_invD(4)[OF assms(1)] by (auto simp: ch_points_def split: if_splits)
    fix x assume x: "x \<in> ch_live ?c"
    show "inj_on (ch_point ?c x) {..<ch_replicas ?c}"
      using ch_invD(5)[OF assms(1) new[OF x]] assms(3) by (cases "x = h") (auto simp: ch_fits_def)
    fix k assume k: "k \<in> ch_points ?c x"
    show "ch_hosts ?c k = Some x"
      using k ch_invD(6)[OF assms(1) new[OF x]] disj[OF _ new[OF x]] by (cases "x = h") auto
  qed (use assms(2) ch_invD(7)[OF assms(1)] in \<open>auto simp: unlocked_def split: if_splits\<close>)
  with live show ?thesis using ch_Add_fields[OF assms(2), of h] assms(2) by auto
qed

section \<open>Remove\<close>

lemma cut_found:
  assumes "sorted ks" "x \<in> set ks"
  shows "SearchInts ks x + 1 \<le> length ks \<and>
    take (SearchInts ks x) ks @ drop (SearchInts ks x + 1) ks = remove1 x ks"
proof -
  let ?a = "takeWhile (\<lambda>k. k < x) ks"
  have "x \<notin> set ?a" using set_takeWhileD by fastforce
  then have "x \<in> set (dropWhile (\<lambda>k. k < x) ks)"
    using assms(2) takeWhile_dropWhile_id[of "\<lambda>k. k < x" ks] by (metis Un_iff set_append)
  then obtain y b where b: "dropWhile (\<lambda>k. k < x) ks = y # b"
    by (metis list.set_cases)
  then have "x \<le> y" using hd_dropWhile[of "\<lambda>k. k < x" ks] by auto
  have ks: "ks = ?a @ y # b" using b takeWhile_dropWhile_id by metis
  then have "sorted (y # b)" using assms(1) sorted_append by metis
  with b \<open>x \<in> set (dropWhile _ ks)\<close> \<open>x \<le> y\<close> have "y = x" by fastforce
  have n: "SearchInts ks x = length ?a" by (rule SearchInts_takeWhile[OF assms(1)])
  have "take (length ?a) ks = ?a" "drop (length ?a + 1) ks = b"
    by (subst (2) ks, simp)+
  moreover have "remove1 x (?a @ x # b) = ?a @ b"
    using \<open>x \<notin> set ?a\<close> by (simp add: remove1_append)
  then have "remove1 x ks = ?a @ b" using ks \<open>y = x\<close> by metis
  moreover have "length ?a + 1 \<le> length ks"
    using arg_cong[OF ks, of length] by simp
  ultimately show ?thesis by (simp only: n)
qed

text \<open>A round of the loop that finds its point, in a ring that may hold it more than once.\<close>

lemma ch_cut_one:
  assumes "sorted (ch_keys c)" "ch_point c h i \<in> set (ch_keys c)"
  shows "ch_cut h i c = Inr (c\<lparr>ch_keys := remove1 (ch_point c h i) (ch_keys c),
    ch_hosts := (ch_hosts c)(ch_point c h i := None)\<rparr>)"
proof -
  from cut_found[OF assms] have cut: "\<not> SearchInts (ch_keys c) (ch_point c h i) + 1 > length (ch_keys c)"
    "take (SearchInts (ch_keys c) (ch_point c h i)) (ch_keys c) @
      drop (SearchInts (ch_keys c) (ch_point c h i) + 1) (ch_keys c) =
      remove1 (ch_point c h i) (ch_keys c)" by (simp_all only: not_less simp_thms)
  show ?thesis unfolding ch_cut_def Let_def cut(2) if_not_P[OF cut(1)] ..
qed

lemma ch_cut_present:
  assumes "sorted (ch_keys c)" "distinct (ch_keys c)" "ch_point c h i \<in> set (ch_keys c)"
  shows "ch_cut h i c = Inr (c\<lparr>ch_keys := filter (\<lambda>k. k \<noteq> ch_point c h i) (ch_keys c),
    ch_hosts := (ch_hosts c)(ch_point c h i := None)\<rparr>)"
  using ch_cut_one[OF assms(1,3)] distinct_remove1_filter[OF assms(2)] by simp

lemma ch_cut_loop:
  assumes "ch_inv c" "h \<in> ch_live c" "m \<le> ch_replicas c"
  shows "go_fold (ch_cut h) [0..<m] c = Inr (c\<lparr>
    ch_keys := filter (\<lambda>k. k \<notin> ch_point c h ` {..<m}) (ch_keys c),
    ch_hosts := (\<lambda>k. if k \<in> ch_point c h ` {..<m} then None else ch_hosts c k)\<rparr>)"
  using assms(3)
proof (induction m)
  case 0
  then show ?case by simp
next
  case (Suc m)
  let ?S = "ch_point c h ` {..<m}" and ?x = "ch_point c h m"
  let ?ks = "filter (\<lambda>k. k \<notin> ?S) (ch_keys c)"
  have "?x \<in> ch_points c h" using Suc.prems by (simp add: ch_points_def)
  then have "?x \<in> set (ch_keys c)"
    using ch_invD(4,6)[OF assms(1)] assms(2) by auto
  moreover have "?x \<notin> ?S"
    using inj_onD[OF ch_invD(5)[OF assms(1,2)]] Suc.prems by fastforce
  ultimately have "?x \<in> set ?ks" by simp
  moreover have "sorted ?ks" "distinct ?ks"
    using ch_invD(2,3)[OF assms(1)] by (simp_all add: sorted_wrt_filter)
  ultimately have ok: "sorted ?ks" "distinct ?ks" "?x \<in> set ?ks" by blast+
  have set: "ch_point c h ` {..<Suc m} = insert ?x ?S" by (simp add: lessThan_Suc)
  have hosts: "(\<lambda>k. if k \<in> ?S then None else ch_hosts c k)(?x := None) =
      (\<lambda>k. if k \<in> insert ?x ?S then None else ch_hosts c k)" by auto
  have keys: "filter (\<lambda>k. k \<noteq> ?x) ?ks = filter (\<lambda>k. k \<notin> insert ?x ?S) (ch_keys c)"
    by (simp only: filter_filter) (rule filter_cong, auto)
  let ?c = "c\<lparr>ch_keys := ?ks, ch_hosts := (\<lambda>k. if k \<in> ?S then None else ch_hosts c k)\<rparr>"
  have "ch_cut h m ?c = Inr (?c\<lparr>ch_keys := filter (\<lambda>k. k \<noteq> ?x) ?ks, ch_hosts := (ch_hosts ?c)(?x := None)\<rparr>)"
    using ch_cut_present[of ?c h m] ok by simp
  also have "\<dots> = Inr (c\<lparr>ch_keys := filter (\<lambda>k. k \<notin> insert ?x ?S) (ch_keys c),
      ch_hosts := (\<lambda>k. if k \<in> insert ?x ?S then None else ch_hosts c k)\<rparr>)"
    unfolding keys hosts[symmetric] by simp
  finally show ?case using Suc by (simp add: go_fold_append set del: insert_iff)
qed

lemma ch_Remove_fields:
  assumes "ch_inv c" "ch_mu c = unlocked" "h \<in> ch_live c"
  shows "ch_Remove h c = Inr (c\<lparr>
    ch_keys := filter (\<lambda>k. k \<notin> ch_points c h) (ch_keys c),
    ch_hosts := (\<lambda>k. if k \<in> ch_points c h then None else ch_hosts c k),
    ch_list := remove1 h (ch_list c)\<rparr>)"
  using ch_cut_loop[OF assms(1,3) order_refl] assms(2)
  by (simp add: ch_Remove_def ch_points_def)

text \<open>Removing a host moves only its own requests.\<close>

lemma ch_Remove_target:
  assumes "ch_inv c" "ch_mu c = unlocked" "h \<in> ch_live c" "ch_Remove h c = Inr c'"
    "ch_target c url \<noteq> h" "ch_live c \<noteq> {h}"
  shows "ch_target c' url = ch_target c url"
proof -
  let ?P = "ch_points c h" and ?S = "set (ch_keys c)" and ?x = "uint (ch_hash c url)"
  from ch_Remove_fields[OF assms(1-3)] assms(4) have c': "set (ch_keys c') = ?S - ?P"
    "ch_hash c' = ch_hash c" "ch_hosts c' = (\<lambda>k. if k \<in> ?P then None else ch_hosts c k)" by auto
  have P: "k \<in> ?P \<longleftrightarrow> ch_hosts c k = Some h" for k
    using ch_invD(6,7)[OF assms(1)] assms(3) by blast
  from assms(3,6) obtain k g where "ch_hosts c k = Some g" "g \<noteq> h" by (auto simp: ch_live_def ran_def)
  with P have "?S - ?P \<noteq> {}" using ch_invD(4)[OF assms(1)] by fastforce
  moreover have "?P \<subseteq> ?S" using P ch_invD(4)[OF assms(1)] by auto
  then have "?S = (?S - ?P) \<union> ?P" by blast
  moreover have "finite ?P" by (simp add: ch_points_def)
  ultimately have "ring_next ?S ?x = ring_next (?S - ?P) ?x \<or> ring_next ?S ?x \<in> ?P"
    using ring_next_Un[of "?S - ?P" ?P ?x] by (metis finite_Diff finite_set)
  moreover have "ring_next ?S ?x \<notin> ?P" using assms(5) P by (auto simp: ch_target_def)
  ultimately show ?thesis by (simp add: ch_target_def c')
qed

lemma ch_Remove_inv:
  assumes "ch_inv c" "ch_mu c = unlocked" "h \<in> ch_live c"
  shows "\<exists>c'. ch_Remove h c = Inr c' \<and> ch_live c' = ch_live c - {h} \<and> ch_inv c' \<and> ch_mu c' = unlocked"
proof -
  let ?c = "c\<lparr>ch_keys := filter (\<lambda>k. k \<notin> ch_points c h) (ch_keys c),
    ch_hosts := (\<lambda>k. if k \<in> ch_points c h then None else ch_hosts c k),
    ch_list := remove1 h (ch_list c)\<rparr>"
  have P: "k \<in> ch_points c h \<longleftrightarrow> ch_hosts c k = Some h" for k
    using ch_invD(6,7)[OF assms(1)] assms(3) by blast
  have live: "ch_live ?c = ch_live c - {h}"
  proof (intro equalityI subsetI)
    fix x assume "x \<in> ch_live c - {h}"
    then obtain k where "ch_hosts c k = Some x" "x \<noteq> h" by (auto simp: ch_live_def ran_def)
    then have "ch_hosts ?c k = Some x" using P by simp
    then show "x \<in> ch_live ?c" unfolding ch_live_def by (rule ranI)
  qed (use P in \<open>auto simp: ch_live_def ran_def split: if_splits\<close>)
  have "ch_inv ?c"
  proof (rule ch_invI)
    show "set (ch_keys ?c) = dom (ch_hosts ?c)"
      using ch_invD(4)[OF assms(1)] by (auto split: if_splits)
    fix x assume "x \<in> ch_live ?c"
    with live have x: "x \<in> ch_live c" "x \<noteq> h" by auto
    then show "inj_on (ch_point ?c x) {..<ch_replicas ?c}" using ch_invD(5)[OF assms(1)] by simp
    fix k assume "k \<in> ch_points ?c x"
    then have "ch_hosts c k = Some x" using ch_invD(6)[OF assms(1) x(1)] by simp
    then show "ch_hosts ?c k = Some x" using P x(2) by simp
  qed (use ch_invD(1-3,7)[OF assms(1)] in \<open>auto simp: sorted_wrt_filter split: if_splits\<close>)
  with live show ?thesis using ch_Remove_fields[OF assms] assms(2) by auto
qed

section \<open>The contract\<close>

lemma ch_pick:
  assumes "ch_inv c" "ch_live c \<noteq> {}" "ch_request_key url r = Inr k"
  shows "ch_Balance c url r =
    Inr (Inr (ch_target c k), c\<lparr>ch_mu := (ch_mu c)\<lparr>r_count := r_count (ch_mu c) + 1\<rparr>\<rparr>)"
proof (rule ch_Balance_target)
  show "ch_keys c \<noteq> []"
    using ch_invD(4)[OF assms(1)] assms(2) by (auto simp: ch_live_def ran_def dom_def)
qed (use ch_invD(1,2)[OF assms(1)] assms(3) in auto)

lemma ch_inv_readers:
  assumes "ch_inv c" "\<not> w_held m"
  shows "ch_inv (c\<lparr>ch_mu := m\<rparr>)"
proof (rule ch_invI)
  show "sorted (ch_keys (c\<lparr>ch_mu := m\<rparr>))" "distinct (ch_keys (c\<lparr>ch_mu := m\<rparr>))"
    "set (ch_keys (c\<lparr>ch_mu := m\<rparr>)) = dom (ch_hosts (c\<lparr>ch_mu := m\<rparr>))"
    using ch_invD(2-4)[OF assms(1)] by simp_all
  fix h assume "h \<in> ch_live (c\<lparr>ch_mu := m\<rparr>)"
  then have "h \<in> ch_live c" by simp
  from ch_invD(5)[OF assms(1) this] ch_invD(6)[OF assms(1) this]
  show "inj_on (ch_point (c\<lparr>ch_mu := m\<rparr>) h) {..<ch_replicas (c\<lparr>ch_mu := m\<rparr>)}"
    "\<And>k. k \<in> ch_points (c\<lparr>ch_mu := m\<rparr>) h \<Longrightarrow> ch_hosts (c\<lparr>ch_mu := m\<rparr>) k = Some h" by simp_all
qed (use assms ch_invD(7)[OF assms(1)] in simp_all)

interpretation ch: host_editor ch_Balance ch_live ch_inv ch_request_ok ch_Add ch_Remove
  "\<lambda>c. ch_mu c = unlocked" ch_fits
proof unfold_locales
  fix c :: ConsistenceHash and url r
  assume c: "ch_inv c" "ch_live c \<noteq> {}" "ch_request_ok r"
  from c(3) obtain k where k: "ch_request_key url r = Inr k"
    using ch_request_key_returns unfolding ch_request_ok_def by blast
  have "ch_target c k \<in> ch_live c" by (rule ch_target_live[OF ch_invD(4)[OF c(1)] c(2)])
  moreover have "ch_inv (c\<lparr>ch_mu := (ch_mu c)\<lparr>r_count := r_count (ch_mu c) + 1\<rparr>\<rparr>)"
    by (rule ch_inv_readers) (use c(1) ch_invD(1)[OF c(1)] in simp_all)
  ultimately show "\<exists>h b'. ch_Balance c url r = Inr (Inr h, b') \<and> h \<in> ch_live c \<and> ch_live b' = ch_live c \<and> ch_inv b'"
    unfolding ch_pick[OF c(1,2) k] by simp
next
  fix c :: ConsistenceHash and url r
  assume c: "ch_inv c" "ch_live c = {}"
  have "ch_hosts c k = None" for k
    using c(2) by (cases "ch_hosts c k") (auto simp: ch_live_def ran_def)
  then have "ch_hosts c = (\<lambda>_. None)" by (simp add: fun_eq_iff)
  then have "ch_keys c = []" using ch_invD(4)[OF c(1)] by simp
  with c show "\<exists>e b'. ch_Balance c url r = Inr (Inl e, b') \<and> ch_live b' = {} \<and> ch_inv b'"
    by (auto simp: ch_Balance_def mu_RLock_def ch_inv_def)
qed (use ch_Add_inv ch_Remove_inv in blast)+

section \<open>Claims\<close>

text \<open>
  C27: consistent hashing, addition: for every hash function and every request, the answer after a
  host was added is the answer before or the new host.
\<close>

theorem consistent_hash_add_is_monotone:
  assumes "ch_inv c" "ch_mu c = unlocked" "ch_live c \<noteq> {}" "ch_request_ok r"
  shows "\<exists>c' g c1 g' c2. ch_Add h c = Inr c' \<and> ch_Balance c url r = Inr (Inr g, c1) \<and>
    ch_Balance c' url r = Inr (Inr g', c2) \<and> (g' = g \<or> g' = h)"
proof -
  from assms(4) obtain k where k: "ch_request_key url r = Inr k"
    using ch_request_key_returns unfolding ch_request_ok_def by blast
  have ne: "ch_keys c \<noteq> []"
    using ch_invD(4)[OF assms(1)] assms(3) by (auto simp: ch_live_def ran_def dom_def)
  obtain c' where c': "ch_Add h c = Inr c'" "sorted (ch_keys c')" "ch_keys c' \<noteq> []" "\<not> w_held (ch_mu c')"
    using ch_Add_fields[OF assms(2), of h] ne assms(2)
    by (auto simp: unlocked_def simp flip: set_empty)
  from ch_Add_target[OF assms(2) ne c'(1), of k] ch_pick[OF assms(1,3) k]
    ch_Balance_target[OF c'(4,2,3) k] c'(1) show ?thesis by simp
qed

text \<open>
  C28: consistent hashing, removal: after a host was removed, every request that did not go to it
  still goes to the same host.
\<close>

theorem consistent_hash_remove_is_monotone:
  assumes "ch_inv c" "ch_mu c = unlocked" "h \<in> ch_live c" "ch_live c \<noteq> {h}" "ch_request_ok r"
  shows "\<exists>c' g c1 g' c2. ch_Remove h c = Inr c' \<and> ch_Balance c url r = Inr (Inr g, c1) \<and>
    ch_Balance c' url r = Inr (Inr g', c2) \<and> (g \<noteq> h \<longrightarrow> g' = g) \<and> g' \<in> ch_live c - {h}"
proof -
  from assms(5) obtain k where k: "ch_request_key url r = Inr k"
    using ch_request_key_returns unfolding ch_request_ok_def by blast
  from ch.remove_live[OF assms(1-3)] obtain c' where
    c': "ch_Remove h c = Inr c'" "ch_live c' = ch_live c - {h}" "ch_inv c'" by blast
  have ne: "ch_live c \<noteq> {}" "ch_live c' \<noteq> {}" using assms(3,4) c'(2) by blast+
  have "ch_target c' k \<in> ch_live c - {h}"
    using ch_target_live[OF ch_invD(4)[OF c'(3)] ne(2)] c'(2) by simp
  with ch_Remove_target[OF assms(1-3) c'(1) _ assms(4), of k] ch_pick[OF assms(1) ne(1) k]
    ch_pick[OF c'(3) ne(2) k] c'(1) show ?thesis by simp
qed

text \<open>
  \<open>Balance\<close> never gives the read lock back: after one request, adding or removing a host
  waits for ever.
\<close>

theorem consistent_hash_lock_leak:
  assumes "ch_inv c" "ch_request_ok r"
  shows "\<exists>g c'. ch_Balance c url r = Inr (g, c') \<and> ch_Add h c' = Inl Deadlock \<and> ch_Remove h c' = Inl Deadlock"
proof -
  from assms(2) obtain k where k: "ch_request_key url r = Inr k"
    using ch_request_key_returns unfolding ch_request_ok_def by blast
  from ch_invD(1)[OF assms(1)] k show ?thesis
    by (auto simp: ch_Balance_def mu_RLock_def ch_Add_def ch_Remove_def mu_Lock_def)
qed

lemma ch_cut_many:
  assumes "sorted (ch_keys c)" "mset (map (ch_point c h) is) \<subseteq># mset (ch_keys c)"
  shows "\<exists>ks. go_fold (ch_cut h) is c = Inr (c\<lparr>ch_keys := ks,
      ch_hosts := (\<lambda>k. if k \<in> ch_point c h ` set is then None else ch_hosts c k)\<rparr>) \<and>
    sorted ks \<and> mset ks = mset (ch_keys c) - mset (map (ch_point c h) is)"
  using assms
proof (induction "is" arbitrary: c)
  case Nil
  show ?case by (rule exI[of _ "ch_keys c"]) (use Nil in simp)
next
  case (Cons i "is")
  let ?x = "ch_point c h i"
  let ?c1 = "c\<lparr>ch_keys := remove1 ?x (ch_keys c), ch_hosts := (ch_hosts c)(?x := None)\<rparr>"
  have x: "?x \<in># mset (ch_keys c)" using mset_subset_eqD[OF Cons.prems(2)] by simp
  then have cut: "ch_cut h i c = Inr ?c1"
    using ch_cut_one[OF Cons.prems(1)] by simp
  have "mset (map (ch_point ?c1 h) is) \<subseteq># mset (ch_keys ?c1)"
    using Cons.prems(2) by (simp add: insert_subset_eq_iff)
  with Cons.IH[of ?c1] Cons.prems(1) obtain ks where
    ks: "go_fold (ch_cut h) is ?c1 = Inr (?c1\<lparr>ch_keys := ks,
      ch_hosts := (\<lambda>k. if k \<in> ch_point ?c1 h ` set is then None else ch_hosts ?c1 k)\<rparr>)"
    "sorted ks" "mset ks = mset (ch_keys ?c1) - mset (map (ch_point ?c1 h) is)"
    by (auto simp: sorted_remove1)
  have "(\<lambda>k. if k \<in> ch_point c h ` set is then None else ((ch_hosts c)(?x := None)) k) =
    (\<lambda>k. if k \<in> ch_point c h ` set (i # is) then None else ch_hosts c k)" by auto
  with ks cut show ?case by (intro exI[of _ ks]) (simp cong: if_cong)
qed

text \<open>The ring after a host was added twice: every point of it is there twice.\<close>

lemma double_ring:
  "\<exists>c1 c2. ch_Add h (ch_empty hash) = Inr c1 \<and> ch_Add h c1 = Inr c2 \<and> ch_mu c2 = unlocked \<and> sorted (ch_keys c2) \<and>
    mset (ch_keys c2) = mset (map (ch_point (ch_empty hash) h) [0..<3]) + mset (map (ch_point (ch_empty hash) h) [0..<3]) \<and>
    ch_point c2 = ch_point (ch_empty hash) \<and> ch_replicas c2 = 3 \<and> dom (ch_hosts c2) \<subseteq> ch_points (ch_empty hash) h"
proof -
  let ?c0 = "ch_empty hash" and ?I = "[0..<3] :: nat list"
  have mu: "ch_mu ?c0 = unlocked" and r: "ch_replicas ?c0 = 3" by (simp_all add: ch_empty_def)
  obtain c1 where c1: "ch_Add h ?c0 = Inr c1" "ch_mu c1 = unlocked" "mset (ch_keys c1) = mset (map (ch_point ?c0 h) ?I)"
    "ch_point c1 = ch_point ?c0" "ch_replicas c1 = 3" "dom (ch_hosts c1) \<subseteq> ch_points ?c0 h"
  proof
    show "ch_Add h ?c0 = Inr (?c0\<lparr>ch_keys := sort (ch_keys ?c0 @ map (ch_point ?c0 h) ?I),
      ch_hosts := (\<lambda>k. if k \<in> ch_points ?c0 h then Some h else ch_hosts ?c0 k)\<rparr>)"
      using ch_Add_fields[OF mu, of h] by (simp only: r)
  qed (simp_all add: ch_empty_def ch_point_def fun_eq_iff dom_def)
  obtain c2 where c2: "ch_Add h c1 = Inr c2" "ch_mu c2 = unlocked" "sorted (ch_keys c2)"
    "mset (ch_keys c2) = mset (map (ch_point ?c0 h) ?I) + mset (map (ch_point ?c0 h) ?I)"
    "ch_point c2 = ch_point ?c0" "ch_replicas c2 = 3" "dom (ch_hosts c2) \<subseteq> ch_points ?c0 h"
  proof
    show "ch_Add h c1 = Inr (c1\<lparr>ch_keys := sort (ch_keys c1 @ map (ch_point c1 h) ?I),
      ch_hosts := (\<lambda>k. if k \<in> ch_points c1 h then Some h else ch_hosts c1 k)\<rparr>)"
      using ch_Add_fields[OF c1(2), of h] by (simp only: c1(5))
    show "dom (ch_hosts (c1\<lparr>ch_keys := sort (ch_keys c1 @ map (ch_point c1 h) ?I),
      ch_hosts := (\<lambda>k. if k \<in> ch_points c1 h then Some h else ch_hosts c1 k)\<rparr>)) \<subseteq> ch_points ?c0 h"
      using c1(6) by (auto simp: ch_points_def c1(4,5) r dom_def subset_iff split: if_splits)
  qed (use c1(2-5) in simp_all)
  with c1(1) show ?thesis by blast
qed

text \<open>
  \<open>Add\<close> does not look for the host. A host added twice and removed once leaves points
  without a host, and requests are answered with the empty host and no error, for every hash
  function.
\<close>

theorem consistent_hash_double_add:
  "\<exists>c. go_bind (ch_Add h (ch_empty hash)) (\<lambda>c. go_bind (ch_Add h c) (ch_Remove h)) = Inr c \<and>
     (\<forall>url. \<exists>c'. ch_Balance c url None = Inr (Inr '''', c'))"
proof -
  let ?c0 = "ch_empty hash" and ?I = "[0..<3] :: nat list"
  have mu: "ch_mu ?c0 = unlocked" and r: "ch_replicas ?c0 = 3" by (simp_all add: ch_empty_def)
  from double_ring[of h hash] obtain c1 c2 where c1: "ch_Add h ?c0 = Inr c1" and
    c2: "ch_Add h c1 = Inr c2" "ch_mu c2 = unlocked" "sorted (ch_keys c2)"
      "mset (ch_keys c2) = mset (map (ch_point ?c0 h) ?I) + mset (map (ch_point ?c0 h) ?I)"
      "ch_point c2 = ch_point ?c0" "ch_replicas c2 = 3" "dom (ch_hosts c2) \<subseteq> ch_points ?c0 h" by blast
  have "mset (map (ch_point c2 h) ?I) \<subseteq># mset (ch_keys c2)" by (simp add: c2)
  from ch_cut_many[OF c2(3) this] obtain ks where
    ks: "go_fold (ch_cut h) ?I c2 = Inr (c2\<lparr>ch_keys := ks,
      ch_hosts := (\<lambda>k. if k \<in> ch_point c2 h ` set ?I then None else ch_hosts c2 k)\<rparr>)"
    "mset ks = mset (ch_keys c2) - mset (map (ch_point c2 h) ?I)" by blast
  have none: "(\<lambda>k. if k \<in> ch_point c2 h ` set ?I then None else ch_hosts c2 k) = (\<lambda>_. None)"
  proof (rule ext)
    fix k
    have "ch_point c2 h ` set ?I = ch_points ?c0 h"
      by (simp only: c2(5) ch_points_def r set_upt lessThan_atLeast0)
    then show "(if k \<in> ch_point c2 h ` set ?I then None else ch_hosts c2 k) = None"
      using c2(7) by (cases "ch_hosts c2 k") auto
  qed
  have "mset ks = mset (map (ch_point ?c0 h) ?I)" by (simp only: ks(2) c2(4,5) add_diff_cancel_left')
  then have "length ks = length (map (ch_point ?c0 h) ?I)" by (rule mset_eq_length)
  then have "ks \<noteq> []" by auto
  let ?c3 = "c2\<lparr>ch_keys := ks, ch_hosts := (\<lambda>_. None), ch_list := remove1 h (ch_list c2)\<rparr>"
  have "ch_Remove h c2 = Inr ?c3"
    using ks(1)[unfolded none] c2(2) by (simp only: ch_Remove_def c2(6)) simp
  moreover have "\<exists>c'. ch_Balance ?c3 url None = Inr (Inr '''', c')" for url
    using \<open>ks \<noteq> []\<close> c2(2) by (simp add: ch_Balance_def ch_request_key_def Let_def)
  ultimately show ?thesis using c1 c2(1) by (intro exI[of _ ?c3]) simp
qed

text \<open>
  \<open>Remove\<close> does not check that a point is on the ring. Removing a host that is not there
  panics, or cuts as many points of other hosts out of the ring.
\<close>

lemma ch_cut_absent:
  assumes "go_fold (ch_cut h) is c = Inr c'" "ch_hosts c = m" "\<forall>i \<in> set is. m (ch_point c h i) = None"
  shows "length (ch_keys c') + length is = length (ch_keys c) \<and> ch_hosts c' = m"
  using assms
proof (induction "is" arbitrary: c)
  case (Cons i "is")
  then obtain c1 where c1: "ch_cut h i c = Inr c1" "go_fold (ch_cut h) is c1 = Inr c'"
    by (auto simp: go_bind_eq_Inr_iff)
  then have f: "length (ch_keys c1) + 1 = length (ch_keys c)" "ch_hosts c1 = (ch_hosts c)(ch_point c h i := None)"
    "ch_point c1 = ch_point c"
    by (auto simp: ch_cut_def Let_def split: if_splits)
  have "ch_hosts c1 = m" using f(2) Cons.prems(2,3) by (auto simp: fun_eq_iff)
  with Cons.IH[OF c1(2)] Cons.prems(3) f show ?case by simp
qed simp

theorem consistent_hash_remove_absent:
  assumes "ch_inv c" "ch_mu c = unlocked" "ch_fits h c"
  shows "ch_Remove h c = Inl SliceBounds \<or>
    (\<exists>c'. ch_Remove h c = Inr c' \<and> length (ch_keys c') + ch_replicas c = length (ch_keys c) \<and>
      ch_hosts c' = ch_hosts c)"
proof (cases "go_fold (ch_cut h) [0..<ch_replicas c] c")
  case (Inl e)
  have only: "go_fold (ch_cut h) is c0 = Inl e \<Longrightarrow> e = SliceBounds" for "is" c0
    by (induction "is" arbitrary: c0) (auto simp: go_bind_eq_Inl_iff ch_cut_def Let_def split: if_splits)
  from only[OF Inl] Inl assms(2) show ?thesis by (simp add: ch_Remove_def)
next
  case (Inr c1)
  have "\<forall>i \<in> set [0..<ch_replicas c]. ch_hosts c (ch_point c h i) = None"
  proof
    fix i assume "i \<in> set [0..<ch_replicas c]"
    then have "ch_point c h i \<in> ch_points c h" by (simp add: ch_points_def)
    then have "ch_point c h i \<notin> dom (ch_hosts c)"
      using assms(3) ch_invD(4)[OF assms(1)] by (auto simp: ch_fits_def)
    then show "ch_hosts c (ch_point c h i) = None" by auto
  qed
  from ch_cut_absent[OF Inr refl this] Inr assms(2) show ?thesis by (simp add: ch_Remove_def)
qed

section \<open>A ring of two hosts\<close>

lemma example_points:
  "map (ch_point (ch_empty ChecksumIEEE) ''a:1'') [0..<3] = [3960297705, 1420902284, 1174704226]"
  "map (ch_point (ch_empty ChecksumIEEE) ''b:2'') [0..<3] = [2000860938, 3489583215, 3712712577]"
  by code_simp+

lemma example_fits:
  assumes "map (ch_point c h) [0..<ch_replicas c] = ps" "distinct ps" "ps \<noteq> []" "set ps \<inter> set (ch_keys c) = {}"
  shows "ch_fits h c"
proof -
  have "ch_points c h = set ps" by (simp add: ch_points_def lessThan_atLeast0 flip: assms(1))
  moreover have "inj_on (ch_point c h) {..<ch_replicas c}"
    using assms(1,2) by (auto simp: distinct_map lessThan_atLeast0)
  ultimately show ?thesis using assms(1,3,4) by (auto simp: ch_fits_def)
qed

lemma example_ring:
  "\<exists>c. ch_Add ''a:1'' (ch_empty ChecksumIEEE) = Inr c \<and> ch_inv c \<and> ch_mu c = unlocked \<and>
    ch_live c = {''a:1''} \<and> ch_fits ''b:2'' c"
proof -
  let ?e = "ch_empty ChecksumIEEE"
  have e: "ch_inv ?e" "ch_live ?e = {}" "ch_mu ?e = unlocked" "ch_replicas ?e = 3" "ch_keys ?e = []"
    by (auto simp: ch_inv_def ch_empty_def unlocked_def ch_live_def)
  have "ch_fits ''a:1'' ?e"
    by (rule example_fits[OF example_points(1)[folded e(4)]]) (simp_all add: e)
  from ch_Add_inv[OF e(1,3) this] obtain c where
    c: "ch_Add ''a:1'' ?e = Inr c" "ch_live c = {''a:1''}" "ch_inv c" "ch_mu c = unlocked"
    by (auto simp: e(2))
  have f: "set (ch_keys c) = set [3960297705, 1420902284, 1174704226]" "ch_point c = ch_point ?e" "ch_replicas c = 3"
    using ch_Add_fields[OF e(3), of "''a:1''"] c(1) example_points(1)
    by (auto simp: e(4,5) ch_point_def fun_eq_iff)
  have "ch_fits ''b:2'' c"
    by (rule example_fits) (unfold f(2,3), rule example_points(2), simp_all add: f(1))
  with c show ?thesis by blast
qed

theorem consistent_hash_add_is_monotone_witness:
  "\<exists>c c' g c1 g' c2. ch_live c = {''a:1''} \<and> ch_Add ''b:2'' c = Inr c' \<and>
    ch_Balance c ''/x'' None = Inr (Inr g, c1) \<and> ch_Balance c' ''/x'' None = Inr (Inr g', c2) \<and>
    (g' = g \<or> g' = ''b:2'')"
proof -
  from example_ring obtain c where c: "ch_inv c" "ch_mu c = unlocked" "ch_live c = {''a:1''}" by blast
  then have "ch_live c \<noteq> {}" "ch_request_ok None" by (simp_all add: ch_request_ok_def)
  from consistent_hash_add_is_monotone[OF c(1,2) this, of "''b:2''" "''/x''"] c(3) show ?thesis by blast
qed

theorem consistent_hash_remove_is_monotone_witness:
  "\<exists>c c' g c1 g' c2. ch_live c = {''a:1'', ''b:2''} \<and> ch_Remove ''a:1'' c = Inr c' \<and>
    ch_Balance c ''/x'' None = Inr (Inr g, c1) \<and> ch_Balance c' ''/x'' None = Inr (Inr g', c2) \<and>
    (g \<noteq> ''a:1'' \<longrightarrow> g' = g) \<and> g' \<in> ch_live c - {''a:1''}"
proof -
  from example_ring obtain c0 where "ch_inv c0" "ch_mu c0 = unlocked" "ch_live c0 = {''a:1''}"
    "ch_fits ''b:2'' c0" by blast
  from ch_Add_inv[OF this(1,2,4)] this(3) obtain c where
    c: "ch_inv c" "ch_mu c = unlocked" "ch_live c = {''a:1'', ''b:2''}" by auto
  have "''a:1'' \<in> ch_live c" "ch_live c \<noteq> {''a:1''}" "ch_request_ok None"
    by (auto simp: c(3) ch_request_ok_def)
  from consistent_hash_remove_is_monotone[OF c(1,2) this, of "''/x''"] c(3) show ?thesis by blast
qed

theorem consistent_hash_lock_leak_witness:
  "\<exists>c g c'. ch_live c = {''a:1''} \<and> ch_Balance c ''/x'' None = Inr (g, c') \<and>
    ch_Add ''b:2'' c' = Inl Deadlock \<and> ch_Remove ''b:2'' c' = Inl Deadlock"
proof -
  from example_ring obtain c where c: "ch_inv c" "ch_live c = {''a:1''}" by blast
  have "ch_request_ok None" by (simp add: ch_request_ok_def)
  from consistent_hash_lock_leak[OF c(1) this, of "''/x''" "''b:2''"] c(2) show ?thesis by blast
qed

theorem consistent_hash_remove_absent_witness:
  "\<exists>c. ch_live c = {''a:1''} \<and> (ch_Remove ''b:2'' c = Inl SliceBounds \<or>
    (\<exists>c'. ch_Remove ''b:2'' c = Inr c' \<and> length (ch_keys c') + ch_replicas c = length (ch_keys c) \<and>
      ch_hosts c' = ch_hosts c))"
proof -
  from example_ring obtain c where c: "ch_inv c" "ch_mu c = unlocked" "ch_live c = {''a:1''}" "ch_fits ''b:2'' c"
    by blast
  from consistent_hash_remove_absent[OF c(1,2,4)] c(3) show ?thesis by blast
qed

end
