(* ===== verification/BalancerFactory.thy ===== *)
theory BalancerFactory
  imports RoundRobin ConsistRing
begin

text \<open>
  The dynamic dispatch of the \<open>Balancer\<close> interface and the factory of
  \<open>src/balancer/balancer.go\<close>. The last section shows that every balancer the factory builds
  answers with the hosts it was given, without an assumption on hash collisions.
\<close>

section \<open>Dispatch\<close>

datatype balancer = RR RoundRobin | CH ConsistenceHash

definition TypeRoundRobin :: string where "TypeRoundRobin = ''round-robin''"
definition TypeConsistenceHash :: string where "TypeConsistenceHash = ''consistence-hash''"

text \<open>The factories the two \<open>init\<close> functions register.\<close>

definition balancer_factories :: "string \<Rightarrow> (string list \<Rightarrow> balancer go) option" where
  "balancer_factories =
     [TypeRoundRobin \<mapsto> (\<lambda>hosts. Inr (RR (NewRoundRobin hosts))),
      TypeConsistenceHash \<mapsto> (\<lambda>hosts. go_bind (NewConsistenceHash hosts) (\<lambda>c. Inr (CH c)))]"

definition Balancer_Build :: "string \<Rightarrow> string list \<Rightarrow> (balancer_error + balancer) go" where
  "Balancer_Build algo hosts =
     (case balancer_factories algo of
        None \<Rightarrow> Inr (Inl AlgorithmNotSupportedError)
      | Some factory \<Rightarrow> go_bind (factory hosts) (\<lambda>b. Inr (Inr b)))"

definition GetBalancerType :: "string set" where
  "GetBalancerType = dom balancer_factories"

fun bal_Add :: "string \<Rightarrow> balancer \<Rightarrow> balancer go" where
  "bal_Add h (RR r) = go_bind (rr_Add h r) (\<lambda>r. Inr (RR r))"
| "bal_Add h (CH c) = go_bind (ch_Add h c) (\<lambda>c. Inr (CH c))"

fun bal_Remove :: "string \<Rightarrow> balancer \<Rightarrow> balancer go" where
  "bal_Remove h (RR r) = go_bind (rr_Remove h r) (\<lambda>r. Inr (RR r))"
| "bal_Remove h (CH c) = go_bind (ch_Remove h c) (\<lambda>c. Inr (CH c))"

fun bal_Balance :: "balancer \<Rightarrow> string \<Rightarrow> request option \<Rightarrow> balancer pick_result" where
  "bal_Balance (RR r) url q = go_bind (rr_Balance r url q) (\<lambda>(h, r). Inr (h, RR r))"
| "bal_Balance (CH c) url q = go_bind (ch_Balance c url q) (\<lambda>(h, c). Inr (h, CH c))"

fun bal_Hosts :: "balancer \<Rightarrow> string list" where
  "bal_Hosts (RR r) = rr_Hosts r"
| "bal_Hosts (CH c) = ch_Hosts c"

fun bal_Mode :: "balancer \<Rightarrow> string" where
  "bal_Mode (RR r) = rr_Mode r"
| "bal_Mode (CH c) = ch_Mode c"

section \<open>What a balancer answers\<close>

fun bal_live :: "balancer \<Rightarrow> string set" where
  "bal_live (RR r) = rr_live r"
| "bal_live (CH c) = ch_live c"

text \<open>The write lock is free and, on a ring, the points are those of the host table.\<close>

definition rr_ok :: "RoundRobin \<Rightarrow> bool" where
  "rr_ok r \<longleftrightarrow> rr_mu r = unlocked \<and> length (rr_hosts r) < 2 ^ 63"

definition ch_ok :: "ConsistenceHash \<Rightarrow> bool" where
  "ch_ok c \<longleftrightarrow> \<not> w_held (ch_mu c) \<and> sorted (ch_keys c) \<and> set (ch_keys c) = dom (ch_hosts c)"

fun bal_ok :: "balancer \<Rightarrow> bool" where
  "bal_ok (RR r) = rr_ok r"
| "bal_ok (CH c) = ch_ok c"

lemma ch_ok_keys_empty: "ch_ok c \<Longrightarrow> ch_keys c = [] \<longleftrightarrow> ch_live c = {}"
  by (auto simp: ch_ok_def ch_live_def ran_def dom_def)

lemma rr_select:
  assumes "rr_ok r"
  shows "\<exists>h r'. rr_Balance r url q = Inr (h, r') \<and> rr_ok r' \<and> rr_live r' = rr_live r \<and>
    (case h of Inl e \<Rightarrow> rr_live r = {} | Inr h \<Rightarrow> h \<in> rr_live r)"
proof (cases "rr_hosts r = []")
  case True
  with assms show ?thesis by (simp add: rr_ok_def rr_Balance_def rr_live_def)
next
  case False
  with assms show ?thesis using rr_Balance_step[of r url q] by (simp add: rr_ok_def rr_live_def)
qed

lemma ch_select:
  assumes "ch_ok c" "ch_request_ok q"
  shows "\<exists>h c'. ch_Balance c url q = Inr (h, c') \<and> ch_ok c' \<and> ch_live c' = ch_live c \<and>
    (case h of Inl e \<Rightarrow> ch_live c = {} | Inr h \<Rightarrow> h \<in> ch_live c)"
proof (cases "ch_keys c = []")
  case True
  with assms(1) ch_ok_keys_empty[OF assms(1)] show ?thesis
    by (simp add: ch_ok_def ch_Balance_def mu_RLock_def)
next
  case False
  from assms(2) obtain k where "ch_request_key url q = Inr k"
    using ch_request_key_returns unfolding ch_request_ok_def by blast
  moreover have "ch_target c k \<in> ch_live c"
    using ch_target_live False ch_ok_keys_empty[OF assms(1)] assms(1) by (simp add: ch_ok_def)
  ultimately show ?thesis
    using ch_Balance_target[of c url q k] False assms(1) by (simp add: ch_ok_def)
qed

lemma bal_select:
  assumes "bal_ok b" "ch_request_ok q"
  shows "\<exists>h b'. bal_Balance b url q = Inr (h, b') \<and> bal_ok b' \<and> bal_live b' = bal_live b \<and>
    (case h of Inl e \<Rightarrow> bal_live b = {} | Inr h \<Rightarrow> h \<in> bal_live b)"
proof (cases b)
  case (RR r)
  with assms(1) have "rr_ok r" by simp
  from rr_select[OF this, of url q] RR show ?thesis by (auto cong: sum.case_cong)
next
  case (CH c)
  with assms(1) have "ch_ok c" by simp
  from ch_select[OF this assms(2), of url] CH show ?thesis by (auto cong: sum.case_cong)
qed

interpretation bal: host_selector bal_Balance bal_live bal_ok ch_request_ok
proof unfold_locales
  fix b url r
  assume *: "bal_ok b" "bal_live b \<noteq> {}" "ch_request_ok r"
  from bal_select[OF *(1,3), of url] *(2)
  show "\<exists>h b'. bal_Balance b url r = Inr (Inr h, b') \<and> h \<in> bal_live b \<and> bal_live b' = bal_live b \<and> bal_ok b'"
    by (fastforce split: sum.splits)
next
  fix b url and r :: "request option"
  assume *: "bal_ok b" "bal_live b = {}"
  show "\<exists>e b'. bal_Balance b url r = Inr (Inl e, b') \<and> bal_live b' = {} \<and> bal_ok b'"
  proof (cases b)
    case (RR x)
    with * show ?thesis by (auto simp: rr_Balance_def rr_live_def rr_ok_def)
  next
    case (CH x)
    with * have "ch_keys x = []" using ch_ok_keys_empty[of x] by simp
    with CH * show ?thesis by (auto simp: ch_Balance_def ch_ok_def mu_RLock_def)
  qed
qed

section \<open>What the factory builds\<close>

lemma ch_init_host_ok:
  assumes "ch_ok c" "ch_mu c = unlocked" "0 < ch_replicas c"
  shows "\<exists>c'. ch_init_host h c = Inr c' \<and> ch_ok c' \<and> ch_mu c' = unlocked \<and> ch_replicas c' = ch_replicas c \<and>
    ch_live c' \<subseteq> insert h (ch_live c) \<and> h \<in> ch_live c' \<and> ch_list c' = ch_list c @ [h]"
proof -
  let ?c = "c\<lparr>ch_keys := sort (ch_keys c @ map (ch_point c h) [0..<ch_replicas c]),
    ch_hosts := (\<lambda>k. if k \<in> ch_points c h then Some h else ch_hosts c k), ch_list := ch_list c @ [h]\<rparr>"
  have "ch_init_host h c = Inr ?c"
    by (simp add: ch_init_host_def ch_Add_fields[OF assms(2)])
  moreover have "ch_ok ?c"
    using assms(1) by (auto simp: ch_ok_def ch_points_def split: if_splits)
  moreover have "ch_point c h 0 \<in> ch_points c h" using assms(3) by (auto simp: ch_points_def)
  then have "h \<in> ch_live ?c" by (auto simp: ch_live_def ran_def)
  moreover have "ch_live ?c \<subseteq> insert h (ch_live c)" by (auto simp: ch_live_def ran_def split: if_splits)
  ultimately show ?thesis using assms(2) by (intro exI[of _ ?c]) simp
qed

lemma NewConsistenceHash_ok:
  "\<exists>c. NewConsistenceHash hosts = Inr c \<and> ch_ok c \<and> ch_mu c = unlocked \<and> ch_live c \<subseteq> set hosts \<and>
    (hosts \<noteq> [] \<longrightarrow> ch_live c \<noteq> {}) \<and> ch_list c = hosts"
proof -
  have "\<exists>c'. go_fold ch_init_host hs c = Inr c' \<and> ch_ok c' \<and> ch_mu c' = unlocked \<and>
      ch_live c' \<subseteq> set hs \<union> ch_live c \<and> (hs \<noteq> [] \<longrightarrow> ch_live c' \<noteq> {}) \<and> ch_list c' = ch_list c @ hs"
    if "ch_ok c" "ch_mu c = unlocked" "0 < ch_replicas c" for hs c
    using that
  proof (induction hs arbitrary: c)
    case Nil
    then show ?case by simp
  next
    case (Cons h hs)
    from ch_init_host_ok[OF Cons.prems, of h] obtain c1 where
      c1: "ch_init_host h c = Inr c1" "ch_ok c1" "ch_mu c1 = unlocked" "ch_replicas c1 = ch_replicas c"
      "ch_live c1 \<subseteq> insert h (ch_live c)" "h \<in> ch_live c1" "ch_list c1 = ch_list c @ [h]" by blast
    from Cons.IH[OF c1(2,3)] c1(4) Cons.prems(3) obtain c2 where
      c2: "go_fold ch_init_host hs c1 = Inr c2" "ch_ok c2" "ch_mu c2 = unlocked"
      "ch_live c2 \<subseteq> set hs \<union> ch_live c1" "hs \<noteq> [] \<longrightarrow> ch_live c2 \<noteq> {}" "ch_list c2 = ch_list c1 @ hs" by auto
    have "ch_live c2 \<noteq> {}"
      using c2(1,5) c1(6) by (cases hs) auto
    with c1 c2 show ?case by (intro exI[of _ c2]) auto
  qed
  from this[of "ch_empty ChecksumIEEE" hosts] show ?thesis
    by (simp add: NewConsistenceHash_def ch_ok_def ch_empty_def unlocked_def ch_live_def)
qed

lemma Balancer_Build_supported:
  assumes "algo \<in> GetBalancerType" "length hosts < 2 ^ 63"
  shows "\<exists>b. Balancer_Build algo hosts = Inr (Inr b) \<and> bal_ok b \<and> bal_live b \<subseteq> set hosts \<and>
    (hosts \<noteq> [] \<longrightarrow> bal_live b \<noteq> {}) \<and> bal_Hosts b = hosts \<and> bal_Mode b = algo"
proof -
  from assms(1) consider "algo = TypeRoundRobin" | "algo = TypeConsistenceHash"
    by (auto simp: GetBalancerType_def balancer_factories_def split: if_splits)
  then show ?thesis
  proof cases
    case 1
    have "rr_ok (NewRoundRobin hosts)" using assms(2) by (simp add: NewRoundRobin_def rr_ok_def)
    then show ?thesis
      by (simp add: Balancer_Build_def 1 balancer_factories_def TypeRoundRobin_def TypeConsistenceHash_def
          rr_live_def NewRoundRobin_def rr_Hosts_def rr_Mode_def)
  next
    case 2
    from NewConsistenceHash_ok[of hosts] obtain c where "NewConsistenceHash hosts = Inr c" "ch_ok c"
      "ch_live c \<subseteq> set hosts" "hosts \<noteq> [] \<longrightarrow> ch_live c \<noteq> {}" "ch_list c = hosts" by blast
    then show ?thesis
      by (simp add: Balancer_Build_def 2 balancer_factories_def TypeRoundRobin_def TypeConsistenceHash_def
          ch_Hosts_def ch_Mode_def)
  qed
qed

lemma Balancer_Build_unsupported:
  "algo \<notin> GetBalancerType \<Longrightarrow> Balancer_Build algo hosts = Inr (Inl AlgorithmNotSupportedError)"
  by (auto simp: Balancer_Build_def GetBalancerType_def split: option.splits)

text \<open>What a balancer without hosts answers.\<close>

definition no_host_error :: "string \<Rightarrow> balancer_error" where
  "no_host_error algo = (if algo = TypeRoundRobin then NoHostError else CantFindAnyHost)"

lemma bal_empty:
  assumes "bal_ok b" "bal_live b = {}"
  shows "\<exists>b'. bal_Balance b url r = Inr (Inl (no_host_error (bal_Mode b)), b') \<and> bal_ok b' \<and> bal_live b' = {} \<and>
    bal_Mode b' = bal_Mode b"
proof (cases b)
  case (RR x)
  with assms show ?thesis
    by (auto simp: rr_Balance_def rr_live_def rr_ok_def no_host_error_def rr_Mode_def TypeRoundRobin_def)
next
  case (CH x)
  with assms have "ch_keys x = []" using ch_ok_keys_empty[of x] by simp
  with CH assms show ?thesis
    by (auto simp: ch_Balance_def ch_ok_def ch_live_def mu_RLock_def no_host_error_def ch_Mode_def TypeRoundRobin_def)
qed

lemma serve_empty:
  assumes "bal_ok b" "bal_live b = {}"
  shows "\<exists>b'. serve bal_Balance reqs b = Inr (replicate (length reqs) (Inl (no_host_error (bal_Mode b))), b')"
  using assms
proof (induction reqs arbitrary: b)
  case (Cons q reqs)
  obtain url r where q: "q = (url, r)" by (cases q)
  from bal_empty[OF Cons.prems, of url r] obtain b1 where
    b1: "bal_Balance b url r = Inr (Inl (no_host_error (bal_Mode b)), b1)" "bal_ok b1" "bal_live b1 = {}" "bal_Mode b1 = bal_Mode b"
    by blast
  from Cons.IH[OF b1(2,3)] b1(1,4) show ?case by (auto simp: q)
qed simp

text \<open>
  C29: whatever the algorithm of the two and the hosts' hashes, a balancer built on a list of hosts answers
  every sequence of requests that carry an address with a port: with hosts of that list when there is one, and
  otherwise with the error for no host of its algorithm. It never panics and never waits.
\<close>

theorem built_balancer_serves:
  assumes "algo \<in> GetBalancerType" "length hosts < 2 ^ 63" "\<forall>(url, r) \<in> set reqs. ch_request_ok r"
  shows "\<exists>b answers b'. Balancer_Build algo hosts = Inr (Inr b) \<and> serve bal_Balance reqs b = Inr (answers, b') \<and>
    (if hosts = [] then answers = replicate (length reqs) (Inl (no_host_error algo))
     else \<exists>hs. answers = map Inr hs \<and> length hs = length reqs \<and> set hs \<subseteq> set hosts)"
proof -
  from Balancer_Build_supported[OF assms(1,2)] obtain b where
    b: "Balancer_Build algo hosts = Inr (Inr b)" "bal_ok b" "bal_live b \<subseteq> set hosts" "hosts \<noteq> [] \<longrightarrow> bal_live b \<noteq> {}"
    "bal_Mode b = algo" by blast
  show ?thesis
  proof (cases "hosts = []")
    case True
    with b(3) have "bal_live b = {}" by simp
    from serve_empty[OF b(2) this, of reqs] b(1,5) True show ?thesis by auto
  next
    case False
    with bal.serve_live[OF b(2) _ assms(3)] b show ?thesis by fastforce
  qed
qed

theorem built_balancer_serves_witness:
  "(\<exists>b hs b'. Balancer_Build ''consistence-hash'' [''a:1'', ''b:2'', ''a:1''] = Inr (Inr b) \<and>
    serve bal_Balance [(''/x'', None), (''/y'', None)] b = Inr (map Inr hs, b') \<and>
    length hs = 2 \<and> set hs \<subseteq> {''a:1'', ''b:2''}) \<and>
   (\<exists>b b'. Balancer_Build ''round-robin'' [] = Inr (Inr b) \<and>
    serve bal_Balance [(''/x'', None)] b = Inr ([Inl NoHostError], b'))"
proof -
  have known: "''consistence-hash'' \<in> GetBalancerType" "''round-robin'' \<in> GetBalancerType"
    by (simp_all add: GetBalancerType_def balancer_factories_def TypeConsistenceHash_def TypeRoundRobin_def)
  have ok: "\<forall>(url, r) \<in> set [(''/x'', None), (''/y'', None)]. ch_request_ok r"
    "\<forall>(url, r) \<in> set [(''/x'', None)]. ch_request_ok r" by (simp_all add: ch_request_ok_def)
  have short: "length [''a:1'', ''b:2'', ''a:1''] < 2 ^ 63" "length ([] :: string list) < 2 ^ 63" by simp_all
  have "no_host_error ''round-robin'' = NoHostError" by (simp add: no_host_error_def TypeRoundRobin_def)
  with built_balancer_serves[OF known(1) short(1) ok(1)] built_balancer_serves[OF known(2) short(2) ok(2)]
  show ?thesis by (auto simp: insert_commute)
qed

end
