(* ===== verification/HashPrefixer.thy ===== *)
theory HashPrefixer
  imports BalancerFactory
begin

text \<open>
  \<open>src/prefix/prefixer.go\<close> and \<open>src/prefix/hash_prefixer.go\<close>: the table from path
  prefixes to balancers. \<open>MappingPath\<close> cuts a path at its slashes, looks up each prefix it
  passes and asks the balancer of the last one found for a host.
\<close>

datatype prefix_error =
    PrefixerTypeNotSupportedError
  | PathNotFoundError
  | FromBalancer balancer_error

record HashPrefixer =
  hp_mu :: RWMutex
  hp_Mapping :: "string \<Rightarrow> balancer option"

definition TypeHashPrefixer :: string where "TypeHashPrefixer = ''hash-prefixer''"

definition NewHashPrefixer :: HashPrefixer where
  "NewHashPrefixer = \<lparr>hp_mu = unlocked, hp_Mapping = (\<lambda>_. None)\<rparr>"

definition Prefixer_Build :: "string \<Rightarrow> prefix_error + HashPrefixer" where
  "Prefixer_Build t =
     (if t = TypeHashPrefixer then Inr NewHashPrefixer else Inl PrefixerTypeNotSupportedError)"

text \<open>\<open>Add\<close> answers nil when the balancer cannot be built, too.\<close>

definition hp_Add ::
  "string \<Rightarrow> string \<Rightarrow> string list \<Rightarrow> HashPrefixer \<Rightarrow> (prefix_error option \<times> HashPrefixer) go" where
  "hp_Add prefixPath algo hosts p =
     go_bind (mu_Lock (hp_mu p)) (\<lambda>m.
     go_bind (Balancer_Build algo hosts) (\<lambda>b.
       case b of
         Inl err \<Rightarrow> Inr (None, p\<lparr>hp_mu := mu_Unlock m\<rparr>)
       | Inr b \<Rightarrow> Inr (None, p\<lparr>hp_mu := mu_Unlock m, hp_Mapping := (hp_Mapping p)(prefixPath \<mapsto> b)\<rparr>)))"

definition hp_List :: "HashPrefixer \<Rightarrow> ((string \<Rightarrow> balancer option) \<times> HashPrefixer) go" where
  "hp_List p = go_bind (mu_RLock (hp_mu p)) (\<lambda>m. Inr (hp_Mapping p, p\<lparr>hp_mu := mu_RUnlock m\<rparr>))"

definition hp_Remove :: "string \<Rightarrow> HashPrefixer \<Rightarrow> HashPrefixer go" where
  "hp_Remove prefixPath p =
     go_bind (mu_Lock (hp_mu p)) (\<lambda>m.
       Inr (p\<lparr>hp_mu := mu_Unlock m, hp_Mapping := (hp_Mapping p)(prefixPath := None)\<rparr>))"

text \<open>A missing prefix gives the nil balancer, \<open>None\<close>.\<close>

definition hp_GetBalancer :: "string \<Rightarrow> HashPrefixer \<Rightarrow> (balancer option \<times> HashPrefixer) go" where
  "hp_GetBalancer prefixPath p =
     go_bind (mu_RLock (hp_mu p)) (\<lambda>m. Inr (hp_Mapping p prefixPath, p\<lparr>hp_mu := mu_RUnlock m\<rparr>))"

text \<open>The loop of \<open>MappingPath\<close> on \<open>prefix\<close>, \<open>nextPath\<close>, \<open>idx\<close> and \<open>offset\<close>.\<close>

fun hp_match_loop ::
  "(string \<Rightarrow> balancer option) \<Rightarrow> string list \<Rightarrow> string \<Rightarrow> string \<Rightarrow> nat \<Rightarrow> nat \<Rightarrow> string \<times> nat" where
  "hp_match_loop M [] prefix nextPath idx offset = (prefix, offset)"
| "hp_match_loop M (v # vs) prefix nextPath idx offset =
     (let nextPath = nextPath @ ''/'' @ v; idx = idx + (length v + 1)
      in case M nextPath of
           Some _ \<Rightarrow> hp_match_loop M vs nextPath nextPath idx idx
         | None \<Rightarrow> hp_match_loop M vs prefix nextPath idx offset)"

definition hp_match :: "(string \<Rightarrow> balancer option) \<Rightarrow> string \<Rightarrow> string \<times> nat" where
  "hp_match M apiPath =
     (let apiPathSplits = drop 1 (Split CHR ''/'' apiPath);
          (prefix, offset) = hp_match_loop M apiPathSplits '''' '''' 0 0
      in (if length prefix = 0 then ''/'' else prefix, offset))"

text \<open>
  The result: the prefix, the rest of the path and the real path. The balancer is a pointer, so
  its new state stays in the table; \<open>apiPath[offset:]\<close> would panic past the end.
\<close>

definition MappingPath ::
  "string \<Rightarrow> request option \<Rightarrow> HashPrefixer \<Rightarrow> ((prefix_error + string \<times> string \<times> string) \<times> HashPrefixer) go"
where
  "MappingPath apiPath r p =
     go_bind (mu_RLock (hp_mu p)) (\<lambda>m.
       let (prefix, offset) = hp_match (hp_Mapping p) apiPath; p1 = p\<lparr>hp_mu := mu_RUnlock m\<rparr>
       in case hp_Mapping p prefix of
            None \<Rightarrow> Inr (Inl PathNotFoundError, p1)
          | Some b \<Rightarrow>
              go_bind (bal_Balance b '''' r) (\<lambda>(res, b1).
                let p2 = p1\<lparr>hp_Mapping := (hp_Mapping p)(prefix \<mapsto> b1)\<rparr>
                in case res of
                     Inl err \<Rightarrow> Inr (Inl (FromBalancer err), p2)
                   | Inr host \<Rightarrow>
                       (if offset > length apiPath then Inl SliceBounds
                        else Inr (Inr (prefix, drop offset apiPath, host @ drop offset apiPath), p2))))"

section \<open>Prefixes at a segment boundary\<close>

text \<open>\<open>p\<close> is a prefix of the path that ends where a segment ends.\<close>

definition seg_prefix :: "string \<Rightarrow> string \<Rightarrow> bool" where
  "seg_prefix p path \<longleftrightarrow> p \<noteq> [] \<and> take (length p) path = p \<and>
     (length p = length path \<or> length p < length path \<and> path ! length p = CHR ''/'')"

definition segs_path :: "string list \<Rightarrow> string" where
  "segs_path vs = concat (map (\<lambda>v. CHR ''/'' # v) vs)"

lemma segs_path_simps [simp]:
  "segs_path [] = []" "segs_path (v # vs) = CHR ''/'' # v @ segs_path vs"
  "segs_path (us @ vs) = segs_path us @ segs_path vs"
  by (simp_all add: segs_path_def)

lemma segs_path_Split: "segs_path (Split CHR ''/'' s) = CHR ''/'' # s"
proof (induction s)
  case (Cons x s)
  obtain y ys where "Split CHR ''/'' s = y # ys" by (rule Split_neq_Nil_E)
  with Cons show ?case by auto
qed simp

lemma Split_segs:
  assumes "path = CHR ''/'' # s"
  shows "drop 1 (Split CHR ''/'' path) = Split CHR ''/'' s" "segs_path (Split CHR ''/'' s) = path"
  using assms segs_path_Split[of s] by simp_all

lemma Split_seg_append: "Split c (x @ c # s) = Split c x @ Split c s"
proof (induction x)
  case (Cons a x)
  obtain y ys where "Split c x = y # ys" by (rule Split_neq_Nil_E)
  with Cons show ?case by auto
qed simp

lemma seg_prefix_iff:
  assumes "path = CHR ''/'' # s"
  shows "seg_prefix p path \<longleftrightarrow>
    (\<exists>k. 0 < k \<and> k \<le> length (Split CHR ''/'' s) \<and> p = segs_path (take k (Split CHR ''/'' s)))"
proof
  assume p: "seg_prefix p path"
  then obtain p' where p': "p = CHR ''/'' # p'"
    using assms by (cases p) (auto simp: seg_prefix_def)
  show "\<exists>k. 0 < k \<and> k \<le> length (Split CHR ''/'' s) \<and> p = segs_path (take k (Split CHR ''/'' s))"
  proof (cases "length p = length path")
    case True
    with p have "p = path" by (simp add: seg_prefix_def)
    then show ?thesis using Split_segs(2)[OF assms]
      by (intro exI[of _ "length (Split CHR ''/'' s)"]) simp
  next
    case False
    with p have lt: "length p < length path" "path ! length p = CHR ''/''" "take (length p) path = p"
      by (auto simp: seg_prefix_def)
    then have "path = p @ CHR ''/'' # drop (Suc (length p)) path"
      by (metis append_take_drop_id Cons_nth_drop_Suc)
    with p' assms have s: "s = p' @ CHR ''/'' # drop (Suc (length p)) path" by simp
    have "Split CHR ''/'' s = Split CHR ''/'' p' @ Split CHR ''/'' (drop (Suc (length p)) path)"
      by (subst s) (rule Split_seg_append)
    then show ?thesis using segs_path_Split[of p'] p'
      by (intro exI[of _ "length (Split CHR ''/'' p')"]) simp
  qed
next
  assume "\<exists>k. 0 < k \<and> k \<le> length (Split CHR ''/'' s) \<and> p = segs_path (take k (Split CHR ''/'' s))"
  then obtain k where k: "0 < k" "k \<le> length (Split CHR ''/'' s)" "p = segs_path (take k (Split CHR ''/'' s))"
    by blast
  let ?r = "segs_path (drop k (Split CHR ''/'' s))"
  have path: "path = p @ ?r"
    using Split_segs(2)[OF assms] k(3) by (metis append_take_drop_id segs_path_simps(3))
  moreover have "p \<noteq> []" using k by (cases "Split CHR ''/'' s") (auto simp: take_Cons' split: if_splits)
  moreover have "?r = [] \<or> (\<exists>t. ?r = CHR ''/'' # t)"
    by (cases "drop k (Split CHR ''/'' s)") auto
  ultimately show "seg_prefix p path" by (auto simp: seg_prefix_def)
qed

lemma seg_prefix_drop: "seg_prefix p path \<Longrightarrow> path = p @ drop (length p) path"
  by (metis seg_prefix_def append_take_drop_id)

lemma seg_prefix_rest:
  assumes "seg_prefix p path"
  shows "drop (length p) path = [] \<or> (\<exists>t. drop (length p) path = CHR ''/'' # t)"
proof (cases "length p < length path")
  case True
  with assms have "path ! length p = CHR ''/''" by (simp add: seg_prefix_def)
  with Cons_nth_drop_Suc[OF True] show ?thesis by metis
qed simp

section \<open>The longest prefix\<close>

text \<open>No prefix of the segments is in the table, or the longest one that is has \<open>k\<close> segments.\<close>

definition no_hit :: "(string \<Rightarrow> 'b option) \<Rightarrow> string \<Rightarrow> string list \<Rightarrow> bool" where
  "no_hit M p vs \<longleftrightarrow> (\<forall>k < length vs. M (p @ segs_path (take (Suc k) vs)) = None)"

definition last_hit :: "(string \<Rightarrow> 'b option) \<Rightarrow> string \<Rightarrow> string list \<Rightarrow> nat \<Rightarrow> bool" where
  "last_hit M p vs k \<longleftrightarrow> 0 < k \<and> k \<le> length vs \<and> M (p @ segs_path (take k vs)) \<noteq> None \<and>
     no_hit M (p @ segs_path (take k vs)) (drop k vs)"

lemma no_hit_simps [simp]:
  "no_hit M p []" "no_hit M p (v # vs) \<longleftrightarrow> M (p @ ''/'' @ v) = None \<and> no_hit M (p @ ''/'' @ v) vs"
  by (simp_all add: no_hit_def All_less_Suc2)

lemma last_hit_Cons:
  "last_hit M p (v # vs) (Suc k) \<longleftrightarrow>
    (if k = 0 then M (p @ ''/'' @ v) \<noteq> None \<and> no_hit M (p @ ''/'' @ v) vs else last_hit M (p @ ''/'' @ v) vs k)"
  by (simp add: last_hit_def)

lemma no_hitD: "no_hit M p vs \<Longrightarrow> 0 < k \<Longrightarrow> k \<le> length vs \<Longrightarrow> M (p @ segs_path (take k vs)) = None"
  by (cases k) (simp_all add: no_hit_def)

lemma last_hitD:
  assumes "last_hit M p vs k" "k < j" "j \<le> length vs"
  shows "M (p @ segs_path (take j vs)) = None"
proof -
  have "take j vs = take k vs @ take (j - k) (drop k vs)" using assms(2) by (simp flip: take_add)
  with no_hitD[of M "p @ segs_path (take k vs)" "drop k vs" "j - k"] assms show ?thesis by (simp add: last_hit_def)
qed

lemma hp_match_loop_hits:
  assumes "hp_match_loop M vs prefix nextPath idx offset = (q, n)" "idx = length nextPath"
  shows "no_hit M nextPath vs \<and> q = prefix \<and> n = offset \<or>
    (\<exists>k. last_hit M nextPath vs k \<and> q = nextPath @ segs_path (take k vs) \<and> n = length q)"
  using assms
proof (induction M vs prefix nextPath idx offset rule: hp_match_loop.induct)
  case (2 M v vs prefix nextPath idx offset)
  let ?next = "nextPath @ ''/'' @ v"
  have shift: "\<exists>k. last_hit M nextPath (v # vs) k \<and> q = nextPath @ segs_path (take k (v # vs)) \<and> n = length q"
    if "last_hit M ?next vs k \<and> q = ?next @ segs_path (take k vs) \<and> n = length q" for k
    using that by (intro exI[of _ "Suc k"]) (auto simp: last_hit_Cons last_hit_def[of _ _ _ 0])
  show ?case
  proof (cases "M ?next")
    case None
    with "2.prems" have "hp_match_loop M vs prefix ?next (idx + (length v + 1)) offset = (q, n)"
      by (simp add: Let_def)
    from "2.IH"(1)[OF refl refl None this] "2.prems"(2) None shift show ?thesis by auto
  next
    case (Some b)
    with "2.prems" have "hp_match_loop M vs ?next ?next (idx + (length v + 1)) (idx + (length v + 1)) = (q, n)"
      by (simp add: Let_def)
    moreover have "idx + (length v + 1) = length ?next" using "2.prems"(2) by simp
    ultimately have "no_hit M ?next vs \<and> q = ?next \<and> n = idx + (length v + 1) \<or>
      (\<exists>k. last_hit M ?next vs k \<and> q = ?next @ segs_path (take k vs) \<and> n = length q)"
      by (rule "2.IH"(2)[OF refl refl Some])
    then show ?thesis
    proof (elim disjE)
      assume "no_hit M ?next vs \<and> q = ?next \<and> n = idx + (length v + 1)"
      with Some "2.prems"(2) show ?thesis by (intro disjI2 exI[of _ "Suc 0"]) (simp add: last_hit_Cons)
    qed (use shift in auto)
  qed
qed simp

lemma hp_match_loop_correct:
  assumes "hp_match_loop M vs prefix nextPath idx offset = (q, n)" "idx = length nextPath"
  shows "(\<forall>k. 0 < k \<longrightarrow> k \<le> length vs \<longrightarrow> M (nextPath @ segs_path (take k vs)) = None) \<and> q = prefix \<and> n = offset \<or>
    (\<exists>k. 0 < k \<and> k \<le> length vs \<and> M (nextPath @ segs_path (take k vs)) \<noteq> None \<and>
       q = nextPath @ segs_path (take k vs) \<and> n = length q \<and>
       (\<forall>j. k < j \<longrightarrow> j \<le> length vs \<longrightarrow> M (nextPath @ segs_path (take j vs)) = None))"
  using hp_match_loop_hits[OF assms]
proof (elim disjE exE)
  fix k assume "last_hit M nextPath vs k \<and> q = nextPath @ segs_path (take k vs) \<and> n = length q"
  with last_hitD[of M nextPath vs k] show ?thesis unfolding last_hit_def[of M nextPath vs k] by blast
qed (use no_hitD in blast)

text \<open>For any path the offset stays inside it.\<close>

lemma length_segs_take: "length (segs_path (take k vs)) \<le> length (segs_path vs)"
  by (metis append_take_drop_id segs_path_simps(3) length_append le_add1)

lemma length_segs_mono: "j \<le> k \<Longrightarrow> length (segs_path (take j vs)) \<le> length (segs_path (take k vs))"
  using length_segs_take[of j "take k vs"] by (simp add: min_absorb1)

lemma length_segs_drop1: "length (segs_path (drop 1 (Split CHR ''/'' s))) \<le> length s"
proof -
  obtain y ys where y: "Split CHR ''/'' s = y # ys" by (rule Split_neq_Nil_E)
  with segs_path_Split[of s] have "s = y @ segs_path ys" by simp
  then have "length s = length y + length (segs_path ys)" by (metis length_append)
  with y show ?thesis by simp
qed

lemma hp_match_bound:
  assumes "hp_match M path = (q, n)"
  shows "n \<le> length path"
proof -
  let ?vs = "drop 1 (Split CHR ''/'' path)"
  obtain q0 where "hp_match_loop M ?vs '''' '''' 0 0 = (q0, n)"
    using assms by (cases "hp_match_loop M ?vs '''' '''' 0 0") (auto simp: hp_match_def)
  from hp_match_loop_correct[OF this] consider "n = 0" | k where "n = length (segs_path (take k ?vs))" by auto
  then show ?thesis
    using length_segs_take[of _ ?vs] length_segs_drop1[of path] by cases (auto intro: order_trans)
qed

lemma hp_match_correct:
  assumes "path = CHR ''/'' # s" "hp_match M path = (q, n)"
  shows "(\<forall>p. seg_prefix p path \<longrightarrow> M p = None) \<and> q = ''/'' \<and> n = 0 \<or>
    seg_prefix q path \<and> M q \<noteq> None \<and> n = length q \<and>
      (\<forall>p. seg_prefix p path \<longrightarrow> M p \<noteq> None \<longrightarrow> length p \<le> length q)"
proof -
  let ?vs = "Split CHR ''/'' s"
  obtain q0 where q0: "hp_match_loop M ?vs '''' '''' 0 0 = (q0, n)" "q = (if length q0 = 0 then ''/'' else q0)"
    using assms by (cases "hp_match_loop M ?vs '''' '''' 0 0") (auto simp: hp_match_def)
  from hp_match_loop_correct[OF q0(1)] consider
      (none) "\<forall>k. 0 < k \<longrightarrow> k \<le> length ?vs \<longrightarrow> M (segs_path (take k ?vs)) = None" "q0 = ''''" "n = 0"
    | (some) k where "0 < k" "k \<le> length ?vs" "M (segs_path (take k ?vs)) \<noteq> None" "q0 = segs_path (take k ?vs)"
        "n = length q0" "\<forall>j. k < j \<longrightarrow> j \<le> length ?vs \<longrightarrow> M (segs_path (take j ?vs)) = None" by auto
  then show ?thesis
  proof cases
    case none
    have "M p = None" if "seg_prefix p path" for p
    proof -
      from that obtain k where "0 < k" "k \<le> length ?vs" "p = segs_path (take k ?vs)"
        unfolding seg_prefix_iff[OF assms(1)] by blast
      with none(1) show ?thesis by simp
    qed
    with none q0(2) show ?thesis by simp
  next
    case some
    then have q: "seg_prefix q0 path" unfolding seg_prefix_iff[OF assms(1)] by blast
    then have qq: "q = q0" using q0(2) by (simp add: seg_prefix_def)
    have len: "length p \<le> length q0" if p: "seg_prefix p path" "M p \<noteq> None" for p
    proof -
      from p(1) obtain j where j: "0 < j" "j \<le> length ?vs" "p = segs_path (take j ?vs)"
        unfolding seg_prefix_iff[OF assms(1)] by blast
      then have "\<not> k < j" using some(6) p(2) by auto
      then show ?thesis using j(3) some(4) length_segs_mono[of j k ?vs] by simp
    qed
    have "M q0 \<noteq> None" using some(3) by (simp only: some(4)) simp
    with q len some(5) show ?thesis unfolding qq by (intro disjI2 conjI allI impI) assumption+
  qed
qed

section \<open>The table as a contract\<close>

text \<open>What the proxy relies on when it edits the table; \<open>get t\<close> is the current mapping.\<close>

locale prefix_table =
  fixes get :: "'t \<Rightarrow> string \<Rightarrow> balancer option"
    and add :: "string \<Rightarrow> string \<Rightarrow> string list \<Rightarrow> 't \<Rightarrow> (prefix_error option \<times> 't) go"
    and remove :: "string \<Rightarrow> 't \<Rightarrow> 't go"
    and inv :: "'t \<Rightarrow> bool"
  assumes add_supported: "inv t \<Longrightarrow> algo \<in> GetBalancerType \<Longrightarrow> length hosts < 2 ^ 63 \<Longrightarrow>
      \<exists>b t'. add p algo hosts t = Inr (None, t') \<and> inv t' \<and> get t' = (get t)(p \<mapsto> b) \<and> bal_ok b \<and>
        bal_live b \<subseteq> set hosts \<and> (hosts \<noteq> [] \<longrightarrow> bal_live b \<noteq> {}) \<and> bal_Hosts b = hosts \<and> bal_Mode b = algo"
    and add_unsupported: "inv t \<Longrightarrow> algo \<notin> GetBalancerType \<Longrightarrow> add p algo hosts t = Inr (None, t)"
    and remove_returns: "inv t \<Longrightarrow> \<exists>t'. remove p t = Inr t' \<and> inv t' \<and> get t' = (get t)(p := None)"
begin

lemma add_dom:
  assumes "inv t" "length hosts < 2 ^ 63"
  shows "\<exists>t'. add p algo hosts t = Inr (None, t') \<and> inv t' \<and>
    dom (get t') = dom (get t) \<union> (if algo \<in> GetBalancerType then {p} else {})"
proof (cases "algo \<in> GetBalancerType")
  case True
  from add_supported[OF assms(1) True assms(2), of p] obtain b t' where
    "add p algo hosts t = Inr (None, t')" "inv t'" "get t' = (get t)(p \<mapsto> b)" by blast
  with True show ?thesis by (intro exI[of _ t']) simp
next
  case False
  from add_unsupported[OF assms(1) this] assms(1) False show ?thesis by simp
qed

text \<open>A prefix whose algorithm is unknown is dropped without an error.\<close>

lemma add_unknown_silent:
  assumes "inv t" "algo \<notin> GetBalancerType" "get t p = None"
  shows "\<exists>t'. add p algo hosts t = Inr (None, t') \<and> get t' p = None"
  using add_unsupported[OF assms(1,2)] assms(3) by blast

lemma remove_add:
  assumes "inv t" "algo \<in> GetBalancerType" "length hosts < 2 ^ 63"
  shows "\<exists>t' b. go_bind (remove p t) (add p algo hosts) = Inr (None, t') \<and> inv t' \<and>
    get t' = (get t)(p \<mapsto> b) \<and> bal_Hosts b = hosts \<and> bal_Mode b = algo"
proof -
  from remove_returns[OF assms(1), of p] obtain t1 where
    t1: "remove p t = Inr t1" "inv t1" "get t1 = (get t)(p := None)" by blast
  from add_supported[OF t1(2) assms(2,3), of p] obtain b t2 where
    t2: "add p algo hosts t1 = Inr (None, t2)" "inv t2" "get t2 = (get t1)(p \<mapsto> b)"
    "bal_Hosts b = hosts" "bal_Mode b = algo" by blast
  then have "get t2 = (get t)(p \<mapsto> b)" using t1(3) by simp
  with t1(1) t2(1,2,4,5) show ?thesis by (intro exI[of _ t2] exI[of _ b]) simp
qed

end

definition hp_ok :: "HashPrefixer \<Rightarrow> bool" where
  "hp_ok p \<longleftrightarrow> hp_mu p = unlocked \<and> (\<forall>k b. hp_Mapping p k = Some b \<longrightarrow> bal_ok b)"

interpretation hp: prefix_table hp_Mapping hp_Add hp_Remove hp_ok
proof unfold_locales
  fix t algo and hosts :: "string list" and p
  assume t: "hp_ok t" and "algo \<in> GetBalancerType" "length hosts < 2 ^ 63"
  from Balancer_Build_supported[OF this(2,3)] obtain b where
    b: "Balancer_Build algo hosts = Inr (Inr b)" "bal_ok b" "bal_live b \<subseteq> set hosts"
    "hosts \<noteq> [] \<longrightarrow> bal_live b \<noteq> {}" "bal_Hosts b = hosts" "bal_Mode b = algo" by blast
  let ?t = "t\<lparr>hp_Mapping := (hp_Mapping t)(p \<mapsto> b)\<rparr>"
  have "hp_Add p algo hosts t = Inr (None, ?t)"
    using t b(1) by (simp add: hp_Add_def hp_ok_def)
  moreover have "hp_ok ?t" using t b(2) by (simp add: hp_ok_def)
  ultimately show "\<exists>b t'. hp_Add p algo hosts t = Inr (None, t') \<and> hp_ok t' \<and>
      hp_Mapping t' = (hp_Mapping t)(p \<mapsto> b) \<and> bal_ok b \<and>
      bal_live b \<subseteq> set hosts \<and> (hosts \<noteq> [] \<longrightarrow> bal_live b \<noteq> {}) \<and> bal_Hosts b = hosts \<and> bal_Mode b = algo"
    using b(2-) by (intro exI[of _ b] exI[of _ ?t]) simp
next
  fix t algo and hosts :: "string list" and p
  assume "hp_ok t" "algo \<notin> GetBalancerType"
  then show "hp_Add p algo hosts t = Inr (None, t)"
    by (cases t) (simp add: hp_Add_def hp_ok_def Balancer_Build_unsupported)
next
  fix t p
  assume "hp_ok t"
  then show "\<exists>t'. hp_Remove p t = Inr t' \<and> hp_ok t' \<and> hp_Mapping t' = (hp_Mapping t)(p := None)"
    by (simp add: hp_Remove_def hp_ok_def)
qed

section \<open>Routing a request\<close>

lemma MappingPath_returns:
  assumes "hp_ok p" "ch_request_ok r" "hp_match (hp_Mapping p) path = (q, n)"
  shows "\<exists>res p'. MappingPath path r p = Inr (res, p') \<and> hp_ok p' \<and> dom (hp_Mapping p') = dom (hp_Mapping p) \<and>
    (case res of
       Inl e \<Rightarrow> hp_Mapping p q = None \<and> e = PathNotFoundError \<or> (\<exists>b. hp_Mapping p q = Some b \<and> bal_live b = {})
     | Inr (prefix, rest, real) \<Rightarrow> \<exists>b host. prefix = q \<and> hp_Mapping p q = Some b \<and> host \<in> bal_live b \<and>
         rest = drop n path \<and> real = host @ rest)"
proof (cases "hp_Mapping p q")
  case None
  with assms show ?thesis by (simp add: MappingPath_def hp_ok_def)
next
  case (Some b)
  with assms(1) have "bal_ok b" by (simp add: hp_ok_def)
  from bal_select[OF this assms(2), of "''''"] obtain h b' where
    b': "bal_Balance b '''' r = Inr (h, b')" "bal_ok b'"
    "case h of Inl e \<Rightarrow> bal_live b = {} | Inr h \<Rightarrow> h \<in> bal_live b" by (elim exE conjE)
  let ?p = "p\<lparr>hp_Mapping := (hp_Mapping p)(q \<mapsto> b')\<rparr>"
  have ok: "hp_ok ?p" "dom (hp_Mapping ?p) = dom (hp_Mapping p)"
    using assms(1) b'(2) Some by (auto simp: hp_ok_def)
  have n: "\<not> n > length path" using hp_match_bound[OF assms(3)] by simp
  show ?thesis
  proof (cases h)
    case (Inl e)
    have "MappingPath path r p = Inr (Inl (FromBalancer e), ?p)"
      using assms(1,3) Some b'(1) Inl by (simp add: MappingPath_def hp_ok_def)
    with ok Some b'(3) Inl show ?thesis by (intro exI[of _ "Inl (FromBalancer e)"] exI[of _ ?p]) simp
  next
    case (Inr host)
    have "MappingPath path r p = Inr (Inr (q, drop n path, host @ drop n path), ?p)"
      using assms(1,3) Some b'(1) Inr n by (simp add: MappingPath_def hp_ok_def)
    with ok Some b'(3) Inr show ?thesis
      by (intro exI[of _ "Inr (q, drop n path, host @ drop n path)"] exI[of _ ?p]) simp
  qed
qed

text \<open>
  C11: a request goes to the longest registered prefix that ends at a segment of its path, or to
  \<open>/\<close> when there is none; the real path is a live host of that prefix's balancer followed by the
  rest of the path. It never panics.
\<close>

theorem mapping_path_longest_prefix:
  assumes "hp_ok p" "ch_request_ok r" "path = CHR ''/'' # s"
  shows "\<exists>res p'. MappingPath path r p = Inr (res, p') \<and> hp_ok p' \<and> dom (hp_Mapping p') = dom (hp_Mapping p) \<and>
    (case res of
       Inl e \<Rightarrow> e = PathNotFoundError \<and> (\<forall>q. seg_prefix q path \<longrightarrow> hp_Mapping p q = None) \<or>
         (\<exists>q b. hp_Mapping p q = Some b \<and> bal_live b = {} \<and> (q = ''/'' \<or> seg_prefix q path) \<and>
            (\<forall>q'. seg_prefix q' path \<longrightarrow> hp_Mapping p q' \<noteq> None \<longrightarrow> length q' \<le> length q))
     | Inr (prefix, rest, real) \<Rightarrow> \<exists>b host. hp_Mapping p prefix = Some b \<and> host \<in> bal_live b \<and> real = host @ rest \<and>
         (prefix = ''/'' \<and> rest = path \<and> (\<forall>q. seg_prefix q path \<longrightarrow> hp_Mapping p q = None) \<or>
          path = prefix @ rest \<and> seg_prefix prefix path \<and>
            (\<forall>q. seg_prefix q path \<longrightarrow> hp_Mapping p q \<noteq> None \<longrightarrow> length q \<le> length prefix)))"
proof -
  obtain q n where qn: "hp_match (hp_Mapping p) path = (q, n)" by (meson surj_pair)
  note spec = hp_match_correct[OF assms(3) qn]
  from MappingPath_returns[OF assms(1,2) qn] obtain res p' where
    res: "MappingPath path r p = Inr (res, p')" "hp_ok p'" "dom (hp_Mapping p') = dom (hp_Mapping p)"
    "case res of
       Inl e \<Rightarrow> hp_Mapping p q = None \<and> e = PathNotFoundError \<or> (\<exists>b. hp_Mapping p q = Some b \<and> bal_live b = {})
     | Inr (prefix, rest, real) \<Rightarrow> \<exists>b host. prefix = q \<and> hp_Mapping p q = Some b \<and> host \<in> bal_live b \<and>
         rest = drop n path \<and> real = host @ rest" by (elim exE conjE)
  show ?thesis
  proof (cases res)
    case (Inl e)
    have longest: "(q = ''/'' \<or> seg_prefix q path) \<and>
       (\<forall>q'. seg_prefix q' path \<longrightarrow> hp_Mapping p q' \<noteq> None \<longrightarrow> length q' \<le> length q)"
      by (rule disjE[OF spec]; elim conjE) simp_all
    from res(4) Inl have "e = PathNotFoundError \<and> (\<forall>q. seg_prefix q path \<longrightarrow> hp_Mapping p q = None) \<or>
       (\<exists>b. hp_Mapping p q = Some b \<and> bal_live b = {})"
      using spec by (cases "hp_Mapping p q") auto
    with longest have "e = PathNotFoundError \<and> (\<forall>q. seg_prefix q path \<longrightarrow> hp_Mapping p q = None) \<or>
       (\<exists>q b. hp_Mapping p q = Some b \<and> bal_live b = {} \<and> (q = ''/'' \<or> seg_prefix q path) \<and>
            (\<forall>q'. seg_prefix q' path \<longrightarrow> hp_Mapping p q' \<noteq> None \<longrightarrow> length q' \<le> length q))" by blast
    with res(1-3) Inl show ?thesis by (intro exI[of _ res] exI[of _ p']) simp
  next
    case (Inr x)
    obtain prefix rest real where x: "x = (prefix, rest, real)" by (cases x)
    with res(4) Inr obtain b host where b: "prefix = q" "hp_Mapping p q = Some b" "host \<in> bal_live b"
      "rest = drop n path" "real = host @ rest" by auto
    have "prefix = ''/'' \<and> rest = path \<and> (\<forall>q. seg_prefix q path \<longrightarrow> hp_Mapping p q = None) \<or>
        path = prefix @ rest \<and> seg_prefix prefix path \<and>
          (\<forall>q. seg_prefix q path \<longrightarrow> hp_Mapping p q \<noteq> None \<longrightarrow> length q \<le> length prefix)"
      using spec b(1,4) seg_prefix_drop[of q path] by auto
    with res(1-3) Inr x b show ?thesis by (intro exI[of _ res] exI[of _ p']) auto
  qed
qed

definition example_table :: HashPrefixer where
  "example_table = NewHashPrefixer\<lparr>hp_Mapping :=
     [''/api'' \<mapsto> RR (NewRoundRobin [''a:1'']), ''/'' \<mapsto> RR (NewRoundRobin [''b:2''])]\<rparr>"

lemma example_table_ok: "hp_ok example_table"
  by (simp add: example_table_def hp_ok_def NewHashPrefixer_def rr_ok_def NewRoundRobin_def)

theorem mapping_path_longest_prefix_witness:
  "\<exists>res p'. MappingPath ''/api/x'' None example_table = Inr (res, p') \<and> hp_ok p' \<and>
    dom (hp_Mapping p') = dom (hp_Mapping example_table) \<and>
    (case res of
       Inl e \<Rightarrow> e = PathNotFoundError \<and> (\<forall>q. seg_prefix q ''/api/x'' \<longrightarrow> hp_Mapping example_table q = None) \<or>
         (\<exists>q b. hp_Mapping example_table q = Some b \<and> bal_live b = {} \<and> (q = ''/'' \<or> seg_prefix q ''/api/x'') \<and>
            (\<forall>q'. seg_prefix q' ''/api/x'' \<longrightarrow> hp_Mapping example_table q' \<noteq> None \<longrightarrow> length q' \<le> length q))
     | Inr (prefix, rest, real) \<Rightarrow> \<exists>b host. hp_Mapping example_table prefix = Some b \<and> host \<in> bal_live b \<and>
         real = host @ rest \<and>
         (prefix = ''/'' \<and> rest = ''/api/x'' \<and> (\<forall>q. seg_prefix q ''/api/x'' \<longrightarrow> hp_Mapping example_table q = None) \<or>
          ''/api/x'' = prefix @ rest \<and> seg_prefix prefix ''/api/x'' \<and>
            (\<forall>q. seg_prefix q ''/api/x'' \<longrightarrow> hp_Mapping example_table q \<noteq> None \<longrightarrow> length q \<le> length prefix)))"
  by (rule mapping_path_longest_prefix[OF example_table_ok]) (simp_all add: ch_request_ok_def)

text \<open>
  \<open>Add\<close> with an algorithm nobody registered reports success and leaves the table as it was.
\<close>

theorem prefix_add_hides_error:
  assumes "hp_ok p" "algo \<notin> GetBalancerType"
  shows "hp_Add prefix algo hosts p = Inr (None, p)"
  by (rule hp.add_unsupported[OF assms])

theorem prefix_add_hides_error_witness:
  "hp_Add ''/api'' ''least-load'' [''a:1''] example_table = Inr (None, example_table)"
  by (rule prefix_add_hides_error[OF example_table_ok])
     (simp add: GetBalancerType_def balancer_factories_def TypeRoundRobin_def TypeConsistenceHash_def)

end
