(* ===== verification/RateLimiter.thy ===== *)
theory RateLimiter
  imports Prelude
begin

text \<open>
  \<open>src/rate_limiter\<close>: the QPS limiter, a wrapper of \<open>golang.org/x/time/rate\<close>. That library is
  not part of the repository: the record \<open>rate_lib\<close> holds the five functions the wrapper calls,
  and every definition that needs them takes it as an argument. \<open>'l\<close> is the library's limiter,
  \<open>'f\<close> its \<open>Limit\<close> type. Time is an argument of \<open>Allow\<close> and \<open>Wait\<close>.
\<close>

record ('l, 'f) rate_lib =
  NewLimiter :: "'f \<Rightarrow> int \<Rightarrow> 'l"
  Every :: "int \<Rightarrow> 'f"
  LimitOf :: "int \<Rightarrow> 'f"
  Allow :: "'l \<Rightarrow> int \<Rightarrow> bool \<times> 'l"
  WaitFor :: "'l \<Rightarrow> int \<Rightarrow> int \<Rightarrow> bool \<times> 'l"
  Burst :: "'l \<Rightarrow> int"
  Limit :: "'l \<Rightarrow> 'f"
  FloatToInt :: "'f \<Rightarrow> int"

datatype limiter_error =
    ErrLimiterAlreadyExists
  | ErrLimiterTypeNotSupported
  | ErrNoReaminToken

definition rate_INF :: int where "rate_INF = 1000000007"

definition time_Second :: int where "time_Second = 1000000000"

definition time_Millisecond :: int where "time_Millisecond = 1000000"

text \<open>Go's integer division truncates towards zero and panics on a zero divisor.\<close>

definition go_div :: "int \<Rightarrow> int \<Rightarrow> int go" where
  "go_div a b = (if b = 0 then Inl DivideByZero else Inr (sgn a * sgn b * (\<bar>a\<bar> div \<bar>b\<bar>)))"

record LimiterInfo =
  li_Url :: string
  li_Type :: string
  li_Init :: int
  li_Speed :: int

record 'l QpsRateLimiter =
  q_mu :: RWMutex
  q_Limiter :: 'l
  q_Timeout :: int

definition NewQpsRateLimiter :: "('l, 'f) rate_lib \<Rightarrow> 'l QpsRateLimiter" where
  "NewQpsRateLimiter lib =
     \<lparr>q_mu = unlocked, q_Limiter = NewLimiter lib (LimitOf lib rate_INF) rate_INF, q_Timeout = -1\<rparr>"

definition Limiter_Build :: "('l, 'f) rate_lib \<Rightarrow> string \<Rightarrow> limiter_error + 'l QpsRateLimiter" where
  "Limiter_Build lib t =
     (if t = ''qps'' then Inr (NewQpsRateLimiter lib) else Inl ErrLimiterTypeNotSupported)"

definition GetLimiterType :: "string list" where
  "GetLimiterType = [''qps'']"

definition Take ::
  "('l, 'f) rate_lib \<Rightarrow> int \<Rightarrow> 'l QpsRateLimiter \<Rightarrow> limiter_error option \<times> 'l QpsRateLimiter" where
  "Take lib now r =
     (let (ok, l) = Allow lib (q_Limiter r) now
      in (if \<not> ok then Some ErrNoReaminToken else None, r\<lparr>q_Limiter := l\<rparr>))"

definition TakeWithTimeout ::
  "('l, 'f) rate_lib \<Rightarrow> int \<Rightarrow> int \<Rightarrow> 'l QpsRateLimiter \<Rightarrow> limiter_error option \<times> 'l QpsRateLimiter"
where
  "TakeWithTimeout lib timeout now r =
     (let (ok, l) = WaitFor lib (q_Limiter r) timeout now
      in (if \<not> ok then Some ErrNoReaminToken else None, r\<lparr>q_Limiter := l\<rparr>))"

text \<open>\<open>speed\<close> tokens a second: one token every \<open>time.Second / time.Duration(speed)\<close> nanoseconds.\<close>

definition SetRate ::
  "('l, 'f) rate_lib \<Rightarrow> int \<Rightarrow> int \<Rightarrow> 'l QpsRateLimiter \<Rightarrow> 'l QpsRateLimiter go" where
  "SetRate lib init speed r =
     go_bind (go_div time_Second speed) (\<lambda>d. Inr (r\<lparr>q_Limiter := NewLimiter lib (Every lib d) init\<rparr>))"

definition GetVolumn :: "('l, 'f) rate_lib \<Rightarrow> 'l QpsRateLimiter \<Rightarrow> int" where
  "GetVolumn lib r = Burst lib (q_Limiter r)"

definition GetSpeed :: "('l, 'f) rate_lib \<Rightarrow> 'l QpsRateLimiter \<Rightarrow> int" where
  "GetSpeed lib r = FloatToInt lib (Limit lib (q_Limiter r))"

text \<open>\<open>time.Duration(r.Timeout.Milliseconds())\<close>: the number of milliseconds, as nanoseconds.\<close>

definition GetTimeout :: "'l QpsRateLimiter \<Rightarrow> (int \<times> 'l QpsRateLimiter) go" where
  "GetTimeout r =
     go_bind (mu_RLock (q_mu r)) (\<lambda>m.
     go_bind (go_div (q_Timeout r) time_Millisecond) (\<lambda>t. Inr (t, r\<lparr>q_mu := mu_RUnlock m\<rparr>)))"

definition SetTimeout :: "int \<Rightarrow> 'l QpsRateLimiter \<Rightarrow> 'l QpsRateLimiter go" where
  "SetTimeout t r = go_bind (mu_Lock (q_mu r)) (\<lambda>m. Inr (r\<lparr>q_Timeout := t, q_mu := mu_Unlock m\<rparr>))"

section \<open>The rate a limiter gets\<close>

lemma go_div_pos: "0 < b \<Longrightarrow> 0 \<le> a \<Longrightarrow> go_div a b = Inr (a div b)"
  by (cases "a = 0") (simp_all add: go_div_def)

lemma SetRate_pos:
  "0 < speed \<Longrightarrow> SetRate lib init speed r =
     Inr (r\<lparr>q_Limiter := NewLimiter lib (Every lib (time_Second div speed)) init\<rparr>)"
  by (simp add: SetRate_def go_div_pos time_Second_def)

text \<open>
  What the library documents: a limiter made with the limit of an interval that is not positive
  allows every event, and stays such a limiter.
\<close>

definition lib_unlimited :: "('l, 'f) rate_lib \<Rightarrow> bool" where
  "lib_unlimited lib \<longleftrightarrow>
     (\<forall>d b now. d \<le> 0 \<longrightarrow> Allow lib (NewLimiter lib (Every lib d) b) now = (True, NewLimiter lib (Every lib d) b))"

text \<open>
  What the library documents of \<open>Allow\<close>, in interval form: a fresh limiter of burst \<open>b\<close> and one
  token every \<open>d > 0\<close> nanoseconds lets at most \<open>b + (t1 - t0) / d\<close> events through in a span.
\<close>

fun takes ::
  "('l, 'f) rate_lib \<Rightarrow> int list \<Rightarrow> 'l QpsRateLimiter \<Rightarrow> limiter_error option list \<times> 'l QpsRateLimiter" where
  "takes lib [] r = ([], r)"
| "takes lib (now # nows) r =
     (let (e, r1) = Take lib now r; (es, r2) = takes lib nows r1 in (e # es, r2))"

fun allows :: "('l, 'f) rate_lib \<Rightarrow> int list \<Rightarrow> 'l \<Rightarrow> bool list" where
  "allows lib [] l = []"
| "allows lib (now # nows) l = (let (ok, l1) = Allow lib l now in ok # allows lib nows l1)"

definition lib_bucket :: "('l, 'f) rate_lib \<Rightarrow> bool" where
  "lib_bucket lib \<longleftrightarrow>
     (\<forall>d b t0 t1 nows. 0 < d \<longrightarrow> 0 \<le> b \<longrightarrow> t0 \<le> t1 \<longrightarrow> sorted (t0 # nows) \<longrightarrow> (\<forall>n \<in> set nows. n \<le> t1) \<longrightarrow>
        d * int (count_list (allows lib nows (NewLimiter lib (Every lib d) b)) True) \<le> d * b + (t1 - t0))"

lemma takes_allows:
  "map (\<lambda>e. e = None) (fst (takes lib nows r)) = allows lib nows (q_Limiter r)"
  by (induction nows arbitrary: r) (simp_all add: Take_def Let_def split_beta)

lemma unlimited_takes:
  assumes "lib_unlimited lib" "q_Limiter r = NewLimiter lib (Every lib d) b" "d \<le> 0"
  shows "takes lib nows r = (replicate (length nows) None, r)"
proof -
  have "Take lib now r = (None, r)" for now
    using assms by (cases r) (simp add: Take_def lib_unlimited_def)
  then show ?thesis by (induction nows) simp_all
qed

lemma SetRate_takes_bound:
  assumes "lib_bucket lib" "0 < speed" "speed \<le> time_Second" "0 \<le> init" "t0 \<le> t1"
    "sorted (t0 # nows)" "\<forall>n \<in> set nows. n \<le> t1"
  shows "(time_Second div speed) *
      int (count_list (fst (takes lib nows (r\<lparr>q_Limiter := NewLimiter lib (Every lib (time_Second div speed)) init\<rparr>))) None)
      \<le> (time_Second div speed) * init + (t1 - t0)"
proof -
  let ?d = "time_Second div speed"
  let ?r = "r\<lparr>q_Limiter := NewLimiter lib (Every lib ?d) init\<rparr>"
  have d: "0 < ?d" using assms(2,3) by (simp add: pos_imp_zdiv_pos_iff)
  have "count_list es None = count_list (map (\<lambda>e. e = None) es) True" for es :: "limiter_error option list"
    by (induction es) auto
  then have "count_list (fst (takes lib nows ?r)) None = count_list (allows lib nows (q_Limiter ?r)) True"
    by (simp only: takes_allows)
  moreover have "?d * int (count_list (allows lib nows (NewLimiter lib (Every lib ?d) init)) True)
      \<le> ?d * init + (t1 - t0)"
    using assms(1,4-7) d unfolding lib_bucket_def by blast
  ultimately show ?thesis by simp
qed

text \<open>
  After \<open>SetRate init speed\<close> with a speed between one and a thousand million a second,
  the requests let through in a span of time are at most \<open>init\<close> plus one for every
  \<open>10^9 div speed\<close> nanoseconds, however many arrive.
\<close>

theorem rate_is_bounded:
  assumes "lib_bucket lib" "0 < speed" "speed \<le> time_Second" "0 \<le> init" "t0 \<le> t1"
    "sorted (t0 # nows)" "\<forall>n \<in> set nows. n \<le> t1"
  shows "\<exists>r'. SetRate lib init speed r = Inr r' \<and>
    (time_Second div speed) * int (count_list (fst (takes lib nows r')) None)
      \<le> (time_Second div speed) * init + (t1 - t0)"
  using SetRate_pos[OF assms(2), of lib init r] SetRate_takes_bound[OF assms, of r] by blast

section \<open>A library that satisfies both laws\<close>

text \<open>A token bucket: the credit is counted in nanoseconds, an event costs one interval.\<close>

record bucket =
  bk_every :: int
  bk_burst :: int
  bk_credit :: int
  bk_last :: "int option"

definition bk_refill :: "bucket \<Rightarrow> int \<Rightarrow> int" where
  "bk_refill l now = (case bk_last l of None \<Rightarrow> bk_credit l
     | Some t \<Rightarrow> min (bk_every l * bk_burst l) (bk_credit l + max 0 (now - t)))"

definition bk_allow :: "bucket \<Rightarrow> int \<Rightarrow> bool \<times> bucket" where
  "bk_allow l now =
     (if bk_every l \<le> 0 then (True, l)
      else if bk_every l \<le> bk_refill l now
      then (True, l\<lparr>bk_credit := bk_refill l now - bk_every l, bk_last := Some now\<rparr>)
      else (False, l\<lparr>bk_credit := bk_refill l now, bk_last := Some now\<rparr>))"

definition bucket_lib :: "(bucket, int) rate_lib" where
  "bucket_lib = \<lparr>
     NewLimiter = (\<lambda>d b. \<lparr>bk_every = d, bk_burst = b, bk_credit = d * b, bk_last = None\<rparr>),
     Every = (\<lambda>d. d), LimitOf = (\<lambda>n. time_Second div n), Allow = bk_allow,
     WaitFor = (\<lambda>l timeout now. bk_allow l (now + timeout)), Burst = bk_burst, Limit = bk_every,
     FloatToInt = (\<lambda>d. time_Second div d)\<rparr>"

lemma bucket_lib_unlimited: "lib_unlimited bucket_lib"
  by (simp add: lib_unlimited_def bucket_lib_def bk_allow_def)

lemma bucket_events:
  assumes "0 < bk_every l" "bk_last l = Some t" "0 \<le> bk_credit l" "0 \<le> bk_burst l"
    "sorted (t # nows)" "\<forall>n \<in> set nows. n \<le> t1" "t \<le> t1"
  shows "bk_every l * int (count_list (allows bucket_lib nows l) True) \<le> bk_credit l + (t1 - t)"
  using assms
proof (induction nows arbitrary: l t)
  case (Cons n nows)
  let ?c = "bk_refill l n"
  have c: "?c \<le> bk_credit l + (n - t)" "0 \<le> ?c"
    using Cons.prems by (auto simp: bk_refill_def)
  have n: "sorted (n # nows)" "\<forall>x \<in> set nows. x \<le> t1" "n \<le> t1" using Cons.prems by auto
  show ?case
  proof (cases "bk_every l \<le> ?c")
    case True
    let ?l = "l\<lparr>bk_credit := ?c - bk_every l, bk_last := Some n\<rparr>"
    have "bk_every ?l * int (count_list (allows bucket_lib nows ?l) True) \<le> bk_credit ?l + (t1 - n)"
      by (rule Cons.IH) (use Cons.prems True n in auto)
    moreover have "allows bucket_lib (n # nows) l = True # allows bucket_lib nows ?l"
      using Cons.prems(1) True by (simp add: bucket_lib_def bk_allow_def)
    ultimately show ?thesis using c(1) by (simp add: algebra_simps)
  next
    case False
    let ?l = "l\<lparr>bk_credit := ?c, bk_last := Some n\<rparr>"
    have "bk_every ?l * int (count_list (allows bucket_lib nows ?l) True) \<le> bk_credit ?l + (t1 - n)"
      by (rule Cons.IH) (use Cons.prems c n in auto)
    moreover have "allows bucket_lib (n # nows) l = False # allows bucket_lib nows ?l"
      using Cons.prems(1) False by (simp add: bucket_lib_def bk_allow_def)
    ultimately show ?thesis using c(1) by simp
  qed
qed simp

text \<open>A fresh bucket behaves like a full one last looked at when the first event arrives.\<close>

lemma bucket_lib_bucket: "lib_bucket bucket_lib"
  unfolding lib_bucket_def
proof (intro allI impI)
  fix d b t0 t1 :: int and nows
  assume *: "0 < d" "0 \<le> b" "t0 \<le> t1" "sorted (t0 # nows)" "\<forall>n \<in> set nows. n \<le> t1"
  let ?l = "NewLimiter bucket_lib (Every bucket_lib d) b"
  let ?l' = "?l\<lparr>bk_last := Some t0\<rparr>"
  have "allows bucket_lib nows ?l = allows bucket_lib nows ?l'"
  proof (cases nows)
    case (Cons n ns)
    have "bk_refill ?l n = bk_refill ?l' n"
      using *(1,2) by (simp add: bk_refill_def bucket_lib_def)
    then have "bk_allow ?l n = bk_allow ?l' n" using *(1) by (simp add: bk_allow_def bucket_lib_def)
    then show ?thesis using Cons by (simp add: bucket_lib_def)
  qed simp
  moreover have "bk_every ?l' * int (count_list (allows bucket_lib nows ?l') True) \<le> bk_credit ?l' + (t1 - t0)"
    by (rule bucket_events) (use * in \<open>auto simp: bucket_lib_def\<close>)
  ultimately show "d * int (count_list (allows bucket_lib nows ?l) True) \<le> d * b + (t1 - t0)"
    by (simp add: bucket_lib_def)
qed

theorem rate_is_bounded_witness:
  "\<exists>r'. SetRate bucket_lib 2 10 (NewQpsRateLimiter bucket_lib) = Inr r' \<and>
    (time_Second div 10) * int (count_list (fst (takes bucket_lib [5, 5, 5, 100000005] r')) None)
      \<le> (time_Second div 10) * 2 + (100000005 - 5)"
  by (rule rate_is_bounded[OF bucket_lib_bucket]) (simp_all add: time_Second_def)

text \<open>
  Setting a rate of zero tokens a second panics with a division by zero; a limiter with a
  rate above \<open>time.Second\<close> nanoseconds, such as the default \<open>INF\<close>, lets every request through.
\<close>

theorem rate_zero_and_infinite:
  assumes "lib_unlimited lib" "time_Second < speed"
  shows "SetRate lib init 0 r = Inl DivideByZero \<and>
    (\<exists>r'. SetRate lib init speed r = Inr r' \<and> takes lib nows r' = (replicate (length nows) None, r'))"
proof
  show "SetRate lib init 0 r = Inl DivideByZero" by (simp add: SetRate_def go_div_def)
next
  let ?r = "r\<lparr>q_Limiter := NewLimiter lib (Every lib (time_Second div speed)) init\<rparr>"
  have "0 < speed" using assms(2) by (simp add: time_Second_def)
  then have "SetRate lib init speed r = Inr ?r" by (rule SetRate_pos)
  moreover have "time_Second div speed = 0" using assms(2) by (simp add: time_Second_def)
  then have "takes lib nows ?r = (replicate (length nows) None, ?r)"
    using unlimited_takes[OF assms(1), of ?r 0 init nows] by simp
  ultimately show "\<exists>r'. SetRate lib init speed r = Inr r' \<and> takes lib nows r' = (replicate (length nows) None, r')"
    by blast
qed

theorem rate_zero_and_infinite_witness:
  "SetRate bucket_lib 5 0 (NewQpsRateLimiter bucket_lib) = Inl DivideByZero \<and>
    (\<exists>r'. SetRate bucket_lib 5 rate_INF (NewQpsRateLimiter bucket_lib) = Inr r' \<and>
      takes bucket_lib [1, 1, 2] r' = (replicate (length [1 :: int, 1, 2]) None, r'))"
  by (rule rate_zero_and_infinite[OF bucket_lib_unlimited]) (simp add: time_Second_def rate_INF_def)

end
