(* ===== verification/HttpProxy.thy ===== *)
theory HttpProxy
  imports HashPrefixer RateLimiter AccessList
begin

text \<open>
  \<open>src/vermouth/http_proxy.go\<close>: one reverse proxy. The record keeps the exported fields, the
  tables behind them, \<open>px_Shutdown\<close>, whether the \<open>Shutdown\<close> channel was made (it is nil in a proxy
  read from JSON), and \<open>px_serving\<close>, whether the goroutine \<open>Run\<close> starts receives from it. A range over a Go map visits its keys in an order the definitions take as
  a list. A call that faults has no result in \<open>go\<close>. What \<open>AddPrefix\<close> and \<open>SetRateLimit\<close>, which write to the tables
  before they can fault, leave behind then is the second component of their \<open>outcome\<close>.
\<close>

section \<open>What a call leaves behind\<close>

text \<open>The fault a call ends with, if any, and the state it leaves.\<close>

type_synonym 's outcome = "fault option \<times> 's"

definition returned :: "'s outcome \<Rightarrow> 's go" where
  "returned r = (case fst r of None \<Rightarrow> Inr (snd r) | Some f \<Rightarrow> Inl f)"

lemma returned_simps [simp]: "returned (None, s) = Inr s" "returned (Some f, s) = Inl f"
  by (simp_all add: returned_def)

section \<open>Data\<close>

record HttpProxyPathArgs =
  pa_Pattern :: string
  pa_Hosts :: "string list"
  pa_Static :: bool
  pa_BalanceMode :: string

record HttpProxyArgs =
  ha_Port :: int
  ha_PrefixerType :: string
  ha_Paths :: "HttpProxyPathArgs list"

record 'l HttpReverseProxy =
  px_mu :: RWMutex
  px_Port :: int
  px_PrefixerType :: string
  px_Paths :: "string \<Rightarrow> string list option"
  px_BalancerType :: "string \<Rightarrow> string option"
  px_RateLimiterType :: "string \<Rightarrow> LimiterInfo list option"
  px_StaticMapping :: "string \<Rightarrow> bool option"
  px_Acl :: RadixTree
  px_Available :: bool
  px_rateLimiters :: "string \<Rightarrow> 'l QpsRateLimiter option"
  px_prefixMapping :: HashPrefixer
  px_Shutdown :: bool
  px_serving :: bool

text \<open>Reading a Go map gives the zero value where the key is missing.\<close>

definition map_get :: "'v \<Rightarrow> ('k \<Rightarrow> 'v option) \<Rightarrow> 'k \<Rightarrow> 'v" where
  "map_get z m k = (case m k of None \<Rightarrow> z | Some v \<Rightarrow> v)"

definition NewHttpReverseProxy :: "HttpProxyArgs \<Rightarrow> 'l HttpReverseProxy go" where
  "NewHttpReverseProxy args =
     (case Prefixer_Build (ha_PrefixerType args) of
        Inl _ \<Rightarrow> Inl (Panicked ''illgeal prefixer type'')
      | Inr p \<Rightarrow> Inr \<lparr>px_mu = unlocked, px_Port = ha_Port args, px_PrefixerType = ha_PrefixerType args,
          px_Paths = (\<lambda>_. None), px_BalancerType = (\<lambda>_. None), px_RateLimiterType = (\<lambda>_. None),
          px_StaticMapping = (\<lambda>_. None), px_Acl = NewRadixTree, px_Available = True,
          px_rateLimiters = (\<lambda>_. None), px_prefixMapping = p, px_Shutdown = True, px_serving = False\<rparr>)"

section \<open>Starting and stopping\<close>

text \<open>\<open>net.Listen\<close> is the network's: its outcome is an argument. The result says whether it failed.\<close>

definition px_Run :: "bool \<Rightarrow> 'l HttpReverseProxy \<Rightarrow> (bool \<times> 'l HttpReverseProxy) go" where
  "px_Run listen_ok proxy =
     go_bind (mu_Lock (px_mu proxy)) (\<lambda>m.
       if \<not> listen_ok then Inr (True, proxy\<lparr>px_mu := mu_Unlock m\<rparr>)
       else Inr (False, proxy\<lparr>px_mu := mu_Unlock m, px_serving := True\<rparr>))"

text \<open>
  A send on the unbuffered channel waits for ever when nobody receives, and so do both ends of a
  nil channel.
\<close>

definition px_Close :: "'l HttpReverseProxy \<Rightarrow> 'l HttpReverseProxy go" where
  "px_Close proxy = (if px_Shutdown proxy \<and> px_serving proxy then Inr (proxy\<lparr>px_serving := False\<rparr>) else Inl Deadlock)"

definition px_Stop :: "'l HttpReverseProxy \<Rightarrow> 'l HttpReverseProxy go" where
  "px_Stop proxy =
     go_bind (mu_Lock (px_mu proxy)) (\<lambda>m. Inr (proxy\<lparr>px_Available := False, px_mu := mu_Unlock m\<rparr>))"

definition px_Start :: "'l HttpReverseProxy \<Rightarrow> 'l HttpReverseProxy go" where
  "px_Start proxy =
     go_bind (mu_Lock (px_mu proxy)) (\<lambda>m. Inr (proxy\<lparr>px_Available := True, px_mu := mu_Unlock m\<rparr>))"

definition px_changeState :: "int \<Rightarrow> 'l HttpReverseProxy \<Rightarrow> 'l HttpReverseProxy go" where
  "px_changeState state proxy =
     (if state = 1 then px_Start proxy else if state = 2 then px_Stop proxy else px_Close proxy)"

section \<open>Prefixes and hosts\<close>

text \<open>\<open>GetBalancer(prefix).m(...)\<close>: a call on the nil balancer panics.\<close>

definition need_balancer :: "string \<Rightarrow> HashPrefixer \<Rightarrow> balancer go" where
  "need_balancer prefix pm =
     go_bind (hp_GetBalancer prefix pm) (\<lambda>(b, _). case b of None \<Rightarrow> Inl NilDeref | Some b \<Rightarrow> Inr b)"

text \<open>The deferred \<open>Unlock\<close> runs when the call panics, and not while it waits for ever.\<close>

definition px_left :: "RWMutex \<Rightarrow> fault \<Rightarrow> 'l HttpReverseProxy \<Rightarrow> 'l HttpReverseProxy outcome" where
  "px_left m f proxy = (Some f, proxy\<lparr>px_mu := if f = Deadlock \<or> f = Diverges then m else mu_Unlock m\<rparr>)"

definition AddPrefix_outcome ::
  "string \<Rightarrow> string \<Rightarrow> string list \<Rightarrow> bool \<Rightarrow> 'l HttpReverseProxy \<Rightarrow> 'l HttpReverseProxy outcome" where
  "AddPrefix_outcome prefix algo hosts isStatic proxy =
     (case mu_Lock (px_mu proxy) of
        Inl f \<Rightarrow> (Some f, proxy)
      | Inr m \<Rightarrow>
          (case hp_List (px_prefixMapping proxy) of
             Inl f \<Rightarrow> px_left m f proxy
           | Inr (M, pm1) \<Rightarrow>
               if M prefix \<noteq> None then (None, proxy\<lparr>px_mu := mu_Unlock m, px_prefixMapping := pm1\<rparr>)
               else
                 let proxy1 = proxy\<lparr>px_prefixMapping := pm1, px_StaticMapping := (px_StaticMapping proxy)(prefix \<mapsto> isStatic)\<rparr>
                 in case hp_Add prefix algo hosts pm1 of
                      Inl f \<Rightarrow> px_left m f proxy1
                    | Inr (err, pm2) \<Rightarrow>
                        let proxy2 = proxy1\<lparr>px_prefixMapping := pm2,
                              px_BalancerType := (px_BalancerType proxy1)(prefix \<mapsto> algo)\<rparr>
                        in case need_balancer prefix pm2 of
                             Inl f \<Rightarrow> px_left m f proxy2
                           | Inr b \<Rightarrow> (None, proxy2\<lparr>px_mu := mu_Unlock m,
                               px_Paths := (px_Paths proxy2)(prefix \<mapsto> bal_Hosts b)\<rparr>)))"

definition AddPrefix ::
  "string \<Rightarrow> string \<Rightarrow> string list \<Rightarrow> bool \<Rightarrow> 'l HttpReverseProxy \<Rightarrow> 'l HttpReverseProxy go" where
  "AddPrefix prefix algo hosts isStatic proxy = returned (AddPrefix_outcome prefix algo hosts isStatic proxy)"

lemma AddPrefix_eq:
  "AddPrefix prefix algo hosts isStatic proxy =
     go_bind (mu_Lock (px_mu proxy)) (\<lambda>m.
     go_bind (hp_List (px_prefixMapping proxy)) (\<lambda>(M, pm1).
       if M prefix \<noteq> None then Inr (proxy\<lparr>px_mu := mu_Unlock m, px_prefixMapping := pm1\<rparr>)
       else
         go_bind (hp_Add prefix algo hosts pm1) (\<lambda>(err, pm2).
         go_bind (need_balancer prefix pm2) (\<lambda>b.
           Inr (proxy\<lparr>px_mu := mu_Unlock m,
             px_StaticMapping := (px_StaticMapping proxy)(prefix \<mapsto> isStatic),
             px_prefixMapping := pm2,
             px_BalancerType := (px_BalancerType proxy)(prefix \<mapsto> algo),
             px_Paths := (px_Paths proxy)(prefix \<mapsto> bal_Hosts b)\<rparr>)))))"
  by (simp add: AddPrefix_def AddPrefix_outcome_def px_left_def Let_def go_bind_def split: sum.split prod.split)

definition RemovePrefix :: "string \<Rightarrow> 'l HttpReverseProxy \<Rightarrow> 'l HttpReverseProxy go" where
  "RemovePrefix prefix proxy =
     go_bind (mu_Lock (px_mu proxy)) (\<lambda>m.
     go_bind (hp_Remove prefix (px_prefixMapping proxy)) (\<lambda>pm.
       Inr (proxy\<lparr>px_mu := mu_Unlock m,
         px_Paths := (px_Paths proxy)(prefix := None),
         px_BalancerType := (px_BalancerType proxy)(prefix := None),
         px_rateLimiters := (px_rateLimiters proxy)(prefix := None),
         px_RateLimiterType := (px_RateLimiterType proxy)(prefix := None),
         px_prefixMapping := pm\<rparr>)))"

definition GetHosts :: "string \<Rightarrow> 'l HttpReverseProxy \<Rightarrow> (string list \<times> 'l HttpReverseProxy) go" where
  "GetHosts prefix proxy =
     go_bind (mu_RLock (px_mu proxy)) (\<lambda>m.
       Inr (map_get [] (px_Paths proxy) prefix, proxy\<lparr>px_mu := mu_RUnlock m\<rparr>))"

text \<open>The balancer in the table is a pointer: its new state is stored under the prefix.\<close>

definition edit_host ::
  "(string \<Rightarrow> balancer \<Rightarrow> balancer go) \<Rightarrow> string \<Rightarrow> string \<Rightarrow> 'l HttpReverseProxy \<Rightarrow> 'l HttpReverseProxy go" where
  "edit_host f prefix host proxy =
     go_bind (mu_Lock (px_mu proxy)) (\<lambda>m.
     go_bind (need_balancer prefix (px_prefixMapping proxy)) (\<lambda>b.
     go_bind (f host b) (\<lambda>b'.
       Inr (proxy\<lparr>px_mu := mu_Unlock m,
         px_prefixMapping := (px_prefixMapping proxy)
           \<lparr>hp_Mapping := (hp_Mapping (px_prefixMapping proxy))(prefix \<mapsto> b')\<rparr>,
         px_Paths := (px_Paths proxy)(prefix \<mapsto> bal_Hosts b')\<rparr>))))"

definition AddHost :: "string \<Rightarrow> string \<Rightarrow> 'l HttpReverseProxy \<Rightarrow> 'l HttpReverseProxy go" where
  "AddHost prefix host proxy = edit_host bal_Add prefix host proxy"

definition RemoveHost :: "string \<Rightarrow> string \<Rightarrow> 'l HttpReverseProxy \<Rightarrow> 'l HttpReverseProxy go" where
  "RemoveHost prefix host proxy = edit_host bal_Remove prefix host proxy"

definition PrefixExists :: "string \<Rightarrow> 'l HttpReverseProxy \<Rightarrow> bool" where
  "PrefixExists prefix proxy = (px_Paths proxy prefix \<noteq> None)"

definition HostExists :: "string \<Rightarrow> string \<Rightarrow> 'l HttpReverseProxy \<Rightarrow> bool" where
  "HostExists prefix host proxy = (host \<in> set (map_get [] (px_Paths proxy) prefix))"

definition checkPrefixExists :: "string \<Rightarrow> 'l HttpReverseProxy \<Rightarrow> (bool \<times> 'l HttpReverseProxy) go" where
  "checkPrefixExists prefix proxy =
     go_bind (mu_Lock (px_mu proxy)) (\<lambda>m. Inr (px_Paths proxy prefix \<noteq> None, proxy\<lparr>px_mu := mu_Unlock m\<rparr>))"

text \<open>\<open>LoadBalance\<close> answers the empty string when the prefix is unknown or the balancer fails.\<close>

definition LoadBalance :: "string \<Rightarrow> string \<Rightarrow> 'l HttpReverseProxy \<Rightarrow> (string \<times> 'l HttpReverseProxy) go" where
  "LoadBalance prefix balanceUrl proxy =
     go_bind (mu_RLock (px_mu proxy)) (\<lambda>m.
     go_bind (hp_GetBalancer prefix (px_prefixMapping proxy)) (\<lambda>(lb, pm).
       case lb of
         None \<Rightarrow> Inr ('''', proxy\<lparr>px_mu := mu_RUnlock m\<rparr>)
       | Some b \<Rightarrow>
           go_bind (bal_Balance b balanceUrl None) (\<lambda>(res, b').
             Inr (case res of Inl _ \<Rightarrow> '''' | Inr addr \<Rightarrow> addr,
               proxy\<lparr>px_mu := mu_RUnlock m, px_prefixMapping := pm\<lparr>hp_Mapping := (hp_Mapping pm)(prefix \<mapsto> b')\<rparr>\<rparr>))))"

definition changeStatic :: "string \<Rightarrow> 'l HttpReverseProxy \<Rightarrow> 'l HttpReverseProxy go" where
  "changeStatic prefix proxy =
     go_bind (mu_Lock (px_mu proxy)) (\<lambda>m.
       let old = map_get False (px_StaticMapping proxy) prefix
       in Inr (proxy\<lparr>px_mu := mu_Unlock m, px_StaticMapping := (px_StaticMapping proxy)(prefix \<mapsto> \<not> old)\<rparr>))"

definition isStaticResource :: "string \<Rightarrow> 'l HttpReverseProxy \<Rightarrow> bool" where
  "isStaticResource prefix proxy = (px_StaticMapping proxy prefix = Some True)"

definition changeLb :: "string \<Rightarrow> string \<Rightarrow> 'l HttpReverseProxy \<Rightarrow> 'l HttpReverseProxy go" where
  "changeLb prefix lb proxy =
     go_bind (need_balancer prefix (px_prefixMapping proxy)) (\<lambda>b.
       let hosts = bal_Hosts b; static = map_get False (px_StaticMapping proxy) prefix
       in go_bind (RemovePrefix prefix proxy) (AddPrefix prefix lb hosts static))"

section \<open>The access control list\<close>

definition AddBlackList :: "string list \<Rightarrow> 'l HttpReverseProxy \<Rightarrow> 'l HttpReverseProxy go" where
  "AddBlackList ips proxy =
     go_bind (mu_Lock (px_mu proxy)) (\<lambda>m.
     go_bind (acl_add_all ips (px_Acl proxy)) (\<lambda>t. Inr (proxy\<lparr>px_mu := mu_Unlock m, px_Acl := t\<rparr>)))"

definition RemoveBlackList :: "string list \<Rightarrow> 'l HttpReverseProxy \<Rightarrow> 'l HttpReverseProxy go" where
  "RemoveBlackList ips proxy =
     go_bind (mu_Lock (px_mu proxy)) (\<lambda>m.
     go_bind (acl_remove_all ips (px_Acl proxy)) (\<lambda>t. Inr (proxy\<lparr>px_mu := mu_Unlock m, px_Acl := t\<rparr>)))"

section \<open>Rate limiters\<close>

definition compelete_url :: "string \<Rightarrow> string \<Rightarrow> string" where
  "compelete_url prefix apiPath = (if prefix = ''/'' then apiPath else prefix @ apiPath)"

definition createRateLimiter ::
  "('l, 'f) rate_lib \<Rightarrow> string \<Rightarrow> string \<Rightarrow> string \<Rightarrow> int \<Rightarrow> int \<Rightarrow> 'l HttpReverseProxy \<Rightarrow>
     (limiter_error option \<times> 'l HttpReverseProxy) go" where
  "createRateLimiter lib prefix apiPath limiterType init speed proxy =
     go_bind (mu_Lock (px_mu proxy)) (\<lambda>m.
       let compeleteUrl = compelete_url prefix apiPath
       in case Limiter_Build lib limiterType of
            Inl err \<Rightarrow> Inr (Some err, proxy\<lparr>px_mu := mu_Unlock m\<rparr>)
          | Inr limiter \<Rightarrow>
              let infos = map_get [] (px_RateLimiterType proxy) prefix @
                    [\<lparr>li_Url = apiPath, li_Type = limiterType, li_Init = init, li_Speed = speed\<rparr>]
              in go_bind (SetRate lib init speed limiter) (\<lambda>limiter1.
                   Inr (None, proxy\<lparr>px_mu := mu_Unlock m,
                     px_rateLimiters := (px_rateLimiters proxy)(compeleteUrl \<mapsto> limiter1),
                     px_RateLimiterType := (px_RateLimiterType proxy)(prefix \<mapsto> infos)\<rparr>)))"

text \<open>The first info of the path gets the new rate.\<close>

fun set_info :: "string \<Rightarrow> int \<Rightarrow> int \<Rightarrow> LimiterInfo list \<Rightarrow> LimiterInfo list" where
  "set_info apiPath init speed [] = []"
| "set_info apiPath init speed (info # infos) =
     (if li_Url info = apiPath then info\<lparr>li_Init := init, li_Speed := speed\<rparr> # infos
      else info # set_info apiPath init speed infos)"

text \<open>The info of the path is written before the division by the speed, and before the wait for the lock.\<close>

definition SetRateLimit_outcome ::
  "('l, 'f) rate_lib \<Rightarrow> string \<Rightarrow> string \<Rightarrow> string \<Rightarrow> int \<Rightarrow> int \<Rightarrow> 'l HttpReverseProxy \<Rightarrow> 'l HttpReverseProxy outcome"
where
  "SetRateLimit_outcome lib prefix apiPath limiterType init speed proxy =
     (case mu_Lock (px_mu proxy) of
        Inl f \<Rightarrow> (Some f, proxy)
      | Inr m \<Rightarrow>
          let compeleteUrl = compelete_url prefix apiPath
          in case px_rateLimiters proxy compeleteUrl of
               None \<Rightarrow>
                 (case createRateLimiter lib prefix apiPath limiterType init speed (proxy\<lparr>px_mu := m\<rparr>) of
                    Inl f \<Rightarrow> px_left m f proxy
                  | Inr (err, proxy1) \<Rightarrow> (None, proxy1\<lparr>px_mu := mu_Unlock (px_mu proxy1)\<rparr>))
             | Some limiter \<Rightarrow>
                 let proxy1 = proxy\<lparr>px_RateLimiterType := (case px_RateLimiterType proxy prefix of
                         None \<Rightarrow> px_RateLimiterType proxy
                       | Some infos \<Rightarrow> (px_RateLimiterType proxy)(prefix \<mapsto> set_info apiPath init speed infos))\<rparr>
                 in case SetRate lib init speed limiter of
                      Inl f \<Rightarrow> px_left m f proxy1
                    | Inr limiter1 \<Rightarrow> (None, proxy1\<lparr>px_mu := mu_Unlock m,
                        px_rateLimiters := (px_rateLimiters proxy1)(compeleteUrl \<mapsto> limiter1)\<rparr>))"

definition SetRateLimit ::
  "('l, 'f) rate_lib \<Rightarrow> string \<Rightarrow> string \<Rightarrow> string \<Rightarrow> int \<Rightarrow> int \<Rightarrow> 'l HttpReverseProxy \<Rightarrow> 'l HttpReverseProxy go"
where
  "SetRateLimit lib prefix apiPath limiterType init speed proxy =
     returned (SetRateLimit_outcome lib prefix apiPath limiterType init speed proxy)"

lemma SetRateLimit_eq:
  "SetRateLimit lib prefix apiPath limiterType init speed proxy =
     go_bind (mu_Lock (px_mu proxy)) (\<lambda>m.
       let compeleteUrl = compelete_url prefix apiPath; locked = proxy\<lparr>px_mu := m\<rparr>
       in case px_rateLimiters proxy compeleteUrl of
            None \<Rightarrow>
              go_bind (createRateLimiter lib prefix apiPath limiterType init speed locked) (\<lambda>(err, proxy1).
                Inr (proxy1\<lparr>px_mu := mu_Unlock (px_mu proxy1)\<rparr>))
          | Some limiter \<Rightarrow>
              go_bind (SetRate lib init speed limiter) (\<lambda>limiter1.
                Inr (proxy\<lparr>px_mu := mu_Unlock m,
                  px_RateLimiterType := (case px_RateLimiterType proxy prefix of
                      None \<Rightarrow> px_RateLimiterType proxy
                    | Some infos \<Rightarrow> (px_RateLimiterType proxy)(prefix \<mapsto> set_info apiPath init speed infos)),
                  px_rateLimiters := (px_rateLimiters proxy)(compeleteUrl \<mapsto> limiter1)\<rparr>)))"
  by (simp add: SetRateLimit_def SetRateLimit_outcome_def px_left_def Let_def go_bind_def split: sum.split prod.split option.split)

text \<open>
  A rate for a path without limiter leaves the lock held for ever; the speed 0 leaves its info and panics; a prefix
  with an unknown algorithm leaves its algorithm and its static flag, and panics.
\<close>

lemma SetRateLimit_leaves:
  assumes "px_mu proxy = unlocked"
  shows "px_rateLimiters proxy (compelete_url prefix apiPath) = None \<Longrightarrow>
      SetRateLimit_outcome lib prefix apiPath ty init speed proxy = (Some Deadlock, proxy\<lparr>px_mu := \<lparr>w_held = True, r_count = 0\<rparr>\<rparr>)"
    and "px_rateLimiters proxy (compelete_url prefix apiPath) = Some l \<Longrightarrow> px_RateLimiterType proxy prefix = Some infos \<Longrightarrow>
      SetRateLimit_outcome lib prefix apiPath ty init 0 proxy = (Some DivideByZero, proxy\<lparr>px_RateLimiterType :=
        (px_RateLimiterType proxy)(prefix \<mapsto> set_info apiPath init 0 infos)\<rparr>)"
proof -
  have freed: "(px\<lparr>px_mu := unlocked\<rparr>) = px" if "px_mu px = unlocked" for px :: "'a HttpReverseProxy"
    using that by (cases px) simp
  show "px_rateLimiters proxy (compelete_url prefix apiPath) = None \<Longrightarrow>
      SetRateLimit_outcome lib prefix apiPath ty init speed proxy = (Some Deadlock, proxy\<lparr>px_mu := \<lparr>w_held = True, r_count = 0\<rparr>\<rparr>)"
    using assms by (simp add: SetRateLimit_outcome_def createRateLimiter_def mu_Lock_def unlocked_def px_left_def Let_def)
  show "px_rateLimiters proxy (compelete_url prefix apiPath) = Some l \<Longrightarrow> px_RateLimiterType proxy prefix = Some infos \<Longrightarrow>
      SetRateLimit_outcome lib prefix apiPath ty init 0 proxy = (Some DivideByZero, proxy\<lparr>px_RateLimiterType :=
        (px_RateLimiterType proxy)(prefix \<mapsto> set_info apiPath init 0 infos)\<rparr>)"
    using assms freed[of "proxy\<lparr>px_RateLimiterType := (px_RateLimiterType proxy)(prefix \<mapsto> set_info apiPath init 0 infos)\<rparr>"]
    by (simp add: SetRateLimit_outcome_def px_left_def Let_def SetRate_def go_div_def)
qed

lemma AddPrefix_leaves:
  assumes "px_mu proxy = unlocked" "hp_mu (px_prefixMapping proxy) = unlocked" "hp_Mapping (px_prefixMapping proxy) prefix = None"
    "algo \<noteq> TypeRoundRobin" "algo \<noteq> TypeConsistenceHash"
  shows "AddPrefix_outcome prefix algo hosts isStatic proxy = (Some NilDeref, proxy\<lparr>
    px_StaticMapping := (px_StaticMapping proxy)(prefix \<mapsto> isStatic),
    px_BalancerType := (px_BalancerType proxy)(prefix \<mapsto> algo)\<rparr>)"
proof -
  let ?pm = "px_prefixMapping proxy"
  have pm: "?pm\<lparr>hp_mu := unlocked\<rparr> = ?pm" using assms(2) by (cases ?pm) simp
  have px: "px\<lparr>px_mu := unlocked\<rparr> = px" if "px_mu px = unlocked" for px :: "'a HttpReverseProxy"
    using that by (cases px) simp
  have same: "px\<lparr>px_prefixMapping := px_prefixMapping px\<rparr> = px" for px :: "'a HttpReverseProxy" by (cases px) simp
  have "Balancer_Build algo hosts = Inr (Inl AlgorithmNotSupportedError)"
    by (rule Balancer_Build_unsupported) (use assms(4,5) in \<open>simp add: GetBalancerType_def balancer_factories_def\<close>)
  then have calls: "hp_List ?pm = Inr (hp_Mapping ?pm, ?pm)" "hp_Add prefix algo hosts ?pm = Inr (None, ?pm)"
    "need_balancer prefix ?pm = Inl NilDeref"
    using assms(2,3) pm by (simp_all add: hp_List_def hp_Add_def need_balancer_def hp_GetBalancer_def)
  let ?left = "proxy\<lparr>px_StaticMapping := (px_StaticMapping proxy)(prefix \<mapsto> isStatic),
    px_BalancerType := (px_BalancerType proxy)(prefix \<mapsto> algo)\<rparr>"
  have "px_prefixMapping ?left = ?pm" "px_mu ?left = unlocked" using assms(1) by simp_all
  with same[of ?left] px[of ?left] show ?thesis
    using assms(1,3) calls by (simp add: AddPrefix_outcome_def px_left_def Let_def)
qed

end
