(* ===== verification/ServeRequest.thy ===== *)
theory ServeRequest
  imports HttpProxy
begin

text \<open>
  The path of a request through a proxy (\<open>ServeHTTP\<close> and \<open>forwardToSpecficPath\<close> of
  \<open>src/vermouth/http_proxy.go\<close>). The answer is what the proxy writes itself, or the request it
  hands to Go's \<open>httputil.ReverseProxy\<close> with the fields its director sets.
\<close>

record forwarded =
  fw_Host :: string
  fw_Path :: string
  fw_Method :: string
  fw_XForwardedHost :: string
  fw_XOriginHost :: string

datatype response = Response int string | Proxied forwarded

definition IllegalPortError :: string where
  "IllegalPortError = ''illegal server Port, please ensure it's integer''"

definition ForbiddenAccessSystem :: string where
  "ForbiddenAccessSystem = ''You're forbidden to access the system''"

text \<open>The texts of the errors the handler writes out.\<close>

fun balancer_error_text :: "balancer_error \<Rightarrow> string" where
  "balancer_error_text NoHostError = ''no host''"
| "balancer_error_text AlgorithmNotSupportedError = ''algorithm not supported''"
| "balancer_error_text CantFindAnyHost = ''can't find any host''"

fun prefix_error_text :: "prefix_error \<Rightarrow> string" where
  "prefix_error_text PrefixerTypeNotSupportedError = ''Unknown prefixer type''"
| "prefix_error_text PathNotFoundError = ''Path not found, please check prefix''"
| "prefix_error_text (FromBalancer e) = balancer_error_text e"

definition limiter_error_text :: "limiter_error \<Rightarrow> string" where
  "limiter_error_text e =
     (case e of ErrLimiterAlreadyExists \<Rightarrow> ''limiter already exists''
      | ErrLimiterTypeNotSupported \<Rightarrow> ''limiter type not supported''
      | ErrNoReaminToken \<Rightarrow> ''The token has been used up'')"

text \<open>\<open>host:port/path\<close> is cut at the first slash and the first colon; port 80 when there is none.\<close>

definition forwardToSpecficPath :: "request \<Rightarrow> string \<Rightarrow> response" where
  "forwardToSpecficPath r rawPath =
     (let i = Index rawPath CHR ''/'';
          index = (if i = -1 then length rawPath else nat i);
          apiUrl = drop index rawPath;
          serverAddr = take index rawPath;
          split = Split CHR '':'' serverAddr;
          host = split ! 0
      in case (if length split = 1 then Some 80 else Atoi (split ! 1)) of
           None \<Rightarrow> Response 200 IllegalPortError
         | Some port \<Rightarrow> Proxied \<lparr>fw_Host = host @ '':'' @ Itoa port, fw_Path = apiUrl,
             fw_Method = r_method r, fw_XForwardedHost = r_host r, fw_XOriginHost = host\<rparr>)"

text \<open>The third step: static prefixes have no limiter; others take a token, making a limiter first.\<close>

definition check_rate ::
  "('l, 'f) rate_lib \<Rightarrow> int \<Rightarrow> string \<Rightarrow> string \<Rightarrow> 'l HttpReverseProxy \<Rightarrow>
     (limiter_error option \<times> 'l HttpReverseProxy) go" where
  "check_rate lib now prefix apiPath proxy =
     (if isStaticResource prefix proxy then Inr (None, proxy)
      else
        let compeletePath = compelete_url prefix apiPath
        in go_bind
             (case px_rateLimiters proxy compeletePath of
                Some _ \<Rightarrow> Inr proxy
              | None \<Rightarrow>
                  go_bind (createRateLimiter lib prefix apiPath ''qps'' rate_INF rate_INF proxy) (\<lambda>(err, proxy1).
                    case err of None \<Rightarrow> Inr proxy1
                    | Some _ \<Rightarrow> Inl (Panicked ''can't create rate limiter'')))
             (\<lambda>proxy1. case px_rateLimiters proxy1 compeletePath of
                None \<Rightarrow> Inl NilDeref
              | Some limiter \<Rightarrow>
                  (let (err, limiter1) = Take lib now limiter
                   in Inr (err, proxy1\<lparr>px_rateLimiters := (px_rateLimiters proxy1)(compeletePath \<mapsto> limiter1)\<rparr>))))"

definition ServeHTTP ::
  "('l, 'f) rate_lib \<Rightarrow> bool \<Rightarrow> int \<Rightarrow> request \<Rightarrow> 'l HttpReverseProxy \<Rightarrow> (response \<times> 'l HttpReverseProxy) go"
where
  "ServeHTTP lib peer_available now r proxy =
     (if \<not> px_Available proxy \<or> \<not> peer_available then Inr (Response 404 '''', proxy)
      else
        go_bind (AccessControl (px_Acl proxy) (RemoteIp r)) (\<lambda>forbidden.
          if forbidden then Inr (Response 403 ForbiddenAccessSystem, proxy)
          else
            go_bind (MappingPath (r_path r) (Some r) (px_prefixMapping proxy)) (\<lambda>(res, pm).
              let proxy1 = proxy\<lparr>px_prefixMapping := pm\<rparr>
              in case res of
                   Inl err \<Rightarrow> Inr (Response 200 (prefix_error_text err), proxy1)
                 | Inr (prefix, apiPath, realPath) \<Rightarrow>
                     go_bind (check_rate lib now prefix apiPath proxy1) (\<lambda>(err, proxy2).
                       case err of
                         Some e \<Rightarrow> Inr (Response 200 (limiter_error_text e), proxy2)
                       | None \<Rightarrow> Inr (forwardToSpecficPath r realPath, proxy2)))))"

section \<open>Forwarding\<close>

lemma forward_host_port:
  assumes "CHR ''/'' \<notin> set host" "CHR '':'' \<notin> set host" "int64_min \<le> p" "p \<le> int64_max"
    "rest = [] \<or> (\<exists>t. rest = CHR ''/'' # t)"
  shows "forwardToSpecficPath r (host @ '':'' @ Itoa p @ rest) =
    Proxied \<lparr>fw_Host = host @ '':'' @ Itoa p, fw_Path = rest, fw_Method = r_method r,
      fw_XForwardedHost = r_host r, fw_XOriginHost = host\<rparr>"
proof -
  let ?addr = "host @ '':'' @ Itoa p" and ?raw = "host @ '':'' @ Itoa p @ rest"
  have slash: "CHR ''/'' \<notin> set ?addr" using assms(1) Itoa_no_sep[of "CHR ''/''"] by simp
  have colon: "CHR '':'' \<notin> set (Itoa p)" using Itoa_no_sep[of "CHR '':''"] by simp
  have raw: "?raw = ?addr @ rest" by simp
  have tw: "takeWhile (\<lambda>x. x \<noteq> CHR ''/'') (?addr @ rest) = ?addr"
    using slash assms(5) by (subst takeWhile_append2) auto
  have index: "(if Index ?raw CHR ''/'' = -1 then length ?raw else nat (Index ?raw CHR ''/'')) = length ?addr"
  proof (cases rest)
    case Nil
    with slash have "Index ?raw CHR ''/'' = -1" by (simp add: Index_takeWhile)
    with Nil show ?thesis by simp
  next
    case (Cons x xs)
    with assms(5) have "CHR ''/'' \<in> set ?raw" by auto
    then have "Index ?raw CHR ''/'' = int (length ?addr)" unfolding Index_takeWhile raw tw by simp
    then show ?thesis by simp
  qed
  have "Split CHR '':'' ?addr = [host, Itoa p]"
    using Split_append_sep[OF assms(2), of "Itoa p"] Split_no_sep_single[OF colon] by simp
  then show ?thesis
    unfolding forwardToSpecficPath_def Let_def index
    using Atoi_Itoa[OF assms(3,4)] by simp
qed

section \<open>The access check comes first\<close>

lemma ServeHTTP_forbidden:
  assumes "px_Available proxy" "AccessControl (px_Acl proxy) (RemoteIp r) = Inr True"
  shows "ServeHTTP lib True now r proxy = Inr (Response 403 ForbiddenAccessSystem, proxy)"
  using assms by (simp add: ServeHTTP_def)

section \<open>Rate limiting a path\<close>

lemma createRateLimiter_default:
  assumes "px_mu proxy = unlocked"
  shows "createRateLimiter lib prefix apiPath ''qps'' rate_INF rate_INF proxy =
    Inr (None, proxy\<lparr>
      px_rateLimiters := (px_rateLimiters proxy)(compelete_url prefix apiPath \<mapsto>
        (NewQpsRateLimiter lib)\<lparr>q_Limiter := NewLimiter lib (Every lib 0) rate_INF\<rparr>),
      px_RateLimiterType := (px_RateLimiterType proxy)(prefix \<mapsto> map_get [] (px_RateLimiterType proxy) prefix @
        [\<lparr>li_Url = apiPath, li_Type = ''qps'', li_Init = rate_INF, li_Speed = rate_INF\<rparr>])\<rparr>)"
  using assms SetRate_pos[of rate_INF lib rate_INF "NewQpsRateLimiter lib"]
  by (simp add: createRateLimiter_def Limiter_Build_def Let_def rate_INF_def time_Second_def)

lemma check_rate_new_path:
  assumes "px_mu proxy = unlocked" "lib_unlimited lib" "px_rateLimiters proxy (compelete_url prefix apiPath) = None"
  shows "\<exists>proxy'. check_rate lib now prefix apiPath proxy = Inr (None, proxy') \<and>
    px_mu proxy' = unlocked \<and> px_Acl proxy' = px_Acl proxy \<and> px_prefixMapping proxy' = px_prefixMapping proxy \<and>
    px_Available proxy' = px_Available proxy"
proof (cases "isStaticResource prefix proxy")
  case True
  with assms(1) show ?thesis by (simp add: check_rate_def)
next
  case False
  have "fst (Allow lib (NewLimiter lib (Every lib 0) rate_INF) now)"
    using assms(2) by (simp add: lib_unlimited_def)
  with False assms(1,3) show ?thesis
    by (simp add: check_rate_def createRateLimiter_default[OF assms(1)] Take_def Let_def split_beta)
qed

end
