(* ===== verification/ProxyTables.thy ===== *)
theory ProxyTables
  imports HttpProxy
begin

text \<open>
  An abstract view of a proxy's tables: which hosts each prefix has, and which prefixes are
  static. Every edit of the proxy implements an edit of this view, and fails exactly when the
  view says so, for prefixes balanced round-robin.
\<close>

section \<open>Edits and the abstract table\<close>

datatype edit =
    EAddPrefix string string "string list" bool
  | ERemovePrefix string
  | EAddHost string string
  | ERemoveHost string string
  | EChangeStatic string
  | EChangeLb string string
  | ELoadBalance string string

fun edit_apply :: "edit \<Rightarrow> 'l HttpReverseProxy \<Rightarrow> 'l HttpReverseProxy go" where
  "edit_apply (EAddPrefix p algo hosts static) px = AddPrefix p algo hosts static px"
| "edit_apply (ERemovePrefix p) px = RemovePrefix p px"
| "edit_apply (EAddHost p h) px = AddHost p h px"
| "edit_apply (ERemoveHost p h) px = RemoveHost p h px"
| "edit_apply (EChangeStatic p) px = changeStatic p px"
| "edit_apply (EChangeLb p lb) px = changeLb p lb px"
| "edit_apply (ELoadBalance p url) px = go_bind (LoadBalance p url px) (\<lambda>(addr, px). Inr px)"

record view =
  v_hosts :: "string \<Rightarrow> string list option"
  v_static :: "string \<Rightarrow> bool option"

definition new_view :: view where
  "new_view = \<lparr>v_hosts = (\<lambda>_. None), v_static = (\<lambda>_. None)\<rparr>"

text \<open>\<open>None\<close> is the panic of a call on a nil balancer.\<close>

fun view_edit :: "edit \<Rightarrow> view \<Rightarrow> view option" where
  "view_edit (EAddPrefix p algo hosts static) v =
     (if v_hosts v p \<noteq> None then Some v
      else if algo = TypeRoundRobin
      then Some (v\<lparr>v_hosts := (v_hosts v)(p \<mapsto> hosts), v_static := (v_static v)(p \<mapsto> static)\<rparr>)
      else None)"
| "view_edit (ERemovePrefix p) v = Some (v\<lparr>v_hosts := (v_hosts v)(p := None)\<rparr>)"
| "view_edit (EAddHost p h) v =
     (case v_hosts v p of None \<Rightarrow> None
      | Some hs \<Rightarrow> Some (v\<lparr>v_hosts := (v_hosts v)(p \<mapsto> (if h \<in> set hs then hs else hs @ [h]))\<rparr>))"
| "view_edit (ERemoveHost p h) v =
     (case v_hosts v p of None \<Rightarrow> None
      | Some hs \<Rightarrow> Some (v\<lparr>v_hosts := (v_hosts v)(p \<mapsto> remove1 h hs)\<rparr>))"
| "view_edit (EChangeStatic p) v =
     Some (v\<lparr>v_static := (v_static v)(p \<mapsto> v_static v p \<noteq> Some True)\<rparr>)"
| "view_edit (EChangeLb p lb) v =
     (case v_hosts v p of None \<Rightarrow> None
      | Some hs \<Rightarrow> if lb = TypeRoundRobin
          then Some (v\<lparr>v_static := (v_static v)(p \<mapsto> v_static v p = Some True)\<rparr>) else None)"
| "view_edit (ELoadBalance p url) v = Some v"

fun view_edits :: "edit list \<Rightarrow> view \<Rightarrow> view option" where
  "view_edits [] v = Some v"
| "view_edits (e # es) v = (case view_edit e v of None \<Rightarrow> None | Some v' \<Rightarrow> view_edits es v')"

text \<open>The edits the view covers: no prefix is put on a consistent-hash ring.\<close>

fun rr_edit :: "edit \<Rightarrow> bool" where
  "rr_edit (EAddPrefix p algo hosts static) = (algo \<noteq> TypeConsistenceHash \<and> length hosts < 2 ^ 63)"
| "rr_edit (EChangeLb p lb) = (lb \<noteq> TypeConsistenceHash)"
| "rr_edit _ = True"

section \<open>The simulation relation\<close>

text \<open>All tables of the proxy say the same, and every lock is free.\<close>

definition entry_ok :: "string list option \<Rightarrow> balancer option \<Rightarrow> string list option \<Rightarrow> string option \<Rightarrow> bool" where
  "entry_ok hs b paths lb =
     (case hs of
        None \<Rightarrow> b = None \<and> paths = None \<and> lb = None
      | Some hs \<Rightarrow> (\<exists>r. b = Some (RR r) \<and> rr_mu r = unlocked \<and> rr_hosts r = hs) \<and>
          paths = Some hs \<and> lb = Some TypeRoundRobin)"

definition shows_view :: "'l HttpReverseProxy \<Rightarrow> view \<Rightarrow> bool" where
  "shows_view px v \<longleftrightarrow>
     px_mu px = unlocked \<and> hp_mu (px_prefixMapping px) = unlocked \<and> px_StaticMapping px = v_static v \<and>
     (\<forall>p. entry_ok (v_hosts v p) (hp_Mapping (px_prefixMapping px) p) (px_Paths px p) (px_BalancerType px p))"

lemma entry_ok_None [simp]: "entry_ok None b paths lb \<longleftrightarrow> b = None \<and> paths = None \<and> lb = None"
  by (simp add: entry_ok_def)

lemma entry_ok_Some:
  "entry_ok (Some hs) b paths lb \<longleftrightarrow>
     (\<exists>r. b = Some (RR r) \<and> rr_mu r = unlocked \<and> rr_hosts r = hs) \<and> paths = Some hs \<and> lb = Some TypeRoundRobin"
  by (simp add: entry_ok_def)

lemma shows_viewD:
  assumes "shows_view px v"
  shows "px_mu px = unlocked" "hp_mu (px_prefixMapping px) = unlocked" "px_StaticMapping px = v_static v"
    "entry_ok (v_hosts v p) (hp_Mapping (px_prefixMapping px) p) (px_Paths px p) (px_BalancerType px p)"
  using assms by (simp_all add: shows_view_def)

lemma shows_view_mapping_None:
  assumes "shows_view px v"
  shows "hp_Mapping (px_prefixMapping px) p = None \<longleftrightarrow> v_hosts v p = None"
  using shows_viewD(4)[OF assms, of p] by (cases "v_hosts v p") (auto simp: entry_ok_Some)

lemma shows_view_Paths:
  assumes "shows_view px v"
  shows "px_Paths px = v_hosts v"
proof
  fix p show "px_Paths px p = v_hosts v p"
    using shows_viewD(4)[OF assms, of p] by (cases "v_hosts v p") (simp_all add: entry_ok_Some)
qed

lemma shows_view_balancer:
  assumes "shows_view px v" "v_hosts v p = Some hs"
  obtains r where "hp_Mapping (px_prefixMapping px) p = Some (RR r)" "rr_mu r = unlocked" "rr_hosts r = hs"
  using shows_viewD(4)[OF assms(1), of p] assms(2) by (auto simp: entry_ok_Some)

lemma need_balancer_view:
  assumes "shows_view px v"
  shows "need_balancer p (px_prefixMapping px) =
    (case hp_Mapping (px_prefixMapping px) p of None \<Rightarrow> Inl NilDeref | Some b \<Rightarrow> Inr b)"
  using shows_viewD(2)[OF assms] by (simp add: need_balancer_def hp_GetBalancer_def)

lemma hp_same [simp]: "hp_mu pm = unlocked \<Longrightarrow> pm\<lparr>hp_mu := unlocked\<rparr> = pm"
  by (cases pm) simp

text \<open>Building a round-robin balancer, or not knowing the algorithm.\<close>

lemma hp_Add_rr:
  assumes "hp_mu pm = unlocked" "algo \<noteq> TypeConsistenceHash"
  shows "hp_Add p algo hosts pm = Inr (None, if algo = TypeRoundRobin
    then pm\<lparr>hp_Mapping := (hp_Mapping pm)(p \<mapsto> RR (NewRoundRobin hosts))\<rparr> else pm)"
  using assms
  by (auto simp: hp_Add_def Balancer_Build_def balancer_factories_def TypeRoundRobin_def TypeConsistenceHash_def)

section \<open>Every edit simulates its abstract edit\<close>

lemma AddPrefix_simulates:
  assumes "shows_view px v" "algo \<noteq> TypeConsistenceHash"
  shows "case view_edit (EAddPrefix p algo hosts static) v of
      None \<Rightarrow> AddPrefix p algo hosts static px = Inl NilDeref
    | Some v' \<Rightarrow> \<exists>px'. AddPrefix p algo hosts static px = Inr px' \<and> shows_view px' v'"
proof (cases "v_hosts v p")
  case (Some hs)
  then have "hp_Mapping (px_prefixMapping px) p \<noteq> None" using shows_view_mapping_None[OF assms(1)] by simp
  then have "AddPrefix p algo hosts static px = Inr (px\<lparr>px_mu := unlocked, px_prefixMapping := px_prefixMapping px\<rparr>)"
    using shows_viewD(1,2)[OF assms(1)] by (simp add: AddPrefix_eq hp_List_def)
  also have "px\<lparr>px_mu := unlocked, px_prefixMapping := px_prefixMapping px\<rparr> = px"
    using shows_viewD(1)[OF assms(1)] by (cases px) simp
  finally show ?thesis using Some assms(1) by simp
next
  case None
  note d = shows_viewD[OF assms(1)]
  have M: "hp_Mapping (px_prefixMapping px) p = None" using None shows_view_mapping_None[OF assms(1)] by simp
  show ?thesis
  proof (cases "algo = TypeRoundRobin")
    case True
    let ?pm = "(px_prefixMapping px)\<lparr>hp_Mapping :=
      (hp_Mapping (px_prefixMapping px))(p \<mapsto> RR (NewRoundRobin hosts))\<rparr>"
    let ?px = "px\<lparr>px_mu := unlocked, px_StaticMapping := (px_StaticMapping px)(p \<mapsto> static),
      px_prefixMapping := ?pm, px_BalancerType := (px_BalancerType px)(p \<mapsto> algo),
      px_Paths := (px_Paths px)(p \<mapsto> hosts)\<rparr>"
    have "AddPrefix p algo hosts static px = Inr ?px"
      using d(1,2) M hp_Add_rr[OF d(2) assms(2), of p hosts] True
      by (simp add: AddPrefix_eq hp_List_def need_balancer_def hp_GetBalancer_def rr_Hosts_def NewRoundRobin_def)
    moreover have "shows_view ?px (v\<lparr>v_hosts := (v_hosts v)(p \<mapsto> hosts), v_static := (v_static v)(p \<mapsto> static)\<rparr>)"
      using d by (simp add: shows_view_def entry_ok_Some True NewRoundRobin_def)
    ultimately show ?thesis using None True by simp
  next
    case False
    have "AddPrefix p algo hosts static px = Inl NilDeref"
      using d(1,2) M hp_Add_rr[OF d(2) assms(2), of p hosts] False
      by (simp add: AddPrefix_eq hp_List_def need_balancer_def hp_GetBalancer_def)
    with None False show ?thesis by simp
  qed
qed

lemma RemovePrefix_simulates:
  assumes "shows_view px v"
  shows "\<exists>px'. RemovePrefix p px = Inr px' \<and> shows_view px' (v\<lparr>v_hosts := (v_hosts v)(p := None)\<rparr>)"
  using shows_viewD[OF assms] by (simp add: RemovePrefix_def hp_Remove_def shows_view_def)

lemma edit_host_simulates:
  assumes "shows_view px v"
    and "\<And>r. rr_mu r = unlocked \<Longrightarrow> \<exists>r'. f h (RR r) = Inr (RR r') \<and> rr_mu r' = unlocked \<and> rr_hosts r' = g (rr_hosts r)"
  shows "case v_hosts v p of
      None \<Rightarrow> edit_host f p h px = Inl NilDeref
    | Some hs \<Rightarrow> \<exists>px'. edit_host f p h px = Inr px' \<and> shows_view px' (v\<lparr>v_hosts := (v_hosts v)(p \<mapsto> g hs)\<rparr>)"
proof (cases "v_hosts v p")
  case None
  then have "hp_Mapping (px_prefixMapping px) p = None" using shows_view_mapping_None[OF assms(1)] by simp
  then show ?thesis
    using None shows_viewD(1)[OF assms(1)] by (simp add: edit_host_def need_balancer_view[OF assms(1)])
next
  case (Some hs)
  then obtain r where r: "hp_Mapping (px_prefixMapping px) p = Some (RR r)" "rr_mu r = unlocked" "rr_hosts r = hs"
    using shows_view_balancer[OF assms(1)] by blast
  from assms(2)[OF r(2)] obtain r' where r': "f h (RR r) = Inr (RR r')" "rr_mu r' = unlocked" "rr_hosts r' = g hs"
    using r(3) by blast
  have lb: "px_BalancerType px p = Some TypeRoundRobin"
    using shows_viewD(4)[OF assms(1), of p] Some by (simp add: entry_ok_Some)
  let ?px = "px\<lparr>px_mu := unlocked,
    px_prefixMapping := (px_prefixMapping px)\<lparr>hp_Mapping := (hp_Mapping (px_prefixMapping px))(p \<mapsto> RR r')\<rparr>,
    px_Paths := (px_Paths px)(p \<mapsto> g hs)\<rparr>"
  have "edit_host f p h px = Inr ?px"
    using shows_viewD(1)[OF assms(1)] r(1) r'
    by (simp add: edit_host_def need_balancer_view[OF assms(1)] rr_Hosts_def)
  moreover have "shows_view ?px (v\<lparr>v_hosts := (v_hosts v)(p \<mapsto> g hs)\<rparr>)"
    using shows_viewD[OF assms(1)] r' lb by (simp add: shows_view_def entry_ok_Some)
  ultimately show ?thesis using Some by simp
qed

lemma AddHost_simulates:
  assumes "shows_view px v"
  shows "case view_edit (EAddHost p h) v of
      None \<Rightarrow> AddHost p h px = Inl NilDeref
    | Some v' \<Rightarrow> \<exists>px'. AddHost p h px = Inr px' \<and> shows_view px' v'"
proof -
  have "\<exists>r'. bal_Add h (RR r) = Inr (RR r') \<and> rr_mu r' = unlocked \<and>
      rr_hosts r' = (if h \<in> set (rr_hosts r) then rr_hosts r else rr_hosts r @ [h])" if "rr_mu r = unlocked" for r
    using that by (simp add: rr_Add_def)
  from edit_host_simulates[where f = bal_Add and g = "\<lambda>hs. if h \<in> set hs then hs else hs @ [h]", OF assms this, of p]
  show ?thesis by (cases "v_hosts v p") (simp_all add: AddHost_def)
qed

lemma RemoveHost_simulates:
  assumes "shows_view px v"
  shows "case view_edit (ERemoveHost p h) v of
      None \<Rightarrow> RemoveHost p h px = Inl NilDeref
    | Some v' \<Rightarrow> \<exists>px'. RemoveHost p h px = Inr px' \<and> shows_view px' v'"
proof -
  have "\<exists>r'. bal_Remove h (RR r) = Inr (RR r') \<and> rr_mu r' = unlocked \<and>
      rr_hosts r' = remove1 h (rr_hosts r)" if "rr_mu r = unlocked" for r
    using that by (simp add: rr_Remove_def rr_cut_remove1)
  from edit_host_simulates[where f = bal_Remove and g = "remove1 h", OF assms this, of p]
  show ?thesis by (cases "v_hosts v p") (simp_all add: RemoveHost_def)
qed

lemma changeStatic_simulates:
  assumes "shows_view px v"
  shows "\<exists>px'. changeStatic p px = Inr px' \<and> shows_view px' (v\<lparr>v_static := (v_static v)(p \<mapsto> v_static v p \<noteq> Some True)\<rparr>)"
proof -
  have "(\<not> map_get False (v_static v) p) = (v_static v p \<noteq> Some True)"
    by (cases "v_static v p") (auto simp: map_get_def)
  with shows_viewD[OF assms] show ?thesis by (simp add: changeStatic_def shows_view_def Let_def)
qed

lemma changeLb_simulates:
  assumes "shows_view px v" "lb \<noteq> TypeConsistenceHash"
  shows "case view_edit (EChangeLb p lb) v of
      None \<Rightarrow> changeLb p lb px = Inl NilDeref
    | Some v' \<Rightarrow> \<exists>px'. changeLb p lb px = Inr px' \<and> shows_view px' v'"
proof (cases "v_hosts v p")
  case None
  then have "hp_Mapping (px_prefixMapping px) p = None" using shows_view_mapping_None[OF assms(1)] by simp
  with None show ?thesis by (simp add: changeLb_def need_balancer_view[OF assms(1)])
next
  case (Some hs)
  then obtain r where r: "hp_Mapping (px_prefixMapping px) p = Some (RR r)" "rr_hosts r = hs"
    using shows_view_balancer[OF assms(1)] by blast
  let ?static = "map_get False (px_StaticMapping px) p" and ?v1 = "v\<lparr>v_hosts := (v_hosts v)(p := None)\<rparr>"
  have static: "?static = (v_static v p = Some True)"
    using shows_viewD(3)[OF assms(1)] by (cases "v_static v p") (auto simp: map_get_def)
  from RemovePrefix_simulates[OF assms(1), of p] obtain px1 where
    px1: "RemovePrefix p px = Inr px1" "shows_view px1 ?v1" by blast
  have "changeLb p lb px = AddPrefix p lb hs ?static px1"
    using r px1(1) by (simp add: changeLb_def need_balancer_view[OF assms(1)] rr_Hosts_def)
  moreover have "(v_hosts v)(p \<mapsto> hs) = v_hosts v" using Some by (simp add: fun_upd_idem)
  ultimately show ?thesis
    using AddPrefix_simulates[OF px1(2) assms(2), of p hs ?static] Some static
    by (simp split: if_splits)
qed

lemma LoadBalance_simulates:
  assumes "shows_view px v"
  shows "\<exists>addr px'. LoadBalance p url px = Inr (addr, px') \<and> shows_view px' v"
proof (cases "v_hosts v p")
  case None
  then have "hp_Mapping (px_prefixMapping px) p = None" using shows_view_mapping_None[OF assms(1)] by simp
  with shows_viewD[OF assms(1)] show ?thesis by (simp add: LoadBalance_def hp_GetBalancer_def shows_view_def)
next
  case (Some hs)
  then obtain r where r: "hp_Mapping (px_prefixMapping px) p = Some (RR r)" "rr_mu r = unlocked" "rr_hosts r = hs"
    using shows_view_balancer[OF assms(1)] by blast
  obtain res r' where r': "rr_Balance r url None = Inr (res, r')" "rr_mu r' = unlocked" "rr_hosts r' = hs"
    using r(2,3) by (cases "rr_hosts r = []") (auto simp: rr_Balance_def Let_def)
  have tables: "px_Paths px p = Some hs" "px_BalancerType px p = Some TypeRoundRobin"
    using shows_viewD(4)[OF assms(1), of p] Some by (simp_all add: entry_ok_Some)
  let ?px = "px\<lparr>px_mu := unlocked, px_prefixMapping := (px_prefixMapping px)
    \<lparr>hp_Mapping := (hp_Mapping (px_prefixMapping px))(p \<mapsto> RR r')\<rparr>\<rparr>"
  have "\<exists>addr. LoadBalance p url px = Inr (addr, ?px)"
    using shows_viewD(1,2)[OF assms(1)] r(1) r'(1) by (simp add: LoadBalance_def hp_GetBalancer_def)
  moreover have "shows_view ?px v"
    using shows_viewD[OF assms(1)] r'(2,3) tables Some by (simp add: shows_view_def entry_ok_Some)
  ultimately show ?thesis by blast
qed

lemma edit_simulates:
  assumes "shows_view px v" "rr_edit e"
  shows "case view_edit e v of
      None \<Rightarrow> edit_apply e px = Inl NilDeref
    | Some v' \<Rightarrow> \<exists>px'. edit_apply e px = Inr px' \<and> shows_view px' v'"
proof (cases e)
  case (EAddPrefix p algo hosts static)
  with assms(2) have "algo \<noteq> TypeConsistenceHash" by simp
  then show ?thesis unfolding EAddPrefix edit_apply.simps by (rule AddPrefix_simulates[OF assms(1)])
next
  case (ERemovePrefix p)
  with RemovePrefix_simulates[OF assms(1)] show ?thesis by simp
next
  case (EAddHost p h)
  show ?thesis unfolding EAddHost edit_apply.simps by (rule AddHost_simulates[OF assms(1)])
next
  case (ERemoveHost p h)
  show ?thesis unfolding ERemoveHost edit_apply.simps by (rule RemoveHost_simulates[OF assms(1)])
next
  case (EChangeStatic p)
  with changeStatic_simulates[OF assms(1)] show ?thesis by simp
next
  case (EChangeLb p lb)
  with assms(2) have "lb \<noteq> TypeConsistenceHash" by simp
  then show ?thesis unfolding EChangeLb edit_apply.simps by (rule changeLb_simulates[OF assms(1)])
next
  case (ELoadBalance p url)
  with LoadBalance_simulates[OF assms(1), of p url] show ?thesis by auto
qed

section \<open>Histories of edits\<close>

lemma edits_simulate:
  assumes "shows_view px v" "\<forall>e \<in> set es. rr_edit e"
  shows "case view_edits es v of
      None \<Rightarrow> go_fold edit_apply es px = Inl NilDeref
    | Some v' \<Rightarrow> \<exists>px'. go_fold edit_apply es px = Inr px' \<and> shows_view px' v'"
  using assms
proof (induction es arbitrary: px v)
  case (Cons e es)
  then have e: "rr_edit e" "\<forall>e \<in> set es. rr_edit e" by simp_all
  note sim = edit_simulates[OF Cons.prems(1) e(1)]
  show ?case
  proof (cases "view_edit e v")
    case None
    with sim show ?thesis by simp
  next
    case (Some v1)
    with sim obtain px1 where "edit_apply e px = Inr px1" "shows_view px1 v1" by auto
    then have "go_fold edit_apply (e # es) px = go_fold edit_apply es px1"
      "view_edits (e # es) v = view_edits es v1" using Some by simp_all
    with Cons.IH[OF \<open>shows_view px1 v1\<close> e(2)] show ?thesis by (simp only:)
  qed
qed simp

definition hash_prefixer_args :: "int \<Rightarrow> HttpProxyArgs" where
  "hash_prefixer_args port = \<lparr>ha_Port = port, ha_PrefixerType = TypeHashPrefixer, ha_Paths = []\<rparr>"

lemma new_shows_view:
  "\<exists>px. NewHttpReverseProxy (hash_prefixer_args port) = Inr px \<and> shows_view px new_view \<and> px_Port px = port"
  by (simp add: NewHttpReverseProxy_def Prefixer_Build_def hash_prefixer_args_def NewHashPrefixer_def
      shows_view_def new_view_def)

text \<open>
  C4: from a new proxy, any sequence of edits that builds no consistent-hash balancer (\<open>rr_edit\<close>) does to its
  tables what the abstract table says, and panics exactly when that table has no entry for the prefix or the
  algorithm is neither of the two. In between no lock is left held and all tables agree.
\<close>

theorem proxy_edits_refine_view:
  assumes "\<forall>e \<in> set es. rr_edit e"
  shows "\<exists>px. NewHttpReverseProxy (hash_prefixer_args port) = Inr px \<and>
    (case view_edits es new_view of
       None \<Rightarrow> go_fold edit_apply es px = Inl NilDeref
     | Some v \<Rightarrow> \<exists>px'. go_fold edit_apply es px = Inr px' \<and> shows_view px' v)"
proof -
  from new_shows_view[of port] obtain px :: "'a HttpReverseProxy" where
    "NewHttpReverseProxy (hash_prefixer_args port) = Inr px" "shows_view px new_view" by blast
  with edits_simulate[OF this(2) assms] show ?thesis by blast
qed

theorem proxy_edits_refine_view_witness:
  "\<exists>px :: unit HttpReverseProxy. NewHttpReverseProxy (hash_prefixer_args 9000) = Inr px \<and>
    (case view_edits [EAddPrefix ''/api'' ''round-robin'' [''a:1''] True, EAddHost ''/api'' ''b:2'',
        ERemoveHost ''/api'' ''a:1''] new_view of
       None \<Rightarrow> go_fold edit_apply [EAddPrefix ''/api'' ''round-robin'' [''a:1''] True, EAddHost ''/api'' ''b:2'',
        ERemoveHost ''/api'' ''a:1''] px = Inl NilDeref
     | Some v \<Rightarrow> \<exists>px'. go_fold edit_apply [EAddPrefix ''/api'' ''round-robin'' [''a:1''] True,
        EAddHost ''/api'' ''b:2'', ERemoveHost ''/api'' ''a:1''] px = Inr px' \<and> shows_view px' v)"
  by (rule proxy_edits_refine_view) (simp add: TypeConsistenceHash_def)

text \<open>
  Adding a host to a prefix the proxy does not have panics, as does adding a prefix whose
  algorithm nobody registered.
\<close>

theorem missing_prefix_panics:
  assumes "shows_view px v" "v_hosts v p = None" "algo \<notin> GetBalancerType"
  shows "AddHost p h px = Inl NilDeref \<and> RemoveHost p h px = Inl NilDeref \<and>
    AddPrefix p algo hosts static px = Inl NilDeref"
proof -
  from assms(3) have "algo \<noteq> TypeConsistenceHash" "algo \<noteq> TypeRoundRobin"
    by (auto simp: GetBalancerType_def balancer_factories_def)
  then show ?thesis
    using AddHost_simulates[OF assms(1), of p h] RemoveHost_simulates[OF assms(1), of p h]
      AddPrefix_simulates[OF assms(1), of algo p hosts static] assms(2) by simp
qed

theorem missing_prefix_panics_witness:
  "\<exists>px :: unit HttpReverseProxy. NewHttpReverseProxy (hash_prefixer_args 9000) = Inr px \<and>
    AddHost ''/api'' ''a:1'' px = Inl NilDeref \<and> RemoveHost ''/api'' ''a:1'' px = Inl NilDeref \<and>
    AddPrefix ''/api'' ''least-load'' [''a:1''] False px = Inl NilDeref"
proof -
  from new_shows_view[of 9000] obtain px :: "unit HttpReverseProxy" where
    px: "NewHttpReverseProxy (hash_prefixer_args 9000) = Inr px" "shows_view px new_view" by blast
  have "v_hosts new_view ''/api'' = None" "''least-load'' \<notin> GetBalancerType"
    by (simp_all add: new_view_def GetBalancerType_def balancer_factories_def TypeRoundRobin_def TypeConsistenceHash_def)
  from missing_prefix_panics[OF px(2) this] px(1) show ?thesis by blast
qed

end
