(* ===== verification/ServeClaims.thy ===== *)
theory ServeClaims
  imports ServeRequest ProxyTables AclHistory
begin

text \<open>
  What a client of the gateway sees: the blacklist is checked before anything else, a request that
  passes is forwarded to a live host of the longest matching prefix, and when rate limits take
  effect.
\<close>

section \<open>Blacklisted clients\<close>

lemma AddBlackList_new:
  assumes "px_mu px = unlocked" "px_Acl px = NewRadixTree" "nets_ok ips"
  shows "\<exists>t. AddBlackList ips px = Inr (px\<lparr>px_Acl := t\<rparr>) \<and> tree_inv t \<and>
    dom (entries t) = (\<Union>s \<in> set ips. net_keys s)"
proof -
  from acl_history_adds[OF assms(3)] obtain t where
    t: "acl_history [AddIps ips] = Inr t" "tree_inv t" "dom (entries t) = (\<Union>s \<in> set ips. net_keys s)" by blast
  from t(1) have "acl_add_all ips NewRadixTree = Inr t" by (simp add: acl_history_def go_bind_eq_Inr_iff)
  moreover have "px\<lparr>px_mu := unlocked, px_Acl := t\<rparr> = px\<lparr>px_Acl := t\<rparr>" using assms(1) by (cases px) simp
  ultimately have "AddBlackList ips px = Inr (px\<lparr>px_Acl := t\<rparr>)"
    using assms(1,2) by (simp add: AddBlackList_def)
  with t(2,3) show ?thesis by blast
qed

text \<open>
  C12: once networks are blacklisted on a proxy, every request of a client inside one of them is
  answered 403 and nothing else happens: no host is chosen, no token is taken, nothing is
  forwarded. A client outside all of them is not answered 403.
\<close>

theorem blacklisted_client_gets_403:
  assumes "px_mu px = unlocked" "px_Acl px = NewRadixTree" "px_Available px" "nets_ok ips"
    "client_ok (RemoteIp r)"
  shows "\<exists>px'. AddBlackList ips px = Inr px' \<and>
    (if \<exists>s \<in> set ips. covers s (client_word (RemoteIp r))
     then ServeHTTP lib True now r px' = Inr (Response 403 ForbiddenAccessSystem, px')
     else \<forall>px'' body. ServeHTTP lib True now r px' \<noteq> Inr (Response 403 body, px''))"
proof -
  from AddBlackList_new[OF assms(1,2,4)] obtain t where
    t: "AddBlackList ips px = Inr (px\<lparr>px_Acl := t\<rparr>)" "tree_inv t"
    "dom (entries t) = (\<Union>s \<in> set ips. net_keys s)" by blast
  let ?px = "px\<lparr>px_Acl := t\<rparr>"
  have acl: "AccessControl t (RemoteIp r) = Inr (\<exists>s \<in> set ips. covers s (client_word (RemoteIp r)))"
    unfolding AccessControl_entries[OF t(2) assms(5)] t(3) covers_iff_key by auto
  show ?thesis
  proof (cases "\<exists>s \<in> set ips. covers s (client_word (RemoteIp r))")
    case True
    then have "ServeHTTP lib True now r ?px = Inr (Response 403 ForbiddenAccessSystem, ?px)"
      using acl assms(3) by (intro ServeHTTP_forbidden) simp_all
    with True t(1) show ?thesis by simp
  next
    case False
    have fwd: "forwardToSpecficPath r raw \<noteq> Response 403 body" for raw body
      by (simp add: forwardToSpecficPath_def Let_def split: option.splits)
    have "ServeHTTP lib True now r ?px \<noteq> Inr (Response 403 body, px'')" for px'' body
      using False acl assms(3) fwd
      by (auto simp: ServeHTTP_def go_bind_eq_Inr_iff Let_def split: sum.splits option.splits)
    with False t(1) show ?thesis by simp
  qed
qed

definition example_request :: "string \<Rightarrow> string \<Rightarrow> request" where
  "example_request addr path = \<lparr>r_RemoteAddr = addr, r_header = (\<lambda>_. None), r_path = path,
     r_method = ''GET'', r_host = ''gateway''\<rparr>"

lemma example_RemoteIp: "addr \<noteq> '''' \<Longrightarrow> RemoteIp (example_request addr path) = addr"
  by (simp add: RemoteIp_def example_request_def)

lemma new_proxy_fields:
  "\<exists>px. NewHttpReverseProxy (hash_prefixer_args port) = Inr px \<and> px_mu px = unlocked \<and>
    px_Acl px = NewRadixTree \<and> px_Available px \<and> px_rateLimiters px = (\<lambda>_. None) \<and> shows_view px new_view"
  by (simp add: NewHttpReverseProxy_def Prefixer_Build_def hash_prefixer_args_def NewHashPrefixer_def
      shows_view_def new_view_def)

theorem blacklisted_client_gets_403_witness:
  "\<exists>px px'. NewHttpReverseProxy (hash_prefixer_args 9000) = Inr px \<and>
     AddBlackList [''10.0.0.0/8''] px = Inr px' \<and>
     (if \<exists>s \<in> set [''10.0.0.0/8'']. covers s (client_word (RemoteIp (example_request ''10.1.2.3:80'' ''/x'')))
      then ServeHTTP bucket_lib True 0 (example_request ''10.1.2.3:80'' ''/x'') px' =
        Inr (Response 403 ForbiddenAccessSystem, px')
      else \<forall>px'' body. ServeHTTP bucket_lib True 0 (example_request ''10.1.2.3:80'' ''/x'') px' \<noteq>
        Inr (Response 403 body, px''))"
proof -
  from new_proxy_fields[of 9000] obtain px :: "bucket HttpReverseProxy" where
    px: "NewHttpReverseProxy (hash_prefixer_args 9000) = Inr px" "px_mu px = unlocked" "px_Acl px = NewRadixTree"
    "px_Available px" by blast
  have "nets_ok [''10.0.0.0/8'']" by code_simp
  moreover have "client_ok ''10.1.2.3:80''" by code_simp
  then have "client_ok (RemoteIp (example_request ''10.1.2.3:80'' ''/x''))" by (simp add: example_RemoteIp)
  ultimately show ?thesis
    using blacklisted_client_gets_403[OF px(2-4), of "[''10.0.0.0/8'']" "example_request ''10.1.2.3:80'' ''/x''" bucket_lib 0]
      px(1) by blast
qed

section \<open>Forwarding\<close>

text \<open>\<open>host:port\<close> as an operator writes it.\<close>

definition backend :: "string \<Rightarrow> bool" where
  "backend h \<longleftrightarrow> (\<exists>host p. h = host @ '':'' @ Itoa p \<and> CHR ''/'' \<notin> set host \<and> CHR '':'' \<notin> set host \<and>
     int64_min \<le> p \<and> p \<le> int64_max)"

text \<open>The path has no limiter yet, or its limiter gives a token now; static prefixes have none.\<close>

definition rate_free :: "('l, 'f) rate_lib \<Rightarrow> int \<Rightarrow> 'l HttpReverseProxy \<Rightarrow> string \<Rightarrow> string \<Rightarrow> bool" where
  "rate_free lib now px prefix apiPath \<longleftrightarrow> isStaticResource prefix px \<or>
     (\<forall>l. px_rateLimiters px (compelete_url prefix apiPath) = Some l \<longrightarrow> fst (Take lib now l) = None)"

lemma check_rate_free:
  assumes "px_mu px = unlocked" "lib_unlimited lib" "rate_free lib now px prefix apiPath"
  shows "\<exists>px'. check_rate lib now prefix apiPath px = Inr (None, px')"
proof (cases "isStaticResource prefix px \<or> px_rateLimiters px (compelete_url prefix apiPath) \<noteq> None")
  case False
  with check_rate_new_path[OF assms(1,2)] show ?thesis by blast
next
  case True
  show ?thesis
  proof (cases "isStaticResource prefix px")
    case False
    with True obtain l where l: "px_rateLimiters px (compelete_url prefix apiPath) = Some l" by blast
    with False assms(3) have "fst (Take lib now l) = None" by (simp add: rate_free_def)
    with False l show ?thesis by (cases "Take lib now l") (simp add: check_rate_def)
  qed (simp add: check_rate_def)
qed

lemma forward_backend:
  assumes "backend h" "rest = [] \<or> (\<exists>t. rest = CHR ''/'' # t)"
  shows "\<exists>fw. forwardToSpecficPath r (h @ rest) = Proxied fw \<and> fw_Host fw = h \<and> fw_Path fw = rest \<and>
    fw_Method fw = r_method r"
proof -
  from assms(1) obtain host p where h: "h = host @ '':'' @ Itoa p" "CHR ''/'' \<notin> set host" "CHR '':'' \<notin> set host"
    "int64_min \<le> p" "p \<le> int64_max" unfolding backend_def by blast
  from forward_host_port[OF h(2-5) assms(2), of r] h(1) show ?thesis by auto
qed

text \<open>The prefix of a path and what is left of the path behind it.\<close>

lemma match_route:
  assumes "path = CHR ''/'' # s" "hp_match M path = (q, n)"
  shows "path = q @ drop n path \<and> seg_prefix q path \<and> (\<forall>p. seg_prefix p path \<longrightarrow> M p \<noteq> None \<longrightarrow> length p \<le> length q) \<or>
      q = ''/'' \<and> drop n path = path \<and> (\<forall>p. seg_prefix p path \<longrightarrow> M p = None)"
    and "drop n path = [] \<or> (\<exists>t. drop n path = CHR ''/'' # t)"
    and "M ''/'' \<noteq> None \<Longrightarrow> M q \<noteq> None"
proof -
  note spec = hp_match_correct[OF assms]
  show "path = q @ drop n path \<and> seg_prefix q path \<and> (\<forall>p. seg_prefix p path \<longrightarrow> M p \<noteq> None \<longrightarrow> length p \<le> length q) \<or>
      q = ''/'' \<and> drop n path = path \<and> (\<forall>p. seg_prefix p path \<longrightarrow> M p = None)"
    using spec
  proof (elim disjE conjE)
    assume "seg_prefix q path" "n = length q" "\<forall>p. seg_prefix p path \<longrightarrow> M p \<noteq> None \<longrightarrow> length p \<le> length q"
    moreover from this(1,2) have "path = q @ drop n path" using seg_prefix_drop[of q path] by simp
    ultimately show ?thesis by blast
  qed simp
  show "drop n path = [] \<or> (\<exists>t. drop n path = CHR ''/'' # t)"
    using spec
  proof (elim disjE conjE)
    assume "n = 0"
    with assms(1) show ?thesis by simp
  next
    assume "seg_prefix q path" "n = length q"
    then show ?thesis using seg_prefix_rest by blast
  qed
  show "M ''/'' \<noteq> None \<Longrightarrow> M q \<noteq> None" using spec by auto
qed

text \<open>
  Where a table sends a path: to its longest entry that ends where a segment ends, with the rest of the path, and to
  the root entry, with the whole path, when there is none.
\<close>

definition routes_to :: "(string \<Rightarrow> 'b option) \<Rightarrow> string \<Rightarrow> string \<Rightarrow> string \<Rightarrow> bool" where
  "routes_to M path p rest \<longleftrightarrow> M p \<noteq> None \<and>
     (path = p @ rest \<and> seg_prefix p path \<and> (\<forall>q. seg_prefix q path \<longrightarrow> M q \<noteq> None \<longrightarrow> length q \<le> length p) \<or>
      p = ''/'' \<and> rest = path \<and> (\<forall>q. seg_prefix q path \<longrightarrow> M q = None))"

lemma seg_prefix_length: "seg_prefix p path \<Longrightarrow> seg_prefix q path \<Longrightarrow> length p = length q \<Longrightarrow> p = q"
  by (metis seg_prefix_def)

text \<open>The entry the loop ends at is the one the path is to go to.\<close>

lemma hit_routes:
  assumes "routes_to M path p rest" "seg_prefix q path" "M q \<noteq> None" "\<forall>p. seg_prefix p path \<longrightarrow> M p \<noteq> None \<longrightarrow> length p \<le> length q"
  shows "p = q" "rest = drop (length q) path"
proof -
  from assms(1) have "p = q \<and> rest = drop (length q) path" unfolding routes_to_def
  proof (elim conjE disjE)
    assume M: "M p \<noteq> None" and path: "path = p @ rest" and p: "seg_prefix p path"
      and longest: "\<forall>q. seg_prefix q path \<longrightarrow> M q \<noteq> None \<longrightarrow> length q \<le> length p"
    from longest[rule_format, OF assms(2,3)] assms(4)[rule_format, OF p M] have "length p = length q" by simp
    from seg_prefix_length[OF p assms(2) this] have pq: "p = q" .
    have "rest = drop (length p) path" by (subst path) simp
    with pq show ?thesis by simp
  next
    assume none: "\<forall>q. seg_prefix q path \<longrightarrow> M q = None"
    from none[rule_format, OF assms(2)] assms(3) show ?thesis by simp
  qed
  then show "p = q" "rest = drop (length q) path" by blast+
qed

lemma routes_to_match:
  assumes "path = CHR ''/'' # s" "routes_to M path p rest"
  obtains n where "hp_match M path = (p, n)" "drop n path = rest" "rest = [] \<or> (\<exists>t. rest = CHR ''/'' # t)"
proof -
  obtain q n where qn: "hp_match M path = (q, n)" by (meson surj_pair)
  from hp_match_correct[OF assms(1) qn] have "q = p \<and> drop n path = rest"
  proof (elim disjE conjE)
    assume "seg_prefix q path" "M q \<noteq> None" "\<forall>p. seg_prefix p path \<longrightarrow> M p \<noteq> None \<longrightarrow> length p \<le> length q"
    from hit_routes[OF assms(2) this] show "n = length q \<Longrightarrow> ?thesis" by simp
  next
    assume none: "\<forall>p. seg_prefix p path \<longrightarrow> M p = None" and q: "q = ''/''" "n = 0"
    have "M p \<noteq> None" using assms(2) by (simp add: routes_to_def)
    with none[rule_format, of p] have "\<not> seg_prefix p path" by blast
    with assms(2) have "p = ''/''" "rest = path" unfolding routes_to_def by blast+
    with q show ?thesis by simp
  qed
  with qn match_route(2)[OF assms(1) qn] that show thesis by simp
qed

lemma MappingPath_picks:
  assumes "hp_mu pm = unlocked" "path = CHR ''/'' # s" "routes_to (hp_Mapping pm) path p rest" "hp_Mapping pm p = Some b"
    "bal_ok b" "ch_request_ok r" "bal_live b \<noteq> {}"
  obtains host pm' where "MappingPath path r pm = Inr (Inr (p, rest, host @ rest), pm')" "host \<in> bal_live b"
proof -
  obtain n where n: "hp_match (hp_Mapping pm) path = (p, n)" "drop n path = rest"
    using routes_to_match[OF assms(2,3)] by blast
  from bal_select[OF assms(5,6), of "''''"] obtain h b' where
    h: "bal_Balance b '''' r = Inr (h, b')" "case h of Inl e \<Rightarrow> bal_live b = {} | Inr h \<Rightarrow> h \<in> bal_live b"
    by (elim exE conjE)
  with assms(7) obtain host where host: "h = Inr host" "host \<in> bal_live b" by (cases h) auto
  have "\<not> n > length path" using hp_match_bound[OF n(1)] by simp
  with assms(1,4) n h(1) host show thesis by (intro that[of host]) (auto simp: MappingPath_def)
qed

lemma mapped_is_forwarded:
  assumes "MappingPath (r_path r) (Some r) (px_prefixMapping px) = Inr (Inr (p, rest, host @ rest), pm)" "backend host"
    "rest = [] \<or> (\<exists>t. rest = CHR ''/'' # t)" "px_Available px" "px_mu px = unlocked"
    "AccessControl (px_Acl px) (RemoteIp r) = Inr False" "lib_unlimited lib" "rate_free lib now px p rest"
  shows "\<exists>fw px'. ServeHTTP lib True now r px = Inr (Proxied fw, px') \<and> fw_Host fw = host \<and> fw_Path fw = rest \<and>
    fw_Method fw = r_method r"
proof -
  from forward_backend[OF assms(2,3), of r] obtain fw where
    fw: "forwardToSpecficPath r (host @ rest) = Proxied fw" "fw_Host fw = host" "fw_Path fw = rest" "fw_Method fw = r_method r"
    by blast
  have "px_mu (px\<lparr>px_prefixMapping := pm\<rparr>) = unlocked" "rate_free lib now (px\<lparr>px_prefixMapping := pm\<rparr>) p rest"
    using assms(5,8) by (simp_all add: rate_free_def isStaticResource_def)
  from check_rate_free[OF this(1) assms(7) this(2)] obtain px' where
    "check_rate lib now p rest (px\<lparr>px_prefixMapping := pm\<rparr>) = Inr (None, px')" by blast
  with assms(1,4,6) fw(1) have "ServeHTTP lib True now r px = Inr (Proxied fw, px')" by (simp add: ServeHTTP_def)
  with fw show ?thesis by blast
qed

text \<open>
  C1: on an available proxy a request of a client that is not blacklisted, whose limiter does not refuse it (a path
  without one gets a new one, which gives a token), goes where
  the table of prefixes sends its path: if the balancer of that prefix has hosts, all of the form host:port, the
  request is passed on to one of them, with what the table leaves of the path, and with its method. The other entries
  of the table do not matter. For a consistent-hash balancer the client is to be known by an address with a port.
\<close>

theorem request_is_forwarded:
  assumes "px_Available px" "px_mu px = unlocked" "hp_mu (px_prefixMapping px) = unlocked"
    "AccessControl (px_Acl px) (RemoteIp r) = Inr False" "r_path r = CHR ''/'' # s"
    "routes_to (hp_Mapping (px_prefixMapping px)) (r_path r) p rest" "hp_Mapping (px_prefixMapping px) p = Some b"
    "bal_ok b" "ch_request_ok (Some r)" "bal_live b \<noteq> {}" "\<forall>h \<in> bal_live b. backend h"
    "lib_unlimited lib" "rate_free lib now px p rest"
  shows "\<exists>fw px'. ServeHTTP lib True now r px = Inr (Proxied fw, px') \<and> fw_Host fw \<in> bal_live b \<and> fw_Path fw = rest \<and>
    fw_Method fw = r_method r"
proof -
  from MappingPath_picks[OF assms(3,5-10)] obtain host pm where
    host: "MappingPath (r_path r) (Some r) (px_prefixMapping px) = Inr (Inr (p, rest, host @ rest), pm)" "host \<in> bal_live b" .
  from routes_to_match[OF assms(5,6)] have "rest = [] \<or> (\<exists>t. rest = CHR ''/'' # t)" by blast
  with host assms(11) mapped_is_forwarded[OF host(1) _ _ assms(1,2,4,12,13)] show ?thesis by blast
qed

lemma backend_examples: "backend ''a:1''" "backend ''b:2''"
proof -
  have *: "Itoa 1 = ''1''" "Itoa 2 = ''2''" by code_simp+
  show "backend ''a:1''" unfolding backend_def by (intro exI[of _ "''a''"] exI[of _ 1]) (simp add: *)
  show "backend ''b:2''" unfolding backend_def by (intro exI[of _ "''b''"] exI[of _ 2]) (simp add: *)
qed

theorem request_is_forwarded_witness:
  "\<exists>px fw px'. px_prefixMapping px = NewHashPrefixer\<lparr>hp_Mapping :=
      [''/api'' \<mapsto> RR (NewRoundRobin [''a:1'']), ''/old'' \<mapsto> RR (NewRoundRobin [])]\<rparr> \<and>
    ServeHTTP bucket_lib True 0 (example_request ''127.0.0.1:9'' ''/api/x'') px = Inr (Proxied fw, px') \<and>
    fw_Host fw = ''a:1'' \<and> fw_Path fw = ''/x''"
proof -
  let ?r = "example_request ''127.0.0.1:9'' ''/api/x''" and ?b = "RR (NewRoundRobin [''a:1''])"
  let ?pm = "NewHashPrefixer\<lparr>hp_Mapping := [''/api'' \<mapsto> ?b, ''/old'' \<mapsto> RR (NewRoundRobin [])]\<rparr>"
  from new_proxy_fields[of 9000] obtain px0 :: "bucket HttpReverseProxy" where
    px0: "px_mu px0 = unlocked" "px_Acl px0 = NewRadixTree" "px_Available px0" "px_rateLimiters px0 = (\<lambda>_. None)"
    by blast
  let ?px = "px0\<lparr>px_prefixMapping := ?pm\<rparr>"
  have ip: "RemoteIp ?r = ''127.0.0.1:9''" by (simp add: example_RemoteIp)
  have "AccessControl NewRadixTree ''127.0.0.1:9'' = Inr False" by code_simp
  then have acl: "AccessControl (px_Acl ?px) (RemoteIp ?r) = Inr False" by (simp add: ip px0)
  have "\<exists>fw px'. ServeHTTP bucket_lib True 0 ?r ?px = Inr (Proxied fw, px') \<and> fw_Host fw \<in> bal_live ?b \<and>
    fw_Path fw = ''/x'' \<and> fw_Method fw = r_method ?r"
  proof (rule request_is_forwarded)
    show "ch_request_ok (Some ?r)" by (simp add: ch_request_ok_def ip)
    show "r_path ?r = CHR ''/'' # ''api/x''" by (simp add: example_request_def)
    show "routes_to (hp_Mapping (px_prefixMapping ?px)) (r_path ?r) ''/api'' ''/x''"
      by (auto simp: routes_to_def example_request_def seg_prefix_def split: if_splits)
    show "\<forall>h \<in> bal_live ?b. backend h" using backend_examples by (simp add: rr_live_def NewRoundRobin_def)
    show "rate_free bucket_lib 0 ?px ''/api'' ''/x''" by (simp add: rate_free_def px0)
  qed (use px0 acl bucket_lib_unlimited in \<open>simp_all add: NewHashPrefixer_def rr_ok_def NewRoundRobin_def rr_live_def\<close>)
  then obtain fw px' where "ServeHTTP bucket_lib True 0 ?r ?px = Inr (Proxied fw, px')" "fw_Host fw \<in> bal_live ?b" "fw_Path fw = ''/x''"
    by blast
  then show ?thesis by (intro exI[of _ ?px] exI[of _ fw] exI[of _ px']) (simp add: rr_live_def NewRoundRobin_def)
qed

section \<open>Rate limits\<close>

text \<open>The rate check of a list of requests to one path, at the given times.\<close>

fun rate_checks ::
  "('l, 'f) rate_lib \<Rightarrow> string \<Rightarrow> string \<Rightarrow> int list \<Rightarrow> 'l HttpReverseProxy \<Rightarrow>
     (limiter_error option list \<times> 'l HttpReverseProxy) go" where
  "rate_checks lib prefix apiPath [] px = Inr ([], px)"
| "rate_checks lib prefix apiPath (now # nows) px =
     go_bind (check_rate lib now prefix apiPath px) (\<lambda>(e, px1).
     go_bind (rate_checks lib prefix apiPath nows px1) (\<lambda>(es, px2). Inr (e # es, px2)))"

lemma rate_checks_takes:
  assumes "\<not> isStaticResource prefix px" "px_rateLimiters px (compelete_url prefix apiPath) = Some l"
  shows "\<exists>px'. rate_checks lib prefix apiPath nows px = Inr (fst (takes lib nows l), px')"
  using assms
proof (induction nows arbitrary: px l)
  case (Cons now nows)
  obtain e l1 where t: "Take lib now l = (e, l1)" by (meson surj_pair)
  let ?px = "px\<lparr>px_rateLimiters := (px_rateLimiters px)(compelete_url prefix apiPath \<mapsto> l1)\<rparr>"
  have "check_rate lib now prefix apiPath px = Inr (e, ?px)"
    using Cons.prems t by (simp add: check_rate_def Let_def)
  moreover have "\<exists>px'. rate_checks lib prefix apiPath nows ?px = Inr (fst (takes lib nows l1), px')"
    by (rule Cons.IH) (use Cons.prems in \<open>simp_all add: isStaticResource_def\<close>)
  ultimately show ?case using t by (auto simp: split_beta)
qed simp

lemma SetRateLimit_existing:
  assumes "px_mu px = unlocked" "px_rateLimiters px (compelete_url prefix apiPath) = Some l" "0 < speed"
  shows "\<exists>px'. SetRateLimit lib prefix apiPath ty init speed px = Inr px' \<and>
    px_rateLimiters px' (compelete_url prefix apiPath) =
      Some (l\<lparr>q_Limiter := NewLimiter lib (Every lib (time_Second div speed)) init\<rparr>) \<and>
    px_StaticMapping px' = px_StaticMapping px"
  using assms by (simp add: SetRateLimit_eq SetRate_pos Let_def)

text \<open>
  C13: setting a rate limit on a path that was requested before bounds the requests let through to
  it: in any span of time at most \<open>init\<close> plus one for every \<open>10^9 div speed\<close> nanoseconds.
\<close>

theorem rate_limit_takes_effect:
  assumes "px_mu px = unlocked" "px_rateLimiters px (compelete_url prefix apiPath) = Some l"
    "\<not> isStaticResource prefix px" "lib_bucket lib" "0 < speed" "speed \<le> time_Second" "0 \<le> init"
    "t0 \<le> t1" "sorted (t0 # nows)" "\<forall>n \<in> set nows. n \<le> t1"
  shows "\<exists>px1 es px2. SetRateLimit lib prefix apiPath ty init speed px = Inr px1 \<and>
    rate_checks lib prefix apiPath nows px1 = Inr (es, px2) \<and>
    (time_Second div speed) * int (count_list es None) \<le> (time_Second div speed) * init + (t1 - t0)"
proof -
  from SetRateLimit_existing[OF assms(1,2,5), of lib ty init] obtain px1 where
    px1: "SetRateLimit lib prefix apiPath ty init speed px = Inr px1"
    "px_rateLimiters px1 (compelete_url prefix apiPath) =
      Some (l\<lparr>q_Limiter := NewLimiter lib (Every lib (time_Second div speed)) init\<rparr>)"
    "px_StaticMapping px1 = px_StaticMapping px" by blast
  from px1(3) assms(3) have "\<not> isStaticResource prefix px1" by (simp add: isStaticResource_def)
  from rate_checks_takes[OF this px1(2), of lib nows] SetRate_takes_bound[OF assms(4-10), of l] px1(1)
  show ?thesis by blast
qed

theorem rate_limit_takes_effect_witness:
  "\<exists>px px1 es px2. px_rateLimiters px ''/api/x'' \<noteq> None \<and>
    SetRateLimit bucket_lib ''/api'' ''/x'' ''qps'' 1 2 px = Inr px1 \<and>
    rate_checks bucket_lib ''/api'' ''/x'' [7, 7, 8] px1 = Inr (es, px2) \<and>
    (time_Second div 2) * int (count_list es None) \<le> (time_Second div 2) * 1 + (8 - 7)"
proof -
  from new_proxy_fields[of 9000] obtain px0 :: "bucket HttpReverseProxy" where
    px0: "px_mu px0 = unlocked" "shows_view px0 new_view" by blast
  let ?px = "px0\<lparr>px_rateLimiters := [''/api/x'' \<mapsto> NewQpsRateLimiter bucket_lib]\<rparr>"
  have "\<not> isStaticResource ''/api'' ?px"
    using px0(2) by (simp add: isStaticResource_def shows_view_def new_view_def)
  moreover have "px_rateLimiters ?px (compelete_url ''/api'' ''/x'') = Some (NewQpsRateLimiter bucket_lib)"
    by (simp add: compelete_url_def)
  ultimately have "\<exists>px1 es px2. SetRateLimit bucket_lib ''/api'' ''/x'' ''qps'' 1 2 ?px = Inr px1 \<and>
    rate_checks bucket_lib ''/api'' ''/x'' [7, 7, 8] px1 = Inr (es, px2) \<and>
    (time_Second div 2) * int (count_list es None) \<le> (time_Second div 2) * 1 + (8 - 7)"
    using px0(1) bucket_lib_bucket by (intro rate_limit_takes_effect) (simp_all add: time_Second_def)
  moreover have "px_rateLimiters ?px ''/api/x'' \<noteq> None" by simp
  ultimately show ?thesis by blast
qed

text \<open>
  Setting a rate limit on a path nobody requested yet never returns: \<open>SetRateLimit\<close> holds the
  proxy's lock when \<open>createRateLimiter\<close> takes it again.
\<close>

theorem first_rate_limit_deadlocks:
  assumes "px_mu px = unlocked" "px_rateLimiters px (compelete_url prefix apiPath) = None"
  shows "SetRateLimit lib prefix apiPath ty init speed px = Inl Deadlock"
  using assms by (simp add: SetRateLimit_eq createRateLimiter_def Let_def mu_Lock_def)

theorem first_rate_limit_deadlocks_witness:
  "\<exists>px. NewHttpReverseProxy (hash_prefixer_args 9000) = Inr px \<and>
    SetRateLimit bucket_lib ''/api'' ''/x'' ''qps'' 10 10 px = Inl Deadlock"
proof -
  from new_proxy_fields[of 9000] obtain px :: "bucket HttpReverseProxy" where
    px: "NewHttpReverseProxy (hash_prefixer_args 9000) = Inr px" "px_mu px = unlocked" "px_rateLimiters px = (\<lambda>_. None)"
    by blast
  then have "px_rateLimiters px (compelete_url ''/api'' ''/x'') = None" by simp
  from first_rate_limit_deadlocks[OF px(2) this] px(1) show ?thesis by blast
qed

end
