(* ===== verification/ProxyRestore.thy ===== *)
theory ProxyRestore
  imports ServeClaims
begin

text \<open>
  Rebuilding a proxy: from the configuration file, and from the exported fields a snapshot keeps
  (\<open>Restore\<close> of \<open>src/vermouth/http_proxy.go\<close>). The three lists are the orders in which the ranges
  over \<open>Paths\<close>, \<open>Acl.Record\<close> and \<open>RateLimiterType\<close> visit the keys.
\<close>

section \<open>From the configuration\<close>

definition add_config_path :: "HttpProxyPathArgs \<Rightarrow> 'l HttpReverseProxy \<Rightarrow> 'l HttpReverseProxy go" where
  "add_config_path path proxy =
     go_bind (AddPrefix (pa_Pattern path) (pa_BalanceMode path) (pa_Hosts path) (pa_Static path) proxy) (\<lambda>proxy1.
       Inr (proxy1\<lparr>px_BalancerType := (px_BalancerType proxy1)(pa_Pattern path \<mapsto> pa_BalanceMode path)\<rparr>))"

fun BuildHttpReverseProxyFromConfig :: "HttpProxyArgs list \<Rightarrow> 'l HttpReverseProxy list go" where
  "BuildHttpReverseProxyFromConfig [] = Inr []"
| "BuildHttpReverseProxyFromConfig (proxyArg # conf) =
     go_bind (NewHttpReverseProxy proxyArg) (\<lambda>proxy.
     go_bind (go_fold add_config_path (ha_Paths proxyArg) proxy) (\<lambda>proxy1.
     go_bind (BuildHttpReverseProxyFromConfig conf) (\<lambda>list. Inr (proxy1 # list))))"

section \<open>Restore\<close>

definition restore_prefix ::
  "(string \<Rightarrow> string list option) \<Rightarrow> string \<Rightarrow> 'l HttpReverseProxy \<Rightarrow> 'l HttpReverseProxy go" where
  "restore_prefix paths k proxy =
     AddPrefix k (map_get '''' (px_BalancerType proxy) k) (map_get [] paths k)
       (map_get False (px_StaticMapping proxy) k) proxy"

definition restore_limiters ::
  "('l, 'f) rate_lib \<Rightarrow> string \<Rightarrow> 'l HttpReverseProxy \<Rightarrow> 'l HttpReverseProxy go" where
  "restore_limiters lib prefix proxy =
     go_fold (\<lambda>v px. go_bind (createRateLimiter lib prefix (li_Url v) (li_Type v) (li_Init v) (li_Speed v) px)
         (\<lambda>(err, px1). Inr px1))
       (map_get [] (px_RateLimiterType proxy) prefix) proxy"

definition Restore ::
  "('l, 'f) rate_lib \<Rightarrow> string list \<Rightarrow> string list \<Rightarrow> string list \<Rightarrow> 'l HttpReverseProxy \<Rightarrow>
     (prefix_error option \<times> 'l HttpReverseProxy) go" where
  "Restore lib pks ips rks proxy =
     (case Prefixer_Build (px_PrefixerType proxy) of
        Inl err \<Rightarrow> Inr (Some err, proxy)
      | Inr p \<Rightarrow>
          (let paths = px_Paths proxy;
               proxy1 = proxy\<lparr>px_prefixMapping := p, px_Paths := (\<lambda>_. None)\<rparr>
           in go_bind (go_fold (restore_prefix paths) pks proxy1) (\<lambda>proxy2.
              go_bind (acl_add_all ips NewRadixTree) (\<lambda>blackList.
                let proxy3 = proxy2\<lparr>px_Acl := blackList, px_rateLimiters := (\<lambda>_. None)\<rparr>
                in go_bind (go_fold (restore_limiters lib) rks proxy3) (\<lambda>proxy4. Inr (None, proxy4))))))"

section \<open>The tables come back\<close>

text \<open>
  Part of the prefixes is back: those have a fresh balancer, the others none.
\<close>

definition restoring :: "view \<Rightarrow> string set \<Rightarrow> 'l HttpReverseProxy \<Rightarrow> bool" where
  "restoring v K px \<longleftrightarrow>
     px_mu px = unlocked \<and> hp_mu (px_prefixMapping px) = unlocked \<and>
     (\<forall>p. hp_Mapping (px_prefixMapping px) p =
        (if p \<in> K then map_option (\<lambda>hs. RR (NewRoundRobin hs)) (v_hosts v p) else None)) \<and>
     (\<forall>p. px_Paths px p = (if p \<in> K then v_hosts v p else None)) \<and>
     (\<forall>p. px_BalancerType px p = (if v_hosts v p = None then None else Some TypeRoundRobin)) \<and>
     (\<forall>p. px_StaticMapping px p = (if p \<in> K then Some (v_static v p = Some True) else v_static v p))"

definition other_fields_same :: "'l HttpReverseProxy \<Rightarrow> 'l HttpReverseProxy \<Rightarrow> bool" where
  "other_fields_same px px' \<longleftrightarrow>
     px_Port px' = px_Port px \<and> px_PrefixerType px' = px_PrefixerType px \<and> px_Acl px' = px_Acl px \<and>
     px_Available px' = px_Available px \<and> px_RateLimiterType px' = px_RateLimiterType px \<and>
     px_rateLimiters px' = px_rateLimiters px \<and> px_serving px' = px_serving px \<and> px_Shutdown px' = px_Shutdown px"

lemma restore_prefix_step:
  assumes "restoring v K px" "v_hosts v k = Some hs" "k \<notin> K"
  shows "\<exists>px'. restore_prefix (v_hosts v) k px = Inr px' \<and> restoring v (insert k K) px' \<and> other_fields_same px px'"
proof -
  note r = assms(1)[unfolded restoring_def]
  let ?static = "map_get False (px_StaticMapping px) k"
  let ?pm = "(px_prefixMapping px)\<lparr>hp_Mapping :=
      (hp_Mapping (px_prefixMapping px))(k \<mapsto> RR (NewRoundRobin hs))\<rparr>"
  let ?px = "px\<lparr>px_mu := unlocked, px_StaticMapping := (px_StaticMapping px)(k \<mapsto> ?static),
      px_prefixMapping := ?pm, px_BalancerType := (px_BalancerType px)(k \<mapsto> TypeRoundRobin),
      px_Paths := (px_Paths px)(k \<mapsto> hs)\<rparr>"
  have lb: "map_get '''' (px_BalancerType px) k = TypeRoundRobin" "map_get [] (v_hosts v) k = hs"
    using r assms(2) by (simp_all add: map_get_def)
  have static: "?static = (v_static v k = Some True)"
    using r assms(3) by (cases "v_static v k") (auto simp: map_get_def)
  have "TypeRoundRobin \<noteq> TypeConsistenceHash" by (simp add: TypeRoundRobin_def TypeConsistenceHash_def)
  from hp_Add_rr[OF _ this, of "px_prefixMapping px" k hs]
  have "restore_prefix (v_hosts v) k px = Inr ?px"
    using r assms(3) by (simp add: restore_prefix_def lb AddPrefix_eq hp_List_def need_balancer_def
        hp_GetBalancer_def rr_Hosts_def NewRoundRobin_def)
  moreover have "restoring v (insert k K) ?px"
    using r assms(2,3) static by (simp add: restoring_def)
  ultimately show ?thesis by (auto simp: other_fields_same_def)
qed

lemma other_fields_same_trans:
  "other_fields_same a b \<Longrightarrow> other_fields_same b c \<Longrightarrow> other_fields_same a c"
  by (simp add: other_fields_same_def)

lemma restore_prefixes:
  assumes "restoring v K px" "distinct pks" "set pks \<inter> K = {}" "set pks \<subseteq> dom (v_hosts v)"
  shows "\<exists>px'. go_fold (restore_prefix (v_hosts v)) pks px = Inr px' \<and> restoring v (set pks \<union> K) px' \<and>
    other_fields_same px px'"
  using assms
proof (induction pks arbitrary: K px)
  case Nil
  then show ?case by (simp add: other_fields_same_def)
next
  case (Cons k pks)
  then obtain hs where "v_hosts v k = Some hs" "k \<notin> K" by auto
  from restore_prefix_step[OF Cons.prems(1) this] obtain px1 where
    px1: "restore_prefix (v_hosts v) k px = Inr px1" "restoring v (insert k K) px1" "other_fields_same px px1"
    by blast
  have "distinct pks" "set pks \<inter> insert k K = {}" "set pks \<subseteq> dom (v_hosts v)" using Cons.prems by auto
  from Cons.IH[OF px1(2) this] obtain px2 where
    px2: "go_fold (restore_prefix (v_hosts v)) pks px1 = Inr px2" "restoring v (set pks \<union> insert k K) px2"
    "other_fields_same px1 px2" by blast
  with px1 other_fields_same_trans[OF px1(3) px2(3)] show ?case by (intro exI[of _ px2]) simp
qed

section \<open>The limiters come back, and their records twice\<close>

definition good_info :: "LimiterInfo \<Rightarrow> bool" where
  "good_info v \<longleftrightarrow> li_Type v = ''qps'' \<and> li_Speed v \<noteq> 0"

lemma createRateLimiter_info:
  assumes "px_mu px = unlocked" "good_info v"
  shows "\<exists>l. createRateLimiter lib prefix (li_Url v) (li_Type v) (li_Init v) (li_Speed v) px =
    Inr (None, px\<lparr>px_rateLimiters := (px_rateLimiters px)(compelete_url prefix (li_Url v) \<mapsto> l),
      px_RateLimiterType := (px_RateLimiterType px)(prefix \<mapsto> map_get [] (px_RateLimiterType px) prefix @ [v])\<rparr>)"
  using assms by (cases v; cases px)
    (auto simp: createRateLimiter_def Limiter_Build_def good_info_def SetRate_def go_div_def Let_def)

lemma restore_infos:
  assumes "px_mu px = unlocked" "\<forall>v \<in> set vs. good_info v"
  shows "\<exists>L. go_fold (\<lambda>v px. go_bind (createRateLimiter lib prefix (li_Url v) (li_Type v) (li_Init v) (li_Speed v) px)
         (\<lambda>(err, px1). Inr px1)) vs px =
      Inr (px\<lparr>px_rateLimiters := L, px_RateLimiterType :=
        (if vs = [] then px_RateLimiterType px
         else (px_RateLimiterType px)(prefix \<mapsto> map_get [] (px_RateLimiterType px) prefix @ vs))\<rparr>) \<and>
    dom L = dom (px_rateLimiters px) \<union> (\<lambda>v. compelete_url prefix (li_Url v)) ` set vs"
  using assms
proof (induction vs arbitrary: px)
  case Nil
  show ?case by (rule exI[of _ "px_rateLimiters px"]) simp
next
  case (Cons v vs)
  then obtain l where l: "createRateLimiter lib prefix (li_Url v) (li_Type v) (li_Init v) (li_Speed v) px =
    Inr (None, px\<lparr>px_rateLimiters := (px_rateLimiters px)(compelete_url prefix (li_Url v) \<mapsto> l),
      px_RateLimiterType := (px_RateLimiterType px)(prefix \<mapsto> map_get [] (px_RateLimiterType px) prefix @ [v])\<rparr>)"
    using createRateLimiter_info[of px v lib prefix] by auto
  let ?px = "px\<lparr>px_rateLimiters := (px_rateLimiters px)(compelete_url prefix (li_Url v) \<mapsto> l),
      px_RateLimiterType := (px_RateLimiterType px)(prefix \<mapsto> map_get [] (px_RateLimiterType px) prefix @ [v])\<rparr>"
  have "px_mu ?px = unlocked" "\<forall>v \<in> set vs. good_info v" using Cons.prems by simp_all
  from Cons.IH[OF this] obtain L where
    L: "go_fold (\<lambda>v px. go_bind (createRateLimiter lib prefix (li_Url v) (li_Type v) (li_Init v) (li_Speed v) px)
         (\<lambda>(err, px1). Inr px1)) vs ?px =
      Inr (?px\<lparr>px_rateLimiters := L, px_RateLimiterType :=
        (if vs = [] then px_RateLimiterType ?px
         else (px_RateLimiterType ?px)(prefix \<mapsto> map_get [] (px_RateLimiterType ?px) prefix @ vs))\<rparr>)"
    "dom L = dom (px_rateLimiters ?px) \<union> (\<lambda>v. compelete_url prefix (li_Url v)) ` set vs" by blast
  have infos: "(if vs = [] then px_RateLimiterType ?px
         else (px_RateLimiterType ?px)(prefix \<mapsto> map_get [] (px_RateLimiterType ?px) prefix @ vs)) =
      (px_RateLimiterType px)(prefix \<mapsto> map_get [] (px_RateLimiterType px) prefix @ (v # vs))"
    by (cases vs) (simp_all add: map_get_def)
  have "go_fold (\<lambda>v px. go_bind (createRateLimiter lib prefix (li_Url v) (li_Type v) (li_Init v) (li_Speed v) px)
         (\<lambda>(err, px1). Inr px1)) (v # vs) px =
      go_fold (\<lambda>v px. go_bind (createRateLimiter lib prefix (li_Url v) (li_Type v) (li_Init v) (li_Speed v) px)
         (\<lambda>(err, px1). Inr px1)) vs ?px" by (simp add: l)
  moreover have "dom L = dom (px_rateLimiters px) \<union> (\<lambda>v. compelete_url prefix (li_Url v)) ` set (v # vs)"
    using L(2) by simp
  ultimately show ?case unfolding L(1) infos by (intro exI[of _ L] conjI) (simp_all add: fun_upd_def)
qed

definition infos_of :: "'l HttpReverseProxy \<Rightarrow> string \<Rightarrow> LimiterInfo list" where
  "infos_of px p = map_get [] (px_RateLimiterType px) p"

lemma restore_limiters_one:
  assumes "px_mu px = unlocked" "\<forall>v \<in> set (infos_of px p). good_info v"
  shows "\<exists>L. restore_limiters lib p px = Inr (px\<lparr>px_rateLimiters := L, px_RateLimiterType :=
      (\<lambda>q. if q = p then map_option (\<lambda>i. i @ i) (px_RateLimiterType px q) else px_RateLimiterType px q)\<rparr>) \<and>
    dom L = dom (px_rateLimiters px) \<union> (\<lambda>v. compelete_url p (li_Url v)) ` set (infos_of px p)"
proof -
  from restore_infos[OF assms, of lib p] obtain L where
    L: "restore_limiters lib p px = Inr (px\<lparr>px_rateLimiters := L, px_RateLimiterType :=
        (if infos_of px p = [] then px_RateLimiterType px
         else (px_RateLimiterType px)(p \<mapsto> map_get [] (px_RateLimiterType px) p @ infos_of px p))\<rparr>)"
    "dom L = dom (px_rateLimiters px) \<union> (\<lambda>v. compelete_url p (li_Url v)) ` set (infos_of px p)"
    unfolding restore_limiters_def infos_of_def by blast
  have eq: "(if infos_of px p = [] then px_RateLimiterType px
         else (px_RateLimiterType px)(p \<mapsto> map_get [] (px_RateLimiterType px) p @ infos_of px p)) =
      (\<lambda>q. if q = p then map_option (\<lambda>i. i @ i) (px_RateLimiterType px q) else px_RateLimiterType px q)"
    by (cases "px_RateLimiterType px p") (auto simp: infos_of_def map_get_def fun_eq_iff)
  show ?thesis by (intro exI[of _ L] conjI L(1)[unfolded eq] L(2))
qed

lemma restore_limiters_all:
  assumes "px_mu px = unlocked" "distinct rks" "\<forall>p \<in> set rks. \<forall>v \<in> set (infos_of px p). good_info v"
  shows "\<exists>L. go_fold (restore_limiters lib) rks px = Inr (px\<lparr>px_rateLimiters := L, px_RateLimiterType :=
      (\<lambda>q. if q \<in> set rks then map_option (\<lambda>i. i @ i) (px_RateLimiterType px q) else px_RateLimiterType px q)\<rparr>) \<and>
    dom L = dom (px_rateLimiters px) \<union> (\<Union>p \<in> set rks. (\<lambda>v. compelete_url p (li_Url v)) ` set (infos_of px p))"
  using assms
proof (induction rks arbitrary: px)
  case Nil
  show ?case by (rule exI[of _ "px_rateLimiters px"]) simp
next
  case (Cons p rks)
  have good: "\<forall>v \<in> set (infos_of px p). good_info v" using Cons.prems(3) by simp
  from restore_limiters_one[OF Cons.prems(1) good, of lib] obtain L1 where
    L1: "restore_limiters lib p px = Inr (px\<lparr>px_rateLimiters := L1, px_RateLimiterType :=
      (\<lambda>q. if q = p then map_option (\<lambda>i. i @ i) (px_RateLimiterType px q) else px_RateLimiterType px q)\<rparr>)"
    "dom L1 = dom (px_rateLimiters px) \<union> (\<lambda>v. compelete_url p (li_Url v)) ` set (infos_of px p)" by blast
  let ?px = "px\<lparr>px_rateLimiters := L1, px_RateLimiterType :=
      (\<lambda>q. if q = p then map_option (\<lambda>i. i @ i) (px_RateLimiterType px q) else px_RateLimiterType px q)\<rparr>"
  have same: "infos_of ?px q = infos_of px q" if "q \<in> set rks" for q
    using that Cons.prems(2) by (auto simp: infos_of_def map_get_def)
  have "\<forall>p \<in> set rks. \<forall>v \<in> set (infos_of ?px p). good_info v"
  proof (intro ballI)
    fix q i assume q: "q \<in> set rks" and "i \<in> set (infos_of ?px q)"
    with same[OF q] Cons.prems(3) show "good_info i" by simp
  qed
  moreover have "px_mu ?px = unlocked" "distinct rks" using Cons.prems(1,2) by simp_all
  ultimately have "px_mu ?px = unlocked" "distinct rks" "\<forall>p \<in> set rks. \<forall>v \<in> set (infos_of ?px p). good_info v"
    by blast+
  from Cons.IH[OF this] obtain L where
    L: "go_fold (restore_limiters lib) rks ?px = Inr (?px\<lparr>px_rateLimiters := L, px_RateLimiterType :=
      (\<lambda>q. if q \<in> set rks then map_option (\<lambda>i. i @ i) (px_RateLimiterType ?px q) else px_RateLimiterType ?px q)\<rparr>)"
    "dom L = dom (px_rateLimiters ?px) \<union> (\<Union>p \<in> set rks. (\<lambda>v. compelete_url p (li_Url v)) ` set (infos_of ?px p))"
    by blast
  have infos: "(\<lambda>q. if q \<in> set rks then map_option (\<lambda>i. i @ i) (px_RateLimiterType ?px q) else px_RateLimiterType ?px q) =
      (\<lambda>q. if q \<in> set (p # rks) then map_option (\<lambda>i. i @ i) (px_RateLimiterType px q) else px_RateLimiterType px q)"
    using Cons.prems(2) by (auto simp: fun_eq_iff)
  have "dom L = dom (px_rateLimiters px) \<union> (\<Union>p \<in> set (p # rks). (\<lambda>v. compelete_url p (li_Url v)) ` set (infos_of px p))"
    using L(2) L1(2) same by auto
  moreover have "go_fold (restore_limiters lib) (p # rks) px = go_fold (restore_limiters lib) rks ?px"
    by (simp add: L1(1))
  ultimately show ?case unfolding L(1) infos by (intro exI[of _ L] conjI) simp_all
qed

section \<open>What Restore does\<close>

text \<open>The view with the static flags of existing prefixes written out.\<close>

definition restored_view :: "view \<Rightarrow> view" where
  "restored_view v = v\<lparr>v_static :=
     (\<lambda>p. if v_hosts v p = None then v_static v p else Some (v_static v p = Some True))\<rparr>"

lemma restoring_shows_view:
  assumes "restoring v (dom (v_hosts v)) px"
  shows "shows_view px (restored_view v)"
proof -
  note r = assms[unfolded restoring_def]
  have "entry_ok (v_hosts v p) (hp_Mapping (px_prefixMapping px) p) (px_Paths px p) (px_BalancerType px p)" for p
    using r by (cases "v_hosts v p") (auto simp: entry_ok_Some NewRoundRobin_def domIff)
  moreover have "px_StaticMapping px = v_static (restored_view v)"
    using r by (auto simp: fun_eq_iff restored_view_def domIff)
  ultimately show ?thesis using r by (simp add: shows_view_def restored_view_def)
qed

lemma Restore_result:
  assumes "shows_view px v" "px_PrefixerType px = TypeHashPrefixer" "distinct pks" "set pks = dom (v_hosts v)"
    "nets_ok ips" "distinct rks" "\<forall>p \<in> set rks. \<forall>i \<in> set (infos_of px p). good_info i"
  shows "\<exists>px'. Restore lib pks ips rks px = Inr (None, px') \<and> shows_view px' (restored_view v) \<and>
    acl_add_all ips NewRadixTree = Inr (px_Acl px') \<and>
    tree_inv (px_Acl px') \<and> dom (entries (px_Acl px')) = (\<Union>s \<in> set ips. net_keys s) \<and>
    px_RateLimiterType px' = (\<lambda>q. if q \<in> set rks then map_option (\<lambda>i. i @ i) (px_RateLimiterType px q)
      else px_RateLimiterType px q) \<and>
    dom (px_rateLimiters px') = (\<Union>p \<in> set rks. (\<lambda>v. compelete_url p (li_Url v)) ` set (infos_of px p))"
proof -
  note d = shows_viewD[OF assms(1)]
  have paths: "px_Paths px = v_hosts v" by (rule shows_view_Paths[OF assms(1)])
  let ?px1 = "px\<lparr>px_prefixMapping := NewHashPrefixer, px_Paths := (\<lambda>_. None)\<rparr>"
  have lb: "px_BalancerType px p = (if v_hosts v p = None then None else Some TypeRoundRobin)" for p
    using d(4)[of p] by (cases "v_hosts v p") (auto simp: entry_ok_Some)
  then have "restoring v {} ?px1"
    using d(1,3) by (simp add: restoring_def NewHashPrefixer_def)
  from restore_prefixes[OF this assms(3)] assms(4) obtain px2 where
    px2: "go_fold (restore_prefix (v_hosts v)) pks ?px1 = Inr px2" "restoring v (dom (v_hosts v)) px2"
    "other_fields_same ?px1 px2" by auto
  from acl_history_adds[OF assms(5)] obtain t where
    t: "acl_history [AddIps ips] = Inr t" "tree_inv t" "dom (entries t) = (\<Union>s \<in> set ips. net_keys s)" by blast
  from t(1) have t1: "acl_add_all ips NewRadixTree = Inr t" by (simp add: acl_history_def go_bind_eq_Inr_iff)
  let ?px3 = "px2\<lparr>px_Acl := t, px_rateLimiters := (\<lambda>_. None)\<rparr>"
  have rt: "px_RateLimiterType px2 = px_RateLimiterType px" using px2(3) by (simp add: other_fields_same_def)
  have infos: "infos_of ?px3 = infos_of px" by (rule ext) (simp add: infos_of_def rt)
  have mu: "px_mu ?px3 = unlocked" using px2(2) by (simp add: restoring_def)
  have rt3: "px_RateLimiterType ?px3 = px_RateLimiterType px" by (simp add: rt)
  have good3: "\<forall>p \<in> set rks. \<forall>i \<in> set (infos_of ?px3 p). good_info i" using assms(7) by (simp only: infos)
  from restore_limiters_all[OF mu assms(6) good3, of lib, unfolded infos rt3] obtain L where
    L: "go_fold (restore_limiters lib) rks ?px3 = Inr (?px3\<lparr>px_rateLimiters := L, px_RateLimiterType :=
      (\<lambda>q. if q \<in> set rks then map_option (\<lambda>i. i @ i) (px_RateLimiterType px q) else px_RateLimiterType px q)\<rparr>)"
    and L': "dom L = dom (px_rateLimiters ?px3) \<union> (\<Union>p \<in> set rks. (\<lambda>v. compelete_url p (li_Url v)) ` set (infos_of px p))"
    by blast
  let ?px4 = "?px3\<lparr>px_rateLimiters := L, px_RateLimiterType :=
      (\<lambda>q. if q \<in> set rks then map_option (\<lambda>i. i @ i) (px_RateLimiterType px q) else px_RateLimiterType px q)\<rparr>"
  have "Restore lib pks ips rks px = Inr (None, ?px4)"
    using px2(1) t1 L by (simp add: Restore_def assms(2) Prefixer_Build_def paths)
  moreover have "shows_view ?px4 (restored_view v)"
    using restoring_shows_view[OF px2(2)] by (simp add: shows_view_def)
  ultimately show ?thesis using t(2,3) t1 L' by (intro exI[of _ ?px4]) simp
qed

text \<open>
  \<open>Restore\<close> brings back every prefix with its hosts and static flag, a blacklist that turns
  away exactly the clients covered by the recorded networks, and a limiter for every recorded
  path.
\<close>

theorem restore_rebuilds_proxy:
  assumes "shows_view px v" "px_PrefixerType px = TypeHashPrefixer" "distinct pks" "set pks = dom (v_hosts v)"
    "nets_ok ips" "distinct rks" "\<forall>p \<in> set rks. \<forall>i \<in> set (infos_of px p). good_info i"
  shows "\<exists>px'. Restore lib pks ips rks px = Inr (None, px') \<and> shows_view px' (restored_view v) \<and>
    (\<forall>addr. client_ok addr \<longrightarrow> AccessControl (px_Acl px') addr = Inr (\<exists>s \<in> set ips. covers s (client_word addr))) \<and>
    dom (px_rateLimiters px') = {compelete_url p (li_Url i) | p i. p \<in> set rks \<and> i \<in> set (infos_of px p)}"
proof -
  from Restore_result[OF assms, of lib] obtain px' where
    px': "Restore lib pks ips rks px = Inr (None, px')" "shows_view px' (restored_view v)"
    "tree_inv (px_Acl px')" "dom (entries (px_Acl px')) = (\<Union>s \<in> set ips. net_keys s)"
    "dom (px_rateLimiters px') = (\<Union>p \<in> set rks. (\<lambda>v. compelete_url p (li_Url v)) ` set (infos_of px p))" by blast
  have "AccessControl (px_Acl px') addr = Inr (\<exists>s \<in> set ips. covers s (client_word addr))" if "client_ok addr" for addr
    unfolding AccessControl_entries[OF px'(3) that] px'(4) covers_iff_key by auto
  moreover have "dom (px_rateLimiters px') = {compelete_url p (li_Url i) | p i. p \<in> set rks \<and> i \<in> set (infos_of px p)}"
    unfolding px'(5) by auto
  ultimately show ?thesis using px'(1,2) by blast
qed

text \<open>
  \<open>Restore\<close> records every rate limiter a second time, so the records double with each
  restore.
\<close>

theorem restore_doubles_limiter_records:
  assumes "shows_view px v" "px_PrefixerType px = TypeHashPrefixer" "distinct pks" "set pks = dom (v_hosts v)"
    "nets_ok ips" "distinct rks" "\<forall>p \<in> set rks. \<forall>i \<in> set (infos_of px p). good_info i"
    "p \<in> set rks" "px_RateLimiterType px p = Some infos"
  shows "\<exists>px'. Restore lib pks ips rks px = Inr (None, px') \<and> px_RateLimiterType px' p = Some (infos @ infos)"
proof -
  from Restore_result[OF assms(1-7), of lib] obtain px' where
    "Restore lib pks ips rks px = Inr (None, px')"
    "px_RateLimiterType px' = (\<lambda>q. if q \<in> set rks then map_option (\<lambda>i. i @ i) (px_RateLimiterType px q)
      else px_RateLimiterType px q)" by blast
  with assms(8,9) show ?thesis by simp
qed

definition example_info :: LimiterInfo where
  "example_info = \<lparr>li_Url = ''/x'', li_Type = ''qps'', li_Init = 5, li_Speed = 10\<rparr>"

definition example_view :: view where
  "example_view = \<lparr>v_hosts = [''/api'' \<mapsto> [''a:1'', ''b:2'']], v_static = [''/api'' \<mapsto> False]\<rparr>"

text \<open>A proxy with one prefix and one limiter record.\<close>

lemma example_proxy:
  "\<exists>px :: bucket HttpReverseProxy. shows_view px example_view \<and> px_PrefixerType px = TypeHashPrefixer \<and>
    px_RateLimiterType px = [''/api'' \<mapsto> [example_info]]"
proof -
  from new_proxy_fields[of 9000] obtain px0 :: "bucket HttpReverseProxy" where
    px0: "NewHttpReverseProxy (hash_prefixer_args 9000) = Inr px0" "shows_view px0 new_view" by blast
  have ty: "px_PrefixerType px0 = TypeHashPrefixer"
    using px0(1) by (auto simp: NewHttpReverseProxy_def hash_prefixer_args_def Prefixer_Build_def)
  let ?px = "px0\<lparr>px_Paths := [''/api'' \<mapsto> [''a:1'', ''b:2'']], px_BalancerType := [''/api'' \<mapsto> TypeRoundRobin],
    px_StaticMapping := [''/api'' \<mapsto> False], px_RateLimiterType := [''/api'' \<mapsto> [example_info]],
    px_prefixMapping := NewHashPrefixer\<lparr>hp_Mapping := [''/api'' \<mapsto> RR (NewRoundRobin [''a:1'', ''b:2''])]\<rparr>\<rparr>"
  have "shows_view ?px example_view"
    using px0(2) by (auto simp: shows_view_def example_view_def entry_ok_Some NewRoundRobin_def NewHashPrefixer_def)
  with ty show ?thesis by (intro exI[of _ ?px]) simp
qed

lemma example_restore_premises:
  assumes "px_RateLimiterType px = [''/api'' \<mapsto> [example_info]]"
  shows "set [''/api''] = dom (v_hosts example_view)" "nets_ok [''10.0.0.0/8'']"
    "\<forall>p \<in> set [''/api'']. \<forall>i \<in> set (infos_of px p). good_info i"
proof -
  show "nets_ok [''10.0.0.0/8'']" by code_simp
qed (use assms in \<open>simp_all add: example_view_def infos_of_def map_get_def good_info_def example_info_def\<close>)

theorem restore_rebuilds_proxy_witness:
  "\<exists>px px'. shows_view px example_view \<and>
    Restore bucket_lib [''/api''] [''10.0.0.0/8''] [''/api''] px = Inr (None, px') \<and>
    shows_view px' (restored_view example_view) \<and>
    (\<forall>addr. client_ok addr \<longrightarrow>
      AccessControl (px_Acl px') addr = Inr (\<exists>s \<in> set [''10.0.0.0/8'']. covers s (client_word addr))) \<and>
    dom (px_rateLimiters px') = {compelete_url p (li_Url i) | p i. p \<in> set [''/api''] \<and> i \<in> set (infos_of px p)}"
proof -
  from example_proxy obtain px :: "bucket HttpReverseProxy" where
    px: "shows_view px example_view" "px_PrefixerType px = TypeHashPrefixer"
    "px_RateLimiterType px = [''/api'' \<mapsto> [example_info]]" by blast
  have "distinct [''/api'']" by simp
  from restore_rebuilds_proxy[OF px(1,2) this example_restore_premises(1,2)[OF px(3)] this
      example_restore_premises(3)[OF px(3)], of bucket_lib] px(1)
  show ?thesis by blast
qed

theorem restore_doubles_limiter_records_witness:
  "\<exists>px px'. px_RateLimiterType px ''/api'' = Some [example_info] \<and>
    Restore bucket_lib [''/api''] [''10.0.0.0/8''] [''/api''] px = Inr (None, px') \<and>
    px_RateLimiterType px' ''/api'' = Some ([example_info] @ [example_info])"
proof -
  from example_proxy obtain px :: "bucket HttpReverseProxy" where
    px: "shows_view px example_view" "px_PrefixerType px = TypeHashPrefixer"
    "px_RateLimiterType px = [''/api'' \<mapsto> [example_info]]" by blast
  then have infos: "px_RateLimiterType px ''/api'' = Some [example_info]" by simp
  have "distinct [''/api'']" "''/api'' \<in> set [''/api'']" by simp_all
  from restore_doubles_limiter_records[OF px(1,2) this(1) example_restore_premises(1,2)[OF px(3)] this(1)
      example_restore_premises(3)[OF px(3)] this(2) infos, of bucket_lib] infos
  show ?thesis by blast
qed

section \<open>A rate that stops the restart\<close>

text \<open>
  A command that sets the speed 0 for a path with a limiter divides by zero, and leaves the 0 in the record of
  the path (\<open>SetRateLimit_leaves\<close>). The server of a node in stand mode recovers and the node runs on, but a
  \<open>Restore\<close> from the fields it has then divides by zero as well, where nothing recovers.
\<close>

lemma set_info_split:
  "\<exists>i \<in> set infos. li_Url i = url \<Longrightarrow> \<exists>us v vs. set_info url ini 0 infos = us @ v # vs \<and> set us \<subseteq> set infos \<and>
    (\<exists>w \<in> set infos. li_Type v = li_Type w) \<and> li_Speed v = 0"
proof (induction infos)
  case (Cons i infos)
  show ?case
  proof (cases "li_Url i = url")
    case True
    then show ?thesis by (intro exI[of _ "[]"] exI[of _ "i\<lparr>li_Init := ini, li_Speed := 0\<rparr>"] exI[of _ infos]) simp
  next
    case False
    with Cons obtain us v vs where "set_info url ini 0 infos = us @ v # vs" "set us \<subseteq> set infos"
      "\<exists>w \<in> set infos. li_Type v = li_Type w" "li_Speed v = 0" by auto
    with False show ?thesis by (intro exI[of _ "i # us"] exI[of _ v] exI[of _ vs]) auto
  qed
qed simp

lemma zero_speed_stops_restore:
  assumes "px_mu px = unlocked" "px_rateLimiters px (compelete_url prefix url) = Some l"
    "px_RateLimiterType px prefix = Some infos" "\<forall>i \<in> set infos. good_info i" "\<exists>i \<in> set infos. li_Url i = url"
  shows "\<exists>left. SetRateLimit_outcome lib prefix url ty ini 0 px = (Some DivideByZero, left) \<and>
    restore_limiters lib prefix left = Inl DivideByZero"
proof -
  let ?left = "px\<lparr>px_RateLimiterType := (px_RateLimiterType px)(prefix \<mapsto> set_info url ini 0 infos)\<rparr>"
  let ?add = "\<lambda>v px :: 'a HttpReverseProxy. go_bind (createRateLimiter lib prefix (li_Url v) (li_Type v) (li_Init v) (li_Speed v) px)
    (\<lambda>(err, px1). Inr px1)"
  have out: "SetRateLimit_outcome lib prefix url ty ini 0 px = (Some DivideByZero, ?left)"
    by (rule SetRateLimit_leaves(2)[OF assms(1-3)])
  from set_info_split[OF assms(5), of ini] obtain us v vs where
    uv: "set_info url ini 0 infos = us @ v # vs" "set us \<subseteq> set infos" "\<exists>w \<in> set infos. li_Type v = li_Type w" "li_Speed v = 0"
    by blast
  then have "\<forall>u \<in> set us. good_info u" "li_Type v = ''qps''" using assms(4) by (auto simp: good_info_def)
  moreover have "px_mu ?left = unlocked" using assms(1) by simp
  ultimately obtain L T where L: "go_fold ?add us ?left = Inr (?left\<lparr>px_rateLimiters := L, px_RateLimiterType := T\<rparr>)"
    and ty: "li_Type v = ''qps''" using restore_infos[of ?left us lib prefix] by blast
  have "?add v (?left\<lparr>px_rateLimiters := L, px_RateLimiterType := T\<rparr>) = Inl DivideByZero"
    using assms(1) ty uv(4) by (simp add: createRateLimiter_def Limiter_Build_def SetRate_def go_div_def Let_def)
  then have "go_fold ?add (us @ v # vs) ?left = Inl DivideByZero" unfolding go_fold_append L by simp
  with out show ?thesis by (auto simp: restore_limiters_def map_get_def uv(1))
qed

end
