(* ===== verification/LogEntry.thy ===== *)
theory LogEntry
  imports Prelude "HOL-Library.Countable"
begin

text \<open>
  The commands of the replicated log: the option codes of \<open>src/vermouth/context.go\<close>, the entry format
  of \<open>log_entry.go\<close> and the bodies of \<open>log_entry_structs.go\<close>. The bodies travel in Go's \<open>gob\<close>
  encoding, which belongs to the standard library: the record \<open>gob\<close> holds its encoder and, per body
  type, its decoder, and \<open>gob_ok\<close> is what it documents.
\<close>

type_synonym bytes = "8 word list"

section \<open>Option codes\<close>

definition ADD_HTTP_PROXY :: "16 word" where "ADD_HTTP_PROXY = 0x0001"
definition ADD_HTTP_PROXY_PREFIX :: "16 word" where "ADD_HTTP_PROXY_PREFIX = 0x0002"
definition ADD_HTTP_PROXY_HOST :: "16 word" where "ADD_HTTP_PROXY_HOST = 0x0003"
definition ADD_HTTP_BLACK_LIST :: "16 word" where "ADD_HTTP_BLACK_LIST = 0x0004"
definition RMV_HTTP_PROXY_PREFIX :: "16 word" where "RMV_HTTP_PROXY_PREFIX = 0x0005"
definition RMV_HTTP_PROXY_HOST :: "16 word" where "RMV_HTTP_PROXY_HOST = 0x0006"
definition RMV_HTTP_BLACK_LIST :: "16 word" where "RMV_HTTP_BLACK_LIST = 0x0007"
definition RMV_HTTP_PROXY :: "16 word" where "RMV_HTTP_PROXY = 0x0008"
definition SET_RATE_LIMITER :: "16 word" where "SET_RATE_LIMITER = 0x0009"
definition CHG_STATIC :: "16 word" where "CHG_STATIC = 0x0010"
definition CHG_LB :: "16 word" where "CHG_LB = 0x0011"
definition CHG_STATE :: "16 word" where "CHG_STATE = 0x0012"

lemmas option_codes =
  ADD_HTTP_PROXY_def ADD_HTTP_PROXY_PREFIX_def ADD_HTTP_PROXY_HOST_def ADD_HTTP_BLACK_LIST_def
  RMV_HTTP_PROXY_PREFIX_def RMV_HTTP_PROXY_HOST_def RMV_HTTP_BLACK_LIST_def RMV_HTTP_PROXY_def
  SET_RATE_LIMITER_def CHG_STATIC_def CHG_LB_def CHG_STATE_def

section \<open>Entries\<close>

definition HeaderSize :: nat where "HeaderSize = 4"

record LogEntry =
  le_Opt :: "16 word"
  le_Data :: bytes

text \<open>\<open>binary.BigEndian\<close>: both functions panic on fewer than two bytes.\<close>

definition BigEndian_PutUint16 :: "bytes \<Rightarrow> 16 word \<Rightarrow> bytes go" where
  "BigEndian_PutUint16 b v =
     (case b of
        b0 # b1 # bs \<Rightarrow> Inr (ucast (drop_bit 8 v) # ucast v # bs)
      | _ \<Rightarrow> Inl IndexOutOfRange)"

definition BigEndian_Uint16 :: "bytes \<Rightarrow> 16 word go" where
  "BigEndian_Uint16 b =
     (case b of
        b0 # b1 # bs \<Rightarrow> Inr (push_bit 8 (ucast b0) OR ucast b1)
      | _ \<Rightarrow> Inl IndexOutOfRange)"

definition Encode :: "LogEntry \<Rightarrow> bytes go" where
  "Encode entry =
     go_bind (BigEndian_PutUint16 (replicate HeaderSize 0) (le_Opt entry)) (\<lambda>buf. Inr (buf @ le_Data entry))"

text \<open>\<open>data[4:]\<close> panics when there are fewer than four bytes.\<close>

definition tail4 :: "bytes \<Rightarrow> bytes go" where
  "tail4 data = (if length data < 4 then Inl SliceBounds else Inr (drop 4 data))"

definition Decode :: "bytes \<Rightarrow> LogEntry \<Rightarrow> LogEntry go" where
  "Decode data entry =
     go_bind (BigEndian_Uint16 data) (\<lambda>opt.
     go_bind (tail4 data) (\<lambda>rest. Inr (entry\<lparr>le_Opt := opt, le_Data := rest\<rparr>)))"

lemma uint16_bytes: "push_bit 8 (ucast (ucast (drop_bit 8 v) :: 8 word)) OR ucast (ucast v :: 8 word) = (v :: 16 word)"
proof (rule bit_word_eqI)
  fix n assume n: "n < LENGTH(16)"
  show "bit (push_bit 8 (ucast (ucast (drop_bit 8 v) :: 8 word)) OR ucast (ucast v :: 8 word) :: 16 word) n \<longleftrightarrow> bit v n"
  proof (cases "n < 8")
    case True
    then show ?thesis using n by (simp add: bit_simps)
  next
    case False
    then have "8 + (n - 8) = n" "n - 8 < 8" using n by simp_all
    then show ?thesis using n False by (simp add: bit_simps)
  qed
qed

lemma Uint16_header: "BigEndian_Uint16 (ucast (drop_bit 8 v) # ucast v # bs) = Inr v"
  by (simp add: BigEndian_Uint16_def uint16_bytes)

lemma Encode_eq: "Encode entry = Inr ([ucast (drop_bit 8 (le_Opt entry)), ucast (le_Opt entry), 0, 0] @ le_Data entry)"
  by (simp add: Encode_def BigEndian_PutUint16_def HeaderSize_def numeral_eq_Suc)

text \<open>
  C25: what \<open>Encode\<close> writes, \<open>Decode\<close> reads back into any entry, and neither panics.
\<close>

theorem log_entry_round_trip: "\<exists>buf. Encode entry = Inr buf \<and> length buf = HeaderSize + length (le_Data entry) \<and>
    Decode buf old = Inr (old\<lparr>le_Opt := le_Opt entry, le_Data := le_Data entry\<rparr>)"
  by (simp add: Encode_eq Decode_def Uint16_header tail4_def HeaderSize_def)

section \<open>Bodies\<close>

record addHttpProxyBody =
  ahp_Port :: int
  ahp_PrefixType :: string

record changeHttpProxyStateBody =
  chs_Port :: int
  chs_State :: int

record addHttpProxyPrefixBody =
  app_Port :: int
  app_Static :: bool
  app_Prefix :: string
  app_BalanceType :: string
  app_ProxyPass :: "string list"

record httpProxyHostBody =
  hph_Port :: int
  hph_Prefix :: string
  hph_Host :: string

record httpBlackListBody =
  hbl_Port :: int
  hbl_Ips :: "string list"

record removeHttpProxyPrefixBody =
  rpp_Port :: int
  rpp_Prefix :: string

record removeHttpProxyBody =
  rhp_Port :: int

record httpRateLimiterBody =
  hrl_Port :: int
  hrl_Prefix :: string
  hrl_Url :: string
  hrl_Type :: string
  hrl_Volumn :: int
  hrl_Speed :: int

record httpChangeStatic =
  hcs_Port :: int
  hcs_Prefix :: string

record httpChangeLbBody =
  hcl_Port :: int
  hcl_Prefix :: string
  hcl_Lb :: string

text \<open>What \<open>encode(obj interface{})\<close> is given.\<close>

datatype body =
    BAddHttpProxy addHttpProxyBody
  | BChangeState changeHttpProxyStateBody
  | BAddPrefix addHttpProxyPrefixBody
  | BHost httpProxyHostBody
  | BBlackList httpBlackListBody
  | BRemovePrefix removeHttpProxyPrefixBody
  | BRemoveHttpProxy removeHttpProxyBody
  | BRateLimiter httpRateLimiterBody
  | BChangeStatic httpChangeStatic
  | BChangeLb httpChangeLbBody

section \<open>gob\<close>

record gob =
  gob_encode :: "body \<Rightarrow> bytes option"
  gob_addHttpProxy :: "bytes \<Rightarrow> addHttpProxyBody option"
  gob_changeState :: "bytes \<Rightarrow> changeHttpProxyStateBody option"
  gob_addPrefix :: "bytes \<Rightarrow> addHttpProxyPrefixBody option"
  gob_host :: "bytes \<Rightarrow> httpProxyHostBody option"
  gob_blackList :: "bytes \<Rightarrow> httpBlackListBody option"
  gob_removePrefix :: "bytes \<Rightarrow> removeHttpProxyPrefixBody option"
  gob_removeHttpProxy :: "bytes \<Rightarrow> removeHttpProxyBody option"
  gob_rateLimiter :: "bytes \<Rightarrow> httpRateLimiterBody option"
  gob_changeStatic :: "bytes \<Rightarrow> httpChangeStatic option"
  gob_changeLb :: "bytes \<Rightarrow> httpChangeLbBody option"

fun gob_reads :: "gob \<Rightarrow> bytes \<Rightarrow> body \<Rightarrow> bool" where
  "gob_reads g data (BAddHttpProxy b) = (gob_addHttpProxy g data = Some b)"
| "gob_reads g data (BChangeState b) = (gob_changeState g data = Some b)"
| "gob_reads g data (BAddPrefix b) = (gob_addPrefix g data = Some b)"
| "gob_reads g data (BHost b) = (gob_host g data = Some b)"
| "gob_reads g data (BBlackList b) = (gob_blackList g data = Some b)"
| "gob_reads g data (BRemovePrefix b) = (gob_removePrefix g data = Some b)"
| "gob_reads g data (BRemoveHttpProxy b) = (gob_removeHttpProxy g data = Some b)"
| "gob_reads g data (BRateLimiter b) = (gob_rateLimiter g data = Some b)"
| "gob_reads g data (BChangeStatic b) = (gob_changeStatic g data = Some b)"
| "gob_reads g data (BChangeLb b) = (gob_changeLb g data = Some b)"

text \<open>A value of a body type can be encoded, and a decoder of its type reads it back.\<close>

definition gob_ok :: "gob \<Rightarrow> bool" where
  "gob_ok g \<longleftrightarrow> (\<forall>b. \<exists>data. gob_encode g b = Some data \<and> gob_reads g data b)"

lemma gob_okE:
  assumes "gob_ok g"
  obtains data where "gob_encode g b = Some data" "gob_reads g data b"
  using assms unfolding gob_ok_def by blast

section \<open>A codec with the laws\<close>

text \<open>A value as a string of that many zero bytes as its number in an enumeration of the type.\<close>

definition unary :: "'a :: countable \<Rightarrow> bytes" where
  "unary x = replicate (to_nat x) 0"

definition from_unary :: "bytes \<Rightarrow> 'a :: countable" where
  "from_unary bs = from_nat (length bs)"

lemma from_unary [simp]: "from_unary (unary x) = x"
  by (simp add: from_unary_def unary_def)

fun unary_body :: "body \<Rightarrow> bytes" where
  "unary_body (BAddHttpProxy b) = unary (ahp_Port b, ahp_PrefixType b)"
| "unary_body (BChangeState b) = unary (chs_Port b, chs_State b)"
| "unary_body (BAddPrefix b) =
     unary (app_Port b, app_Static b, app_Prefix b, app_BalanceType b, app_ProxyPass b)"
| "unary_body (BHost b) = unary (hph_Port b, hph_Prefix b, hph_Host b)"
| "unary_body (BBlackList b) = unary (hbl_Port b, hbl_Ips b)"
| "unary_body (BRemovePrefix b) = unary (rpp_Port b, rpp_Prefix b)"
| "unary_body (BRemoveHttpProxy b) = unary (rhp_Port b)"
| "unary_body (BRateLimiter b) =
     unary (hrl_Port b, hrl_Prefix b, hrl_Url b, hrl_Type b, hrl_Volumn b, hrl_Speed b)"
| "unary_body (BChangeStatic b) = unary (hcs_Port b, hcs_Prefix b)"
| "unary_body (BChangeLb b) = unary (hcl_Port b, hcl_Prefix b, hcl_Lb b)"

definition example_gob :: gob where
  "example_gob = \<lparr>
     gob_encode = (\<lambda>b. Some (unary_body b)),
     gob_addHttpProxy = (\<lambda>bs. case from_unary bs of (p, t) \<Rightarrow> Some \<lparr>ahp_Port = p, ahp_PrefixType = t\<rparr>),
     gob_changeState = (\<lambda>bs. case from_unary bs of (p, s) \<Rightarrow> Some \<lparr>chs_Port = p, chs_State = s\<rparr>),
     gob_addPrefix = (\<lambda>bs. case from_unary bs of (p, s, x, t, hs) \<Rightarrow>
       Some \<lparr>app_Port = p, app_Static = s, app_Prefix = x, app_BalanceType = t, app_ProxyPass = hs\<rparr>),
     gob_host = (\<lambda>bs. case from_unary bs of (p, x, h) \<Rightarrow> Some \<lparr>hph_Port = p, hph_Prefix = x, hph_Host = h\<rparr>),
     gob_blackList = (\<lambda>bs. case from_unary bs of (p, ips) \<Rightarrow> Some \<lparr>hbl_Port = p, hbl_Ips = ips\<rparr>),
     gob_removePrefix = (\<lambda>bs. case from_unary bs of (p, x) \<Rightarrow> Some \<lparr>rpp_Port = p, rpp_Prefix = x\<rparr>),
     gob_removeHttpProxy = (\<lambda>bs. Some \<lparr>rhp_Port = from_unary bs\<rparr>),
     gob_rateLimiter = (\<lambda>bs. case from_unary bs of (p, x, u, t, v, s) \<Rightarrow>
       Some \<lparr>hrl_Port = p, hrl_Prefix = x, hrl_Url = u, hrl_Type = t, hrl_Volumn = v, hrl_Speed = s\<rparr>),
     gob_changeStatic = (\<lambda>bs. case from_unary bs of (p, x) \<Rightarrow> Some \<lparr>hcs_Port = p, hcs_Prefix = x\<rparr>),
     gob_changeLb = (\<lambda>bs. case from_unary bs of (p, x, l) \<Rightarrow> Some \<lparr>hcl_Port = p, hcl_Prefix = x, hcl_Lb = l\<rparr>)\<rparr>"

lemma example_gob_ok: "gob_ok example_gob"
  unfolding gob_ok_def
proof
  fix b
  have "gob_reads example_gob (unary_body b) b" by (cases b) (simp_all add: example_gob_def)
  then show "\<exists>data. gob_encode example_gob b = Some data \<and> gob_reads example_gob data b"
    by (simp add: example_gob_def)
qed

end
