(* ===== verification/ZkDiscovery.thy ===== *)
theory ZkDiscovery
  imports NetUtils
begin

text \<open>
  Service discovery, \<open>src/discovery\<close>: the loop that watches the list of services and the loops that
  watch the nodes of one service. Each iteration of a loop is a function of what ZooKeeper answered;
  \<open>zk_sent\<close> collects the events put on the channel and \<open>zk_watching\<close> the services with a running
  \<open>watchNode\<close> goroutine. A range over a Go map takes the order of its keys as a list. The client
  library, the resolver and the JSON decoder are arguments.
\<close>

section \<open>Events\<close>

definition REMOVE_SERVICE :: int where "REMOVE_SERVICE = 0"
definition ADD_SERVICE :: int where "ADD_SERVICE = 1"
definition REMOVE_HOST :: int where "REMOVE_HOST = 2"
definition ADD_HOST :: int where "ADD_HOST = 3"
definition REMOVE_HOSTS :: int where "REMOVE_HOSTS = 4"

lemmas event_opts = REMOVE_SERVICE_def ADD_SERVICE_def REMOVE_HOST_def ADD_HOST_def REMOVE_HOSTS_def

record Event =
  ev_Opt :: int
  ev_ServiceName :: string
  ev_Host :: string
  ev_Children :: "string list"

record DiscoveryArgs =
  dc_Port :: int
  dc_Namespace :: string
  dc_Address :: "string list"
  dc_ConnectTimeout :: int

record ZookeeperServiceInfo =
  si_Address :: string
  si_Port :: int

datatype discovery_error = ErrUnknownDiscoveryClass | ErrPathNotExsists

text \<open>A \<open>contextWithCancel\<close> is kept as whether it is cancelled.\<close>

record ZookeeperDiscovery =
  zk_Services :: "string list"
  zk_Shutdown :: "string \<Rightarrow> bool option"
  zk_sent :: "Event list"
  zk_watching :: "string list"

definition SERVICES_PATH :: string where "SERVICES_PATH = ''/services''"

text \<open>\<open>zk.Connect\<close> is the client library's: \<open>connect\<close> says whether it succeeds. The result \<open>None\<close> is nil.\<close>

definition NewZookeeperDiscovery :: "(string list \<Rightarrow> int \<Rightarrow> bool) \<Rightarrow> DiscoveryArgs \<Rightarrow> ZookeeperDiscovery option" where
  "NewZookeeperDiscovery connect args =
     (if connect (dc_Address args) (dc_ConnectTimeout args)
      then Some \<lparr>zk_Services = [], zk_Shutdown = (\<lambda>_. None), zk_sent = [], zk_watching = []\<rparr> else None)"

text \<open>An unknown class is reported with the error of a missing path.\<close>

definition Discovery_Build ::
  "(string list \<Rightarrow> int \<Rightarrow> bool) \<Rightarrow> string \<Rightarrow> DiscoveryArgs \<Rightarrow> discovery_error + ZookeeperDiscovery option" where
  "Discovery_Build connect class args =
     (if class = ''zookeeper'' then Inr (NewZookeeperDiscovery connect args) else Inl ErrPathNotExsists)"

section \<open>The list of services\<close>

definition service_event :: "int \<Rightarrow> string \<Rightarrow> Event" where
  "service_event opt service = \<lparr>ev_Opt = opt, ev_ServiceName = service, ev_Host = '''', ev_Children = []\<rparr>"

text \<open>A missing entry of \<open>Shutdown\<close> has a nil \<open>cancel\<close>; calling it panics.\<close>

definition drop_service :: "string list \<Rightarrow> string \<Rightarrow> ZookeeperDiscovery \<Rightarrow> ZookeeperDiscovery go" where
  "drop_service cur lastService zk =
     (if lastService \<in> set cur then Inr zk
      else case zk_Shutdown zk lastService of
             None \<Rightarrow> Inl NilDeref
           | Some _ \<Rightarrow> Inr (zk\<lparr>zk_Shutdown := (zk_Shutdown zk)(lastService \<mapsto> True),
               zk_sent := zk_sent zk @ [service_event REMOVE_SERVICE lastService]\<rparr>))"

definition start_service :: "string \<Rightarrow> ZookeeperDiscovery \<Rightarrow> ZookeeperDiscovery" where
  "start_service service zk =
     (case zk_Shutdown zk service of
        None \<Rightarrow> zk\<lparr>zk_Shutdown := (zk_Shutdown zk)(service \<mapsto> False),
          zk_sent := zk_sent zk @ [service_event ADD_SERVICE service],
          zk_watching := service # zk_watching zk\<rparr>
      | Some _ \<Rightarrow> zk)"

text \<open>
  One iteration of \<open>watchServices\<close>: \<open>lasts\<close> is the order of the keys of \<open>Services\<close>, \<open>children\<close>
  what \<open>ChildrenW\<close> answered (\<open>None\<close> an error: the loop sleeps and tries again), \<open>curs\<close> the order of
  the keys of \<open>curServices\<close>.
\<close>

definition watchServices ::
  "string list \<Rightarrow> string list option \<Rightarrow> string list \<Rightarrow> ZookeeperDiscovery \<Rightarrow> ZookeeperDiscovery go" where
  "watchServices lasts children curs zk =
     (case children of
        None \<Rightarrow> Inr zk
      | Some cs \<Rightarrow>
          go_bind (go_fold (drop_service cs) lasts zk) (\<lambda>zk1.
            Inr ((foldl (\<lambda>z s. start_service s z) zk1 curs)\<lparr>zk_Services := curs\<rparr>)))"

section \<open>The nodes of a service\<close>

definition host_port :: "string \<Rightarrow> int \<Rightarrow> string" where
  "host_port ip port = ip @ '':'' @ Itoa port"

definition host_event :: "string \<Rightarrow> string \<Rightarrow> int \<Rightarrow> Event" where
  "host_event service ip port =
     \<lparr>ev_Opt = ADD_HOST, ev_ServiceName = service, ev_Host = host_port ip port, ev_Children = []\<rparr>"

text \<open>\<open>infos[node]\<close>: the data of a node that could be read and decoded; the zero value otherwise.\<close>

definition node_info :: "(string \<Rightarrow> ZookeeperServiceInfo option) \<Rightarrow> string \<Rightarrow> ZookeeperServiceInfo" where
  "node_info infos node = (case infos node of None \<Rightarrow> \<lparr>si_Address = '''', si_Port = 0\<rparr> | Some i \<Rightarrow> i)"

definition node_events ::
  "(string \<Rightarrow> string list option) \<Rightarrow> string \<Rightarrow> ZookeeperServiceInfo \<Rightarrow> Event list" where
  "node_events lookup service info =
     (let ip = si_Address info; port = si_Port info; cls = ValidIPAddress ip
      in if cls = ''IPv4'' then [host_event service ip port]
         else if cls = ''IPv6'' then []
         else case lookup ip of None \<Rightarrow> [] | Some addrs \<Rightarrow> map (\<lambda>addr. host_event service addr port) addrs)"

text \<open>
  One iteration of \<open>watchNode\<close>, up to the select: \<open>nodes\<close> is the answer of \<open>ChildrenW\<close> (the empty
  list when it failed), \<open>get\<close> what \<open>Get\<close> and the decoder made of a node, \<open>keys\<close> the order of the
  keys of \<open>infos\<close>.
\<close>

definition watchNode ::
  "(string \<Rightarrow> string list option) \<Rightarrow> string \<Rightarrow> string list option \<Rightarrow> (string \<Rightarrow> ZookeeperServiceInfo option) \<Rightarrow>
     string list \<Rightarrow> ZookeeperDiscovery \<Rightarrow> ZookeeperDiscovery" where
  "watchNode lookup service children get keys zk =
     (let nodes = (case children of None \<Rightarrow> [] | Some ns \<Rightarrow> ns);
          infos = (\<lambda>node. if node \<in> set nodes then get node else None);
          curAddress = map (\<lambda>k. host_port (si_Address (node_info infos k)) (si_Port (node_info infos k))) keys;
          removal = \<lparr>ev_Opt = REMOVE_HOSTS, ev_ServiceName = service, ev_Host = '''', ev_Children = curAddress\<rparr>
      in zk\<lparr>zk_sent := zk_sent zk @ removal # concat (map (\<lambda>n. node_events lookup service (node_info infos n)) nodes)\<rparr>)"

text \<open>The select of \<open>watchNode\<close> when the context of the service is done: the goroutine ends.\<close>

definition watchNode_done :: "string \<Rightarrow> ZookeeperDiscovery \<Rightarrow> ZookeeperDiscovery" where
  "watchNode_done service zk =
     zk\<lparr>zk_Shutdown := (zk_Shutdown zk)(service := None), zk_watching := remove1 service (zk_watching zk)\<rparr>"

section \<open>Interleavings\<close>

text \<open>
  The goroutines interleave: an iteration of \<open>watchServices\<close>, an iteration of the watcher of a
  running service, and the end of a watcher whose context is cancelled.
\<close>

inductive zk_step :: "ZookeeperDiscovery \<Rightarrow> ZookeeperDiscovery \<Rightarrow> bool" where
  Services: "distinct lasts \<Longrightarrow> set lasts = set (zk_Services zk) \<Longrightarrow> distinct curs \<Longrightarrow> set curs = set cs \<Longrightarrow>
     watchServices lasts (Some cs) curs zk = Inr zk' \<Longrightarrow> zk_step zk zk'"
| Nodes: "s \<in> set (zk_watching zk) \<Longrightarrow> zk_step zk (watchNode lookup s children get keys zk)"
| Done: "s \<in> set (zk_watching zk) \<Longrightarrow> zk_Shutdown zk s = Some True \<Longrightarrow> zk_step zk (watchNode_done s zk)"

inductive zk_reachable :: "ZookeeperDiscovery \<Rightarrow> bool" where
  Init: "NewZookeeperDiscovery connect args = Some zk \<Longrightarrow> zk_reachable zk"
| Step: "zk_reachable zk \<Longrightarrow> zk_step zk zk' \<Longrightarrow> zk_reachable zk'"

inductive_cases zk_stepE: "zk_step zk zk'"

text \<open>Every service has at most one watcher, and exactly one while its context is in the table.\<close>

definition zk_inv :: "ZookeeperDiscovery \<Rightarrow> bool" where
  "zk_inv zk \<longleftrightarrow> distinct (zk_watching zk) \<and> set (zk_watching zk) = dom (zk_Shutdown zk)"

definition opened :: "string list \<Rightarrow> ZookeeperDiscovery \<Rightarrow> string list" where
  "opened curs zk = filter (\<lambda>s. zk_Shutdown zk s = None) curs"

lemma start_services:
  assumes "distinct curs"
  shows "foldl (\<lambda>z s. start_service s z) zk curs = zk\<lparr>
    zk_Shutdown := (\<lambda>s. if s \<in> set (opened curs zk) then Some False else zk_Shutdown zk s),
    zk_sent := zk_sent zk @ map (service_event ADD_SERVICE) (opened curs zk),
    zk_watching := rev (opened curs zk) @ zk_watching zk\<rparr>"
  using assms
proof (induction curs arbitrary: zk)
  case Nil
  then show ?case by (cases zk) (simp add: opened_def)
next
  case (Cons c curs)
  show ?case
  proof (cases "zk_Shutdown zk c")
    case None
    have "opened curs (start_service c zk) = opened curs zk"
      using Cons.prems None by (auto simp: opened_def start_service_def intro: filter_cong)
    then show ?thesis using Cons None by (auto simp: opened_def start_service_def fun_eq_iff)
  next
    case (Some x)
    then have "start_service c zk = zk" by (simp add: start_service_def)
    with Cons Some show ?thesis by (simp add: opened_def)
  qed
qed

lemma drop_services:
  assumes "distinct lasts"
  shows "go_fold (drop_service cur) lasts zk =
    (let gone = filter (\<lambda>s. s \<notin> set cur) lasts
     in if \<exists>s \<in> set gone. zk_Shutdown zk s = None then Inl NilDeref
        else Inr (zk\<lparr>zk_Shutdown := (\<lambda>s. if s \<in> set gone then Some True else zk_Shutdown zk s),
          zk_sent := zk_sent zk @ map (service_event REMOVE_SERVICE) gone\<rparr>))"
  using assms
proof (induction lasts arbitrary: zk)
  case Nil
  then show ?case by (cases zk) simp
next
  case (Cons l lasts)
  show ?case
  proof (cases "l \<in> set cur")
    case True
    then have "drop_service cur l zk = Inr zk" by (simp add: drop_service_def)
    with Cons True show ?thesis by simp
  next
    case False
    show ?thesis
    proof (cases "zk_Shutdown zk l")
      case None
      with False show ?thesis by (simp add: drop_service_def)
    next
      case (Some b)
      let ?zk = "zk\<lparr>zk_Shutdown := (zk_Shutdown zk)(l \<mapsto> True),
               zk_sent := zk_sent zk @ [service_event REMOVE_SERVICE l]\<rparr>"
      have step: "drop_service cur l zk = Inr ?zk" using False Some by (simp add: drop_service_def)
      have same: "zk_Shutdown ?zk s = None \<longleftrightarrow> zk_Shutdown zk s = None" for s using Some by auto
      show ?thesis using Cons.IH[of ?zk] Cons.prems False Some
        by (auto simp: step same Let_def fun_eq_iff)
    qed
  qed
qed

lemma watchServices_eq:
  assumes "distinct lasts" "distinct curs" "set curs = set cs"
  shows "watchServices lasts (Some cs) curs zk =
    (let gone = filter (\<lambda>s. s \<notin> set cs) lasts; new = opened curs zk
     in if \<exists>s \<in> set gone. zk_Shutdown zk s = None then Inl NilDeref
        else Inr (zk\<lparr>zk_Services := curs,
          zk_Shutdown := (\<lambda>s. if s \<in> set new then Some False else if s \<in> set gone then Some True else zk_Shutdown zk s),
          zk_sent := zk_sent zk @ map (service_event REMOVE_SERVICE) gone @ map (service_event ADD_SERVICE) new,
          zk_watching := rev new @ zk_watching zk\<rparr>))"
proof -
  let ?gone = "filter (\<lambda>s. s \<notin> set cs) lasts"
  let ?zk1 = "zk\<lparr>zk_Shutdown := (\<lambda>s. if s \<in> set ?gone then Some True else zk_Shutdown zk s),
          zk_sent := zk_sent zk @ map (service_event REMOVE_SERVICE) ?gone\<rparr>"
  have "opened curs ?zk1 = opened curs zk"
    using assms(3) by (auto simp: opened_def intro!: filter_cong)
  then have start: "foldl (\<lambda>z s. start_service s z) ?zk1 curs = ?zk1\<lparr>
      zk_Shutdown := (\<lambda>s. if s \<in> set (opened curs zk) then Some False else zk_Shutdown ?zk1 s),
      zk_sent := zk_sent ?zk1 @ map (service_event ADD_SERVICE) (opened curs zk),
      zk_watching := rev (opened curs zk) @ zk_watching ?zk1\<rparr>"
    using start_services[OF assms(2), of ?zk1] by (simp only:)
  show ?thesis
  proof (cases "\<exists>s \<in> set ?gone. zk_Shutdown zk s = None")
    case True
    then show ?thesis unfolding watchServices_def drop_services[OF assms(1)] Let_def option.case by simp
  next
    case False
    then show ?thesis
      unfolding watchServices_def drop_services[OF assms(1)] Let_def option.case if_not_P[OF False] go_bind_Inr start
      by (simp cong: if_cong)
  qed
qed

lemma zk_step_inv:
  assumes "zk_step zk zk'" "zk_inv zk"
  shows "zk_inv zk'"
  using assms
proof (induction rule: zk_step.induct)
  case (Services lasts zk curs cs zk')
  let ?new = "opened curs zk"
  from Services have zk': "zk_watching zk' = rev ?new @ zk_watching zk"
    "\<forall>s. zk_Shutdown zk' s = None \<longleftrightarrow> s \<notin> set ?new \<and> zk_Shutdown zk s = None"
    by (auto simp: watchServices_eq Let_def split: if_splits)
  have "distinct ?new" "set ?new \<inter> dom (zk_Shutdown zk) = {}" using Services by (auto simp: opened_def)
  moreover have "dom (zk_Shutdown zk') = set ?new \<union> dom (zk_Shutdown zk)"
    using zk'(2) by (intro set_eqI) (simp add: domIff)
  ultimately show ?case using Services.prems by (simp add: zk_inv_def zk'(1))
next
  case (Nodes s zk lookup children get keys)
  then show ?case by (simp add: zk_inv_def watchNode_def Let_def)
next
  case (Done s zk)
  then show ?case by (auto simp: zk_inv_def watchNode_done_def)
qed

lemma zk_reachable_inv: "zk_reachable zk \<Longrightarrow> zk_inv zk"
proof (induction rule: zk_reachable.induct)
  case (Init connect args zk)
  then show ?case by (auto simp: NewZookeeperDiscovery_def zk_inv_def split: if_splits)
next
  case (Step zk zk')
  then show ?case by (blast intro: zk_step_inv)
qed

section \<open>What the rest of the gateway is told\<close>

text \<open>
  While no watcher of an earlier service is still ending, an iteration announces exactly the
  difference between the last list and the new one: a removal for every service that is gone, then
  an addition for every service that is new, and every service of the new list has its watcher.
\<close>

theorem discovery_round_is_diff:
  assumes "zk_reachable zk" "set (zk_Services zk) = dom (zk_Shutdown zk)"
    "distinct lasts" "set lasts = set (zk_Services zk)" "distinct curs" "set curs = set cs"
  shows "\<exists>zk'. watchServices lasts (Some cs) curs zk = Inr zk' \<and> zk_reachable zk' \<and> set (zk_Services zk') = set cs \<and>
    zk_sent zk' = zk_sent zk @ map (service_event REMOVE_SERVICE) (filter (\<lambda>s. s \<notin> set cs) lasts) @
      map (service_event ADD_SERVICE) (filter (\<lambda>s. s \<notin> set (zk_Services zk)) curs) \<and>
    distinct (zk_watching zk') \<and> set (zk_watching zk') = set cs \<union> set (zk_Services zk)"
proof -
  let ?gone = "filter (\<lambda>s. s \<notin> set cs) lasts"
  have open_new: "opened curs zk = filter (\<lambda>s. s \<notin> set (zk_Services zk)) curs"
    by (simp add: opened_def assms(2) domIff cong: filter_cong)
  have none: "\<not> (\<exists>s \<in> set ?gone. zk_Shutdown zk s = None)"
    using assms(2,4) by auto
  define zk' where "zk' = zk\<lparr>zk_Services := curs,
          zk_Shutdown := (\<lambda>s. if s \<in> set (opened curs zk) then Some False
            else if s \<in> set ?gone then Some True else zk_Shutdown zk s),
          zk_sent := zk_sent zk @ map (service_event REMOVE_SERVICE) ?gone @
            map (service_event ADD_SERVICE) (opened curs zk),
          zk_watching := rev (opened curs zk) @ zk_watching zk\<rparr>"
  have run: "watchServices lasts (Some cs) curs zk = Inr zk'"
    unfolding watchServices_eq[OF assms(3,5,6)] Let_def if_not_P[OF none] zk'_def by simp
  have "zk_step zk zk'" by (rule zk_step.Services[OF assms(3,4,5,6) run])
  with assms(1) have reach: "zk_reachable zk'" by (rule zk_reachable.Step)
  note inv = zk_reachable_inv[OF reach, unfolded zk_inv_def] zk_reachable_inv[OF assms(1), unfolded zk_inv_def]
  have "set (zk_watching zk') = set cs \<union> set (zk_Services zk)"
    using inv(2) assms(2,6) by (auto simp: zk'_def open_new)
  with run reach inv(1) show ?thesis using assms(6) by (intro exI[of _ zk']) (simp add: zk'_def open_new)
qed

definition new_zk :: ZookeeperDiscovery where
  "new_zk = \<lparr>zk_Services = [], zk_Shutdown = (\<lambda>_. None), zk_sent = [], zk_watching = []\<rparr>"

lemma new_zk_reachable: "zk_reachable new_zk"
  by (rule zk_reachable.Init[of "\<lambda>_ _. True"]) (simp add: NewZookeeperDiscovery_def new_zk_def)

theorem discovery_round_is_diff_witness:
  "\<exists>zk'. watchServices [] (Some [''users'', ''orders'']) [''orders'', ''users''] new_zk = Inr zk' \<and>
    zk_sent zk' = map (service_event ADD_SERVICE) [''orders'', ''users'']"
  using discovery_round_is_diff[of new_zk "[]" "[''orders'', ''users'']" "[''users'', ''orders'']"] new_zk_reachable
  by (auto simp: new_zk_def)

text \<open>
  C37: a service that comes back before its old watcher has ended is lost until the list changes again:
  it is in the list, but no watcher runs and no event announces it; and if the next change takes it
  away, the loop calls a nil \<open>cancel\<close> and panics.
\<close>

theorem returning_service_is_lost:
  "\<exists>zk. zk_reachable zk \<and> zk_Services zk = [s] \<and> zk_watching zk = [] \<and>
    zk_sent zk = [service_event ADD_SERVICE s, service_event REMOVE_SERVICE s] \<and>
    watchServices [s] (Some []) [] zk = Inl NilDeref"
proof -
  let ?add = "service_event ADD_SERVICE s" and ?rem = "service_event REMOVE_SERVICE s"
  let ?z1 = "\<lparr>zk_Services = [s], zk_Shutdown = [s \<mapsto> False], zk_sent = [?add], zk_watching = [s]\<rparr>"
  let ?z2 = "\<lparr>zk_Services = [], zk_Shutdown = [s \<mapsto> True], zk_sent = [?add, ?rem], zk_watching = [s]\<rparr>"
  let ?z3 = "?z2\<lparr>zk_Services := [s]\<rparr>"
  let ?z4 = "watchNode_done s ?z3"
  have "watchServices [] (Some [s]) [s] new_zk = Inr ?z1"
    by (simp add: watchServices_def start_service_def new_zk_def)
  then have "zk_step new_zk ?z1" by (intro zk_step.Services) (simp_all add: new_zk_def)
  with new_zk_reachable have 1: "zk_reachable ?z1" by (rule zk_reachable.Step)
  have "watchServices [s] (Some []) [] ?z1 = Inr ?z2" by (simp add: watchServices_def drop_service_def)
  then have "zk_step ?z1 ?z2" by (intro zk_step.Services) simp_all
  with 1 have 2: "zk_reachable ?z2" by (rule zk_reachable.Step)
  have "watchServices [] (Some [s]) [s] ?z2 = Inr ?z3" by (simp add: watchServices_def start_service_def)
  then have "zk_step ?z2 ?z3" by (intro zk_step.Services) simp_all
  with 2 have 3: "zk_reachable ?z3" by (rule zk_reachable.Step)
  have "zk_step ?z3 ?z4" by (rule zk_step.Done) simp_all
  with 3 have 4: "zk_reachable ?z4" by (rule zk_reachable.Step)
  have "watchServices [s] (Some []) [] ?z4 = Inl NilDeref"
    by (simp add: watchServices_def drop_service_def watchNode_done_def)
  with 4 show ?thesis by (intro exI[of _ ?z4]) (simp add: watchNode_done_def)
qed

end
