(* ===== verification/StateContext.thy ===== *)
theory StateContext
  imports ProxyRestore LogEntry ZkDiscovery
begin

text \<open>
  The replicated state machine, \<open>StateContext\<close> of \<open>src/vermouth/context.go\<close>, and the handlers of
  \<open>log_entry_handler.go\<close>. The record \<open>env\<close> holds what the code calls and does not contain: the rate
  limiter library, \<open>gob\<close>, whether a port can be listened on, and what raft answers.

  \<open>Run\<close> starts a goroutine that, once \<open>Close\<close> wakes it, waits for the open connections and then
  deletes its port from the table: \<open>sc_closing\<close> holds the ports of those that still wait, and
  \<open>finish_shutdown\<close> is the rest of it. \<open>sc_unlisted\<close> are proxies that run but are not in the table.
  Log output is not modelled.
\<close>

datatype raft_answer = RaftApplied | RaftFailed

record ('l, 'f) env =
  env_rate :: "('l, 'f) rate_lib"
  env_gob :: gob
  env_listen :: "int \<Rightarrow> bool"
  env_raft :: raft_answer

datatype state_error =
    DecodeError
  | EncodeError
  | RaftError
  | ErrHttpProxyNotExists
  | ErrHttpProxyAlreayExists
  | PrefixAlreadyExists
  | PrefixNotExists
  | HostNotExists
  | HostAlreadyExists
  | PrefixHasNoBalancer
  | UnMarshalError

record 'l StateContext =
  sc_mu :: RWMutex
  sc_List :: "int \<Rightarrow> 'l HttpReverseProxy option"
  sc_unlisted :: "'l HttpReverseProxy list"
  sc_closing :: "int list"
  sc_discoveryMap :: "int \<Rightarrow> ZookeeperDiscovery option option"
  sc_discoverNotify :: "int \<Rightarrow> bool"

definition NewStateContext :: "'l StateContext" where
  "NewStateContext = \<lparr>sc_mu = unlocked, sc_List = (\<lambda>_. None), sc_unlisted = [], sc_closing = [],
     sc_discoveryMap = (\<lambda>_. None), sc_discoverNotify = (\<lambda>_. False)\<rparr>"

section \<open>The table of proxies\<close>

text \<open>A method of \<open>ctx.HttpReverseProxyList[port]\<close>: a missing entry is the nil proxy, and panics.\<close>

definition on_proxy ::
  "int \<Rightarrow> ('l HttpReverseProxy \<Rightarrow> 'l HttpReverseProxy go) \<Rightarrow> 'l StateContext \<Rightarrow> 'l StateContext go" where
  "on_proxy port f ctx =
     (case sc_List ctx port of
        None \<Rightarrow> Inl NilDeref
      | Some hp \<Rightarrow> go_bind (f hp) (\<lambda>hp'. Inr (ctx\<lparr>sc_List := (sc_List ctx)(port \<mapsto> hp')\<rparr>)))"

definition add_one :: "'l HttpReverseProxy \<Rightarrow> 'l StateContext \<Rightarrow> 'l StateContext" where
  "add_one httpProxy ctx =
     (case sc_List ctx (px_Port httpProxy) of
        Some _ \<Rightarrow> ctx
      | None \<Rightarrow> ctx\<lparr>sc_List := (sc_List ctx)(px_Port httpProxy \<mapsto> httpProxy)\<rparr>)"

definition AddHttpReverseProxy :: "'l HttpReverseProxy list \<Rightarrow> 'l StateContext \<Rightarrow> 'l StateContext go" where
  "AddHttpReverseProxy httpProxys ctx =
     go_bind (mu_Lock (sc_mu ctx)) (\<lambda>m.
       Inr ((foldl (\<lambda>c p. add_one p c) ctx httpProxys)\<lparr>sc_mu := mu_Unlock m\<rparr>))"

text \<open>\<open>Close\<close> wakes the goroutine of the proxy, which still has to wait for its connections.\<close>

definition ctx_Close :: "int \<Rightarrow> 'l StateContext \<Rightarrow> 'l StateContext go" where
  "ctx_Close port ctx =
     go_bind (on_proxy port px_Close ctx) (\<lambda>ctx1.
       Inr (ctx1\<lparr>sc_closing := map_get port (map_option px_Port \<circ> sc_List ctx) port # sc_closing ctx1\<rparr>))"

definition finish_shutdown :: "int \<Rightarrow> 'l StateContext \<Rightarrow> 'l StateContext" where
  "finish_shutdown port ctx =
     ctx\<lparr>sc_closing := remove1 port (sc_closing ctx), sc_List := (sc_List ctx)(port := None)\<rparr>"

text \<open>The proxy just made runs: it is the one in the table unless its port was taken.\<close>

definition run_new ::
  "('l, 'f) env \<Rightarrow> bool \<Rightarrow> 'l HttpReverseProxy \<Rightarrow> 'l StateContext \<Rightarrow> 'l StateContext go" where
  "run_new env listed hp ctx =
     go_bind (px_Run (env_listen env (px_Port hp)) hp) (\<lambda>(failed, hp').
       Inr (if listed then ctx\<lparr>sc_List := (sc_List ctx)(px_Port hp \<mapsto> hp')\<rparr>
            else if failed then ctx
            else ctx\<lparr>sc_unlisted := hp' # sc_unlisted ctx\<rparr>))"

definition create_proxy ::
  "('l, 'f) env \<Rightarrow> HttpProxyArgs \<Rightarrow> 'l StateContext \<Rightarrow> 'l StateContext go" where
  "create_proxy env args ctx =
     go_bind (NewHttpReverseProxy args) (\<lambda>hp.
     go_bind (AddHttpReverseProxy [hp] ctx) (\<lambda>ctx1.
       run_new env (sc_List ctx (px_Port hp) = None) hp ctx1))"

definition checkAndCreate :: "int \<Rightarrow> 'l StateContext \<Rightarrow> 'l StateContext go" where
  "checkAndCreate port ctx =
     (case sc_List ctx port of
        Some _ \<Rightarrow> Inr ctx
      | None \<Rightarrow>
          go_bind (NewHttpReverseProxy \<lparr>ha_Port = port, ha_PrefixerType = ''hash-prefixer'', ha_Paths = []\<rparr>)
            (\<lambda>hp. AddHttpReverseProxy [hp] ctx))"

section \<open>The handlers of log entries\<close>

type_synonym 'l handled = "(state_error option \<times> 'l StateContext) go"

text \<open>\<open>decode\<close>, then an action that always answers nil.\<close>

definition decoded :: "'b option \<Rightarrow> ('b \<Rightarrow> 'l StateContext \<Rightarrow> 'l StateContext go) \<Rightarrow> 'l StateContext \<Rightarrow> 'l handled" where
  "decoded body act ctx =
     (case body of
        None \<Rightarrow> Inr (Some DecodeError, ctx)
      | Some b \<Rightarrow> go_bind (act b ctx) (\<lambda>ctx'. Inr (None, ctx')))"

definition handleAddHttpProxy :: "('l, 'f) env \<Rightarrow> bytes \<Rightarrow> 'l StateContext \<Rightarrow> 'l handled" where
  "handleAddHttpProxy env data = decoded (gob_addHttpProxy (env_gob env) data) (\<lambda>body.
     create_proxy env \<lparr>ha_Port = ahp_Port body, ha_PrefixerType = ahp_PrefixType body, ha_Paths = []\<rparr>)"

definition handleAddHttpProxyPrefix :: "('l, 'f) env \<Rightarrow> bytes \<Rightarrow> 'l StateContext \<Rightarrow> 'l handled" where
  "handleAddHttpProxyPrefix env data = decoded (gob_addPrefix (env_gob env) data) (\<lambda>body.
     on_proxy (app_Port body)
       (AddPrefix (app_Prefix body) (app_BalanceType body) (app_ProxyPass body) (app_Static body)))"

definition handleAddHttpHost :: "('l, 'f) env \<Rightarrow> bytes \<Rightarrow> 'l StateContext \<Rightarrow> 'l handled" where
  "handleAddHttpHost env data = decoded (gob_host (env_gob env) data) (\<lambda>body.
     on_proxy (hph_Port body) (AddHost (hph_Prefix body) (hph_Host body)))"

definition handleAddBlackList :: "('l, 'f) env \<Rightarrow> bytes \<Rightarrow> 'l StateContext \<Rightarrow> 'l handled" where
  "handleAddBlackList env data = decoded (gob_blackList (env_gob env) data) (\<lambda>body.
     on_proxy (hbl_Port body) (AddBlackList (hbl_Ips body)))"

definition handleRemoveHttpProxyPrefix :: "('l, 'f) env \<Rightarrow> bytes \<Rightarrow> 'l StateContext \<Rightarrow> 'l handled" where
  "handleRemoveHttpProxyPrefix env data = decoded (gob_removePrefix (env_gob env) data) (\<lambda>body.
     on_proxy (rpp_Port body) (RemovePrefix (rpp_Prefix body)))"

definition handleRemoveHttpProxyHost :: "('l, 'f) env \<Rightarrow> bytes \<Rightarrow> 'l StateContext \<Rightarrow> 'l handled" where
  "handleRemoveHttpProxyHost env data = decoded (gob_host (env_gob env) data) (\<lambda>body.
     on_proxy (hph_Port body) (RemoveHost (hph_Prefix body) (hph_Host body)))"

definition handleRemoveHttpBlackList :: "('l, 'f) env \<Rightarrow> bytes \<Rightarrow> 'l StateContext \<Rightarrow> 'l handled" where
  "handleRemoveHttpBlackList env data = decoded (gob_blackList (env_gob env) data) (\<lambda>body.
     on_proxy (hbl_Port body) (RemoveBlackList (hbl_Ips body)))"

definition handleRemoveHttpProxy :: "('l, 'f) env \<Rightarrow> bytes \<Rightarrow> 'l StateContext \<Rightarrow> 'l handled" where
  "handleRemoveHttpProxy env data = decoded (gob_removeHttpProxy (env_gob env) data) (\<lambda>body ctx.
     go_bind (ctx_Close (rhp_Port body) ctx) (\<lambda>ctx1.
       Inr (ctx1\<lparr>sc_List := (sc_List ctx1)(rhp_Port body := None)\<rparr>)))"

definition handleSetRateLimiter :: "('l, 'f) env \<Rightarrow> bytes \<Rightarrow> 'l StateContext \<Rightarrow> 'l handled" where
  "handleSetRateLimiter env data = decoded (gob_rateLimiter (env_gob env) data) (\<lambda>body.
     on_proxy (hrl_Port body)
       (SetRateLimit (env_rate env) (hrl_Prefix body) (hrl_Url body) (hrl_Type body) (hrl_Volumn body) (hrl_Speed body)))"

definition handleChangeStatic :: "('l, 'f) env \<Rightarrow> bytes \<Rightarrow> 'l StateContext \<Rightarrow> 'l handled" where
  "handleChangeStatic env data = decoded (gob_changeStatic (env_gob env) data) (\<lambda>body.
     on_proxy (hcs_Port body) (changeStatic (hcs_Prefix body)))"

definition handleChangeLb :: "('l, 'f) env \<Rightarrow> bytes \<Rightarrow> 'l StateContext \<Rightarrow> 'l handled" where
  "handleChangeLb env data = decoded (gob_changeLb (env_gob env) data) (\<lambda>body.
     on_proxy (hcl_Port body) (changeLb (hcl_Prefix body) (hcl_Lb body)))"

text \<open>A state that is neither 1 nor 2 closes the proxy.\<close>

definition ctx_changeState :: "int \<Rightarrow> int \<Rightarrow> 'l StateContext \<Rightarrow> 'l StateContext go" where
  "ctx_changeState port state ctx =
     (if state = 1 \<or> state = 2 then on_proxy port (px_changeState state) ctx else ctx_Close port ctx)"

definition handleChangeState :: "('l, 'f) env \<Rightarrow> bytes \<Rightarrow> 'l StateContext \<Rightarrow> 'l handled" where
  "handleChangeState env data = decoded (gob_changeState (env_gob env) data) (\<lambda>body.
     ctx_changeState (chs_Port body) (chs_State body))"

section \<open>Apply\<close>

definition apply_opt :: "('l, 'f) env \<Rightarrow> 16 word \<Rightarrow> bytes \<Rightarrow> 'l StateContext \<Rightarrow> 'l handled" where
  "apply_opt env opt bidata ctx =
     (if opt = ADD_HTTP_PROXY then handleAddHttpProxy env bidata ctx
      else if opt = ADD_HTTP_PROXY_PREFIX then handleAddHttpProxyPrefix env bidata ctx
      else if opt = ADD_HTTP_PROXY_HOST then handleAddHttpHost env bidata ctx
      else if opt = ADD_HTTP_BLACK_LIST then handleAddBlackList env bidata ctx
      else if opt = RMV_HTTP_PROXY_PREFIX then handleRemoveHttpProxyPrefix env bidata ctx
      else if opt = RMV_HTTP_PROXY_HOST then handleRemoveHttpProxyHost env bidata ctx
      else if opt = RMV_HTTP_BLACK_LIST then handleRemoveHttpBlackList env bidata ctx
      else if opt = RMV_HTTP_PROXY then handleRemoveHttpProxy env bidata ctx
      else if opt = SET_RATE_LIMITER then handleSetRateLimiter env bidata ctx
      else if opt = CHG_STATIC then handleChangeStatic env bidata ctx
      else if opt = CHG_LB then handleChangeLb env bidata ctx
      else if opt = CHG_STATE then handleChangeState env bidata ctx
      else Inr (None, ctx))"

text \<open>\<open>logEntry\<close> is the data of the raft log entry, \<open>None\<close> the nil pointer.\<close>

definition Apply :: "('l, 'f) env \<Rightarrow> bytes option \<Rightarrow> 'l StateContext \<Rightarrow> 'l handled" where
  "Apply env logEntry ctx =
     (case logEntry of
        None \<Rightarrow> Inr (None, ctx)
      | Some bidata \<Rightarrow>
          go_bind (BigEndian_Uint16 bidata) (\<lambda>opt.
          go_bind (tail4 bidata) (\<lambda>bidata'. apply_opt env opt bidata' ctx)))"

section \<open>Appending to the log\<close>

text \<open>
  \<open>raft.Apply\<close>: when its future has no error the entry is committed and this node applied it; otherwise
  nothing is applied yet. The response of the state machine is not read.
\<close>

definition writeLogEntry :: "('l, 'f) env \<Rightarrow> 16 word \<Rightarrow> bytes \<Rightarrow> 'l StateContext \<Rightarrow> 'l handled" where
  "writeLogEntry env opt data ctx =
     go_bind (Encode \<lparr>le_Opt = opt, le_Data = data\<rparr>) (\<lambda>biData.
       case env_raft env of
         RaftFailed \<Rightarrow> Inr (Some RaftError, ctx)
       | RaftApplied \<Rightarrow> go_bind (Apply env (Some biData) ctx) (\<lambda>(_, ctx'). Inr (None, ctx')))"

definition AppendLogEntry :: "('l, 'f) env \<Rightarrow> 16 word \<Rightarrow> body \<Rightarrow> 'l StateContext \<Rightarrow> 'l handled" where
  "AppendLogEntry env option body ctx =
     (case gob_encode (env_gob env) body of
        None \<Rightarrow> Inr (Some EncodeError, ctx)
      | Some data \<Rightarrow> writeLogEntry env option data ctx)"

lemma Apply_Encode:
  "Apply env (Some ([ucast (drop_bit 8 opt), ucast opt, 0, 0] @ data)) ctx = apply_opt env opt data ctx"
  by (simp add: Apply_def Uint16_header tail4_def)

lemma AppendLogEntry_eq:
  assumes "gob_encode (env_gob env) body = Some data"
  shows "AppendLogEntry env opt body ctx =
    (case env_raft env of RaftFailed \<Rightarrow> Inr (Some RaftError, ctx)
     | RaftApplied \<Rightarrow> go_bind (apply_opt env opt data ctx) (\<lambda>(_, ctx'). Inr (None, ctx')))"
proof -
  have "Encode \<lparr>le_Opt = opt, le_Data = data\<rparr> = Inr ([ucast (drop_bit 8 opt), ucast opt, 0, 0] @ data)"
    by (simp add: Encode_eq)
  then show ?thesis
    using assms by (simp only: AppendLogEntry_def writeLogEntry_def option.case go_bind_Inr Apply_Encode)
qed

end
