(* ===== verification/StateManager.thy ===== *)
theory StateManager
  imports StateContext
begin

text \<open>
  The write operations of \<open>src/vermouth/vermouth_state_manager.go\<close>: each checks the request against the
  table, then changes the table itself (\<open>stand\<close>) or appends an entry to the raft log (\<open>cluster\<close>).
\<close>

definition Stand :: string where "Stand = ''stand''"
definition Cluster :: string where "Cluster = ''cluster''"

text \<open>\<open>switch vermouth.Mode\<close>; any other mode falls through to \<open>return nil\<close>.\<close>

definition in_mode ::
  "string \<Rightarrow> ('l StateContext \<Rightarrow> 'l StateContext go) \<Rightarrow> ('l StateContext \<Rightarrow> 'l handled) \<Rightarrow> 'l StateContext \<Rightarrow> 'l handled"
where
  "in_mode mode stand cluster ctx =
     (if mode = Stand then go_bind (stand ctx) (\<lambda>ctx'. Inr (None, ctx'))
      else if mode = Cluster then cluster ctx
      else Inr (None, ctx))"

definition addHttpProxyPrefix ::
  "('l, 'f) env \<Rightarrow> string \<Rightarrow> addHttpProxyPrefixBody \<Rightarrow> 'l StateContext \<Rightarrow> 'l handled" where
  "addHttpProxyPrefix env mode body ctx =
     (case sc_List ctx (app_Port body) of
        None \<Rightarrow> Inr (Some ErrHttpProxyNotExists, ctx)
      | Some proxy \<Rightarrow>
          if PrefixExists (app_Prefix body) proxy then Inr (Some PrefixAlreadyExists, ctx)
          else in_mode mode
            (on_proxy (app_Port body)
              (AddPrefix (app_Prefix body) (app_BalanceType body) (app_ProxyPass body) (app_Static body)))
            (AppendLogEntry env ADD_HTTP_PROXY_PREFIX (BAddPrefix body)) ctx)"

definition removeHttpProxyPrefix ::
  "('l, 'f) env \<Rightarrow> string \<Rightarrow> removeHttpProxyPrefixBody \<Rightarrow> 'l StateContext \<Rightarrow> 'l handled" where
  "removeHttpProxyPrefix env mode body ctx =
     (case sc_List ctx (rpp_Port body) of
        None \<Rightarrow> Inr (Some ErrHttpProxyNotExists, ctx)
      | Some proxy \<Rightarrow>
          if \<not> PrefixExists (rpp_Prefix body) proxy then Inr (Some PrefixNotExists, ctx)
          else in_mode mode (on_proxy (rpp_Port body) (RemovePrefix (rpp_Prefix body)))
            (AppendLogEntry env RMV_HTTP_PROXY_PREFIX (BRemovePrefix body)) ctx)"

text \<open>The guard is the one of the code: a host that is there is refused as not existing.\<close>

definition removeHttpProxyHost ::
  "('l, 'f) env \<Rightarrow> string \<Rightarrow> httpProxyHostBody \<Rightarrow> 'l StateContext \<Rightarrow> 'l handled" where
  "removeHttpProxyHost env mode body ctx =
     (case sc_List ctx (hph_Port body) of
        None \<Rightarrow> Inr (Some ErrHttpProxyNotExists, ctx)
      | Some proxy \<Rightarrow>
          if HostExists (hph_Prefix body) (hph_Host body) proxy then Inr (Some HostNotExists, ctx)
          else in_mode mode (on_proxy (hph_Port body) (RemoveHost (hph_Prefix body) (hph_Host body)))
            (AppendLogEntry env RMV_HTTP_PROXY_HOST (BHost body)) ctx)"

definition addHttpProxyHost ::
  "('l, 'f) env \<Rightarrow> string \<Rightarrow> httpProxyHostBody \<Rightarrow> 'l StateContext \<Rightarrow> 'l handled" where
  "addHttpProxyHost env mode body ctx =
     (case sc_List ctx (hph_Port body) of
        None \<Rightarrow> Inr (Some ErrHttpProxyNotExists, ctx)
      | Some proxy \<Rightarrow>
          if HostExists (hph_Prefix body) (hph_Host body) proxy then Inr (Some HostAlreadyExists, ctx)
          else in_mode mode (on_proxy (hph_Port body) (AddHost (hph_Prefix body) (hph_Host body)))
            (AppendLogEntry env ADD_HTTP_PROXY_HOST (BHost body)) ctx)"

text \<open>The two black list operations look the proxy up in stand mode only.\<close>

definition addBlackList ::
  "('l, 'f) env \<Rightarrow> string \<Rightarrow> httpBlackListBody \<Rightarrow> 'l StateContext \<Rightarrow> 'l handled" where
  "addBlackList env mode body ctx =
     (if mode = Stand then
        (case sc_List ctx (hbl_Port body) of
           None \<Rightarrow> Inr (Some ErrHttpProxyNotExists, ctx)
         | Some _ \<Rightarrow> go_bind (on_proxy (hbl_Port body) (AddBlackList (hbl_Ips body)) ctx) (\<lambda>ctx'. Inr (None, ctx')))
      else if mode = Cluster then AppendLogEntry env ADD_HTTP_BLACK_LIST (BBlackList body) ctx
      else Inr (None, ctx))"

definition removeBlackList ::
  "('l, 'f) env \<Rightarrow> string \<Rightarrow> httpBlackListBody \<Rightarrow> 'l StateContext \<Rightarrow> 'l handled" where
  "removeBlackList env mode body ctx =
     (if mode = Stand then
        (case sc_List ctx (hbl_Port body) of
           None \<Rightarrow> Inr (Some ErrHttpProxyNotExists, ctx)
         | Some _ \<Rightarrow> go_bind (on_proxy (hbl_Port body) (RemoveBlackList (hbl_Ips body)) ctx) (\<lambda>ctx'. Inr (None, ctx')))
      else if mode = Cluster then AppendLogEntry env RMV_HTTP_BLACK_LIST (BBlackList body) ctx
      else Inr (None, ctx))"

definition setRateLimiter ::
  "('l, 'f) env \<Rightarrow> string \<Rightarrow> httpRateLimiterBody \<Rightarrow> 'l StateContext \<Rightarrow> 'l handled" where
  "setRateLimiter env mode body ctx =
     (case sc_List ctx (hrl_Port body) of
        None \<Rightarrow> Inr (Some ErrHttpProxyNotExists, ctx)
      | Some _ \<Rightarrow> in_mode mode
          (on_proxy (hrl_Port body) (SetRateLimit (env_rate env) (hrl_Prefix body) (hrl_Url body) (hrl_Type body)
             (hrl_Volumn body) (hrl_Speed body)))
          (AppendLogEntry env SET_RATE_LIMITER (BRateLimiter body)) ctx)"

definition addHttpProxy ::
  "('l, 'f) env \<Rightarrow> string \<Rightarrow> addHttpProxyBody \<Rightarrow> 'l StateContext \<Rightarrow> 'l handled" where
  "addHttpProxy env mode body ctx =
     (case sc_List ctx (ahp_Port body) of
        Some _ \<Rightarrow> Inr (Some ErrHttpProxyAlreayExists, ctx)
      | None \<Rightarrow> in_mode mode
          (create_proxy env \<lparr>ha_Port = ahp_Port body, ha_PrefixerType = ahp_PrefixType body, ha_Paths = []\<rparr>)
          (AppendLogEntry env ADD_HTTP_PROXY (BAddHttpProxy body)) ctx)"

definition sm_changeStatic ::
  "('l, 'f) env \<Rightarrow> string \<Rightarrow> httpChangeStatic \<Rightarrow> 'l StateContext \<Rightarrow> 'l handled" where
  "sm_changeStatic env mode body ctx =
     (case sc_List ctx (hcs_Port body) of
        None \<Rightarrow> Inr (Some ErrHttpProxyNotExists, ctx)
      | Some _ \<Rightarrow> in_mode mode (on_proxy (hcs_Port body) (changeStatic (hcs_Prefix body)))
          (AppendLogEntry env CHG_STATIC (BChangeStatic body)) ctx)"

text \<open>The balancer is looked up first; a change to its own algorithm does nothing.\<close>

definition sm_changeLb ::
  "('l, 'f) env \<Rightarrow> string \<Rightarrow> httpChangeLbBody \<Rightarrow> 'l StateContext \<Rightarrow> 'l handled" where
  "sm_changeLb env mode body ctx =
     (case sc_List ctx (hcl_Port body) of
        None \<Rightarrow> Inr (Some ErrHttpProxyNotExists, ctx)
      | Some proxy \<Rightarrow>
          go_bind (hp_GetBalancer (hcl_Prefix body) (px_prefixMapping proxy)) (\<lambda>(b, pm).
            case b of
              None \<Rightarrow> Inr (Some PrefixHasNoBalancer, ctx)
            | Some b \<Rightarrow>
                if bal_Mode b = hcl_Lb body then Inr (None, ctx)
                else in_mode mode (on_proxy (hcl_Port body) (changeLb (hcl_Prefix body) (hcl_Lb body)))
                  (AppendLogEntry env CHG_LB (BChangeLb body)) ctx))"

definition changeProxyAvailable ::
  "('l, 'f) env \<Rightarrow> string \<Rightarrow> changeHttpProxyStateBody \<Rightarrow> 'l StateContext \<Rightarrow> 'l handled" where
  "changeProxyAvailable env mode body ctx =
     (case sc_List ctx (chs_Port body) of
        None \<Rightarrow> Inr (Some ErrHttpProxyNotExists, ctx)
      | Some _ \<Rightarrow> in_mode mode (ctx_changeState (chs_Port body) (chs_State body))
          (AppendLogEntry env CHG_STATE (BChangeState body)) ctx)"

section \<open>A cluster that commits does what a single node does\<close>

datatype command =
    CAddProxy addHttpProxyBody
  | CChangeState changeHttpProxyStateBody
  | CAddPrefix addHttpProxyPrefixBody
  | CRemovePrefix removeHttpProxyPrefixBody
  | CAddHost httpProxyHostBody
  | CRemoveHost httpProxyHostBody
  | CAddBlackList httpBlackListBody
  | CRemoveBlackList httpBlackListBody
  | CSetRate httpRateLimiterBody
  | CChangeStatic httpChangeStatic
  | CChangeLb httpChangeLbBody

fun command_run :: "('l, 'f) env \<Rightarrow> string \<Rightarrow> command \<Rightarrow> 'l StateContext \<Rightarrow> 'l handled" where
  "command_run env mode (CAddProxy b) = addHttpProxy env mode b"
| "command_run env mode (CChangeState b) = changeProxyAvailable env mode b"
| "command_run env mode (CAddPrefix b) = addHttpProxyPrefix env mode b"
| "command_run env mode (CRemovePrefix b) = removeHttpProxyPrefix env mode b"
| "command_run env mode (CAddHost b) = addHttpProxyHost env mode b"
| "command_run env mode (CRemoveHost b) = removeHttpProxyHost env mode b"
| "command_run env mode (CAddBlackList b) = addBlackList env mode b"
| "command_run env mode (CRemoveBlackList b) = removeBlackList env mode b"
| "command_run env mode (CSetRate b) = setRateLimiter env mode b"
| "command_run env mode (CChangeStatic b) = sm_changeStatic env mode b"
| "command_run env mode (CChangeLb b) = sm_changeLb env mode b"

fun blacklist_port :: "command \<Rightarrow> int option" where
  "blacklist_port (CAddBlackList b) = Some (hbl_Port b)"
| "blacklist_port (CRemoveBlackList b) = Some (hbl_Port b)"
| "blacklist_port _ = None"

lemma Stand_Cluster [simp]: "Stand \<noteq> Cluster" "Cluster \<noteq> Stand"
  by (simp_all add: Stand_def Cluster_def)

lemma in_mode_simps [simp]:
  "in_mode Stand s c ctx = go_bind (s ctx) (\<lambda>ctx'. Inr (None, ctx'))"
  "in_mode Cluster s c ctx = c ctx"
  by (simp_all add: in_mode_def)

lemma decoded_Some: "decoded (Some b) act ctx = go_bind (act b ctx) (\<lambda>ctx'. Inr (None, ctx'))"
  by (simp add: decoded_def)

text \<open>Appending a committed entry whose handler decodes the body runs the handler's action.\<close>

lemma append_decoded:
  assumes "gob_encode (env_gob env) body = Some data" "env_raft env = RaftApplied"
    "apply_opt env opt data = decoded (Some b) act"
  shows "AppendLogEntry env opt body ctx = go_bind (act b ctx) (\<lambda>ctx'. Inr (None, ctx'))"
  unfolding AppendLogEntry_eq[OF assms(1)] assms(2,3) decoded_Some
  by (cases "act b ctx") simp_all

lemma apply_opt_handlers:
  "apply_opt env ADD_HTTP_PROXY data = handleAddHttpProxy env data"
  "apply_opt env ADD_HTTP_PROXY_PREFIX data = handleAddHttpProxyPrefix env data"
  "apply_opt env ADD_HTTP_PROXY_HOST data = handleAddHttpHost env data"
  "apply_opt env ADD_HTTP_BLACK_LIST data = handleAddBlackList env data"
  "apply_opt env RMV_HTTP_PROXY_PREFIX data = handleRemoveHttpProxyPrefix env data"
  "apply_opt env RMV_HTTP_PROXY_HOST data = handleRemoveHttpProxyHost env data"
  "apply_opt env RMV_HTTP_BLACK_LIST data = handleRemoveHttpBlackList env data"
  "apply_opt env RMV_HTTP_PROXY data = handleRemoveHttpProxy env data"
  "apply_opt env SET_RATE_LIMITER data = handleSetRateLimiter env data"
  "apply_opt env CHG_STATIC data = handleChangeStatic env data"
  "apply_opt env CHG_LB data = handleChangeLb env data"
  "apply_opt env CHG_STATE data = handleChangeState env data"
  by (rule ext; simp add: apply_opt_def option_codes)+

lemmas handler_defs =
  handleAddHttpProxy_def handleAddHttpProxyPrefix_def handleAddHttpHost_def handleAddBlackList_def
  handleRemoveHttpProxyPrefix_def handleRemoveHttpProxyHost_def handleRemoveHttpBlackList_def
  handleRemoveHttpProxy_def handleSetRateLimiter_def handleChangeStatic_def handleChangeLb_def
  handleChangeState_def

text \<open>A committed entry whose handler, on what \<open>gob\<close> reads back, runs an action: appending runs it.\<close>

lemma append_commit:
  assumes "gob_ok (env_gob env)" "env_raft env = RaftApplied"
    and "\<And>data. gob_reads (env_gob env) data body \<Longrightarrow>
      apply_opt env opt data ctx = go_bind (act ctx) (\<lambda>ctx'. Inr (None, ctx'))"
  shows "AppendLogEntry env opt body ctx = go_bind (act ctx) (\<lambda>ctx'. Inr (None, ctx'))"
proof -
  from gob_okE[OF assms(1)] obtain data where
    "gob_encode (env_gob env) body = Some data" "gob_reads (env_gob env) data body" .
  with assms(2,3) show ?thesis by (cases "act ctx") (simp_all add: AppendLogEntry_eq)
qed

lemma append_failed:
  assumes "gob_ok (env_gob env)" "env_raft env = RaftFailed"
  shows "AppendLogEntry env opt body ctx = Inr (Some RaftError, ctx)"
proof -
  from gob_okE[OF assms(1)] obtain data where "gob_encode (env_gob env) body = Some data" .
  with assms(2) show ?thesis by (simp add: AppendLogEntry_eq)
qed

lemmas commit_simps = apply_opt_handlers handler_defs decoded_Some

lemmas command_defs =
  addHttpProxyPrefix_def removeHttpProxyPrefix_def removeHttpProxyHost_def addHttpProxyHost_def addBlackList_def
  removeBlackList_def setRateLimiter_def addHttpProxy_def sm_changeStatic_def changeProxyAvailable_def

lemma sm_changeLb_modes:
  assumes "gob_ok (env_gob env)" "env_raft env = RaftApplied"
  shows "sm_changeLb env Cluster b ctx = sm_changeLb env Stand b ctx"
proof -
  have commit: "AppendLogEntry env CHG_LB (BChangeLb b) ctx =
    go_bind (on_proxy (hcl_Port b) (changeLb (hcl_Prefix b) (hcl_Lb b)) ctx) (\<lambda>ctx'. Inr (None, ctx'))"
    by (rule append_commit[OF assms]) (simp add: commit_simps)
  show ?thesis unfolding sm_changeLb_def in_mode_simps commit by (rule refl)
qed

lemma cluster_commit:
  assumes "gob_ok (env_gob env)" "env_raft env = RaftApplied"
    "\<forall>p. blacklist_port cmd = Some p \<longrightarrow> sc_List ctx p \<noteq> None"
  shows "command_run env Cluster cmd ctx = command_run env Stand cmd ctx"
  using assms(3)
  by (cases cmd) (auto simp: command_defs commit_simps sm_changeLb_modes[OF assms(1,2)] split: option.split
      intro!: append_commit[OF assms(1,2)])

text \<open>A command whose entry raft does not commit leaves the table as it is.\<close>

lemma cluster_failed:
  assumes "gob_ok (env_gob env)" "env_raft env = RaftFailed" "command_run env Cluster cmd ctx = Inr (e, ctx')"
  shows "ctx' = ctx"
proof (cases cmd)
  case (CChangeLb b)
  show ?thesis
  proof (cases "sc_List ctx (hcl_Port b)")
    case None
    with assms(3) CChangeLb show ?thesis by (simp add: sm_changeLb_def)
  next
    case (Some px)
    with assms(3) CChangeLb obtain bo pm where "hp_GetBalancer (hcl_Prefix b) (px_prefixMapping px) = Inr (bo, pm)"
      by (auto simp: sm_changeLb_def go_bind_eq_Inr_iff)
    with assms(3) CChangeLb Some append_failed[OF assms(1,2)] show ?thesis
      by (auto simp: sm_changeLb_def split: option.splits if_splits)
  qed
qed (use assms(3) append_failed[OF assms(1,2)] in \<open>auto simp: command_defs split: option.splits if_splits\<close>)

text \<open>A black list command for a port without a proxy: a single node refuses it, a cluster applies it to the nil proxy.\<close>

lemma blacklist_missing:
  assumes "gob_ok (env_gob env)" "env_raft env = RaftApplied" "blacklist_port cmd = Some p" "sc_List ctx p = None"
  shows "command_run env Cluster cmd ctx = Inl NilDeref"
    "command_run env Stand cmd ctx = Inr (Some ErrHttpProxyNotExists, ctx)"
proof -
  have "AppendLogEntry env ADD_HTTP_BLACK_LIST (BBlackList b) ctx =
      go_bind (on_proxy (hbl_Port b) (AddBlackList (hbl_Ips b)) ctx) (\<lambda>ctx'. Inr (None, ctx'))"
    "AppendLogEntry env RMV_HTTP_BLACK_LIST (BBlackList b) ctx =
      go_bind (on_proxy (hbl_Port b) (RemoveBlackList (hbl_Ips b)) ctx) (\<lambda>ctx'. Inr (None, ctx'))" for b
    by (rule append_commit[OF assms(1,2)], simp add: commit_simps)+
  with assms(3,4) show "command_run env Cluster cmd ctx = Inl NilDeref"
    "command_run env Stand cmd ctx = Inr (Some ErrHttpProxyNotExists, ctx)"
    by (cases cmd; simp add: addBlackList_def removeBlackList_def on_proxy_def)+
qed

text \<open>
  C10: in a cluster whose raft commits the entry, every command has on the node that takes it the result
  and the effect it has in stand mode, except a black list command for a port without a proxy: stand mode
  refuses it, the cluster commits it and the node dereferences the nil proxy. If raft does not commit the entry,
  nothing changes.
\<close>

theorem cluster_commit_is_stand:
  assumes "gob_ok (env_gob env)"
  shows "(env_raft env = RaftApplied \<longrightarrow>
      (if \<exists>p. blacklist_port cmd = Some p \<and> sc_List ctx p = None
       then command_run env Stand cmd ctx = Inr (Some ErrHttpProxyNotExists, ctx) \<and>
         command_run env Cluster cmd ctx = Inl NilDeref
       else command_run env Cluster cmd ctx = command_run env Stand cmd ctx)) \<and>
    (env_raft env = RaftFailed \<longrightarrow>
      (\<forall>e ctx'. command_run env Cluster cmd ctx = Inr (e, ctx') \<longrightarrow> ctx' = ctx))"
proof (intro conjI impI allI)
  assume raft: "env_raft env = RaftApplied"
  show "if \<exists>p. blacklist_port cmd = Some p \<and> sc_List ctx p = None
       then command_run env Stand cmd ctx = Inr (Some ErrHttpProxyNotExists, ctx) \<and>
         command_run env Cluster cmd ctx = Inl NilDeref
       else command_run env Cluster cmd ctx = command_run env Stand cmd ctx"
    using blacklist_missing[OF assms raft] cluster_commit[OF assms raft] by (auto simp del: command_run.simps)
qed (use cluster_failed[OF assms] in blast)

definition example_env :: "raft_answer \<Rightarrow> (bucket, int) env" where
  "example_env r = \<lparr>env_rate = bucket_lib, env_gob = example_gob, env_listen = (\<lambda>_. True), env_raft = r\<rparr>"

lemma example_env_simps [simp]:
  "env_rate (example_env r) = bucket_lib" "env_gob (example_env r) = example_gob"
  "env_listen (example_env r) p" "env_raft (example_env r) = r"
  by (simp_all add: example_env_def)

theorem cluster_commit_is_stand_witness:
  "command_run (example_env RaftApplied) Cluster (CAddProxy \<lparr>ahp_Port = 9000, ahp_PrefixType = ''hash-prefixer''\<rparr>)
     NewStateContext =
   command_run (example_env RaftApplied) Stand (CAddProxy \<lparr>ahp_Port = 9000, ahp_PrefixType = ''hash-prefixer''\<rparr>)
     NewStateContext"
  using cluster_commit_is_stand[of "example_env RaftApplied"
      "CAddProxy \<lparr>ahp_Port = 9000, ahp_PrefixType = ''hash-prefixer''\<rparr>" NewStateContext] example_gob_ok
  by simp

text \<open>
  A black list command for a port without a proxy is refused by a single node, but a cluster commits
  it, and the node that applies it dereferences the nil proxy.
\<close>

theorem blacklist_of_missing_proxy_crashes:
  assumes "gob_ok (env_gob env)" "env_raft env = RaftApplied" "sc_List ctx (hbl_Port b) = None"
  shows "command_run env Stand (CAddBlackList b) ctx = Inr (Some ErrHttpProxyNotExists, ctx) \<and>
    command_run env Cluster (CAddBlackList b) ctx = Inl NilDeref"
  using blacklist_missing[OF assms(1,2) _ assms(3), of "CAddBlackList b"] by simp

theorem blacklist_of_missing_proxy_crashes_witness:
  "command_run (example_env RaftApplied) Cluster (CAddBlackList \<lparr>hbl_Port = 9000, hbl_Ips = [''10.0.0.0/8'']\<rparr>)
     NewStateContext = Inl NilDeref"
  using blacklist_of_missing_proxy_crashes[of "example_env RaftApplied" NewStateContext
      "\<lparr>hbl_Port = 9000, hbl_Ips = [''10.0.0.0/8'']\<rparr>"] example_gob_ok
  by (simp add: NewStateContext_def)

section \<open>Removing a host\<close>

lemma RemoveHost_absent:
  assumes "shows_view px v" "v_hosts v p = Some hs" "h \<notin> set hs"
  shows "RemoveHost p h px = Inr px"
proof -
  from shows_view_balancer[OF assms(1,2)] obtain r where
    r: "hp_Mapping (px_prefixMapping px) p = Some (RR r)" "rr_mu r = unlocked" "rr_hosts r = hs" .
  note d = shows_viewD[OF assms(1)]
  have paths: "px_Paths px p = Some hs" using d(4)[of p] assms(2) by (simp add: entry_ok_Some)
  have "r\<lparr>rr_mu := unlocked, rr_hosts := remove1 h hs\<rparr> = r" using r assms(3) by (cases r) (simp add: remove1_idem)
  then have rm: "bal_Remove h (RR r) = Inr (RR r)"
    using r assms(3) by (cases r) (simp add: rr_Remove_def rr_cut_remove1 remove1_idem)
  have need: "need_balancer p (px_prefixMapping px) = Inr (RR r)" by (simp add: need_balancer_view[OF assms(1)] r(1))
  have upd: "(hp_Mapping (px_prefixMapping px))(p \<mapsto> RR r) = hp_Mapping (px_prefixMapping px)" "(px_Paths px)(p \<mapsto> hs) = px_Paths px"
    using r(1) paths by (simp_all add: fun_upd_idem)
  have "RemoveHost p h px = Inr (px\<lparr>px_mu := unlocked,
      px_prefixMapping := (px_prefixMapping px)\<lparr>hp_Mapping := hp_Mapping (px_prefixMapping px)\<rparr>, px_Paths := px_Paths px\<rparr>)"
    unfolding RemoveHost_def edit_host_def d(1) mu_Lock_unlocked go_bind_Inr need rm mu_Unlock_locked
    by (simp add: rr_Hosts_def r(3) upd)
  then show ?thesis using d(1) by (cases px) simp
qed

text \<open>
  C31: the command that removes a host never does so on a proxy whose prefixes are round-robin, in stand mode or
  in a cluster that commits: its guard refuses a host that is there, and lets through one that is not, which
  changes nothing; on an unknown prefix the command panics.
\<close>

theorem remove_host_never_removes:
  assumes "gob_ok (env_gob env)" "env_raft env = RaftApplied" "mode \<in> {Stand, Cluster}"
    "sc_List ctx (hph_Port b) = Some px" "shows_view px v"
  shows "command_run env mode (CRemoveHost b) ctx =
    (case v_hosts v (hph_Prefix b) of
       None \<Rightarrow> Inl NilDeref
     | Some hs \<Rightarrow> if hph_Host b \<in> set hs then Inr (Some HostNotExists, ctx) else Inr (None, ctx))"
proof -
  have paths: "px_Paths px (hph_Prefix b) = v_hosts v (hph_Prefix b)"
    using shows_viewD(4)[OF assms(5), of "hph_Prefix b"] by (cases "v_hosts v (hph_Prefix b)") (simp_all add: entry_ok_Some)
  have "command_run env mode (CRemoveHost b) ctx = command_run env Stand (CRemoveHost b) ctx"
    using assms(3) cluster_commit[OF assms(1,2), of "CRemoveHost b" ctx] by auto
  also have "\<dots> = (case v_hosts v (hph_Prefix b) of
       None \<Rightarrow> Inl NilDeref
     | Some hs \<Rightarrow> if hph_Host b \<in> set hs then Inr (Some HostNotExists, ctx) else Inr (None, ctx))"
  proof (cases "v_hosts v (hph_Prefix b)")
    case None
    with RemoveHost_simulates[OF assms(5), of "hph_Prefix b" "hph_Host b"] show ?thesis
      by (simp add: removeHttpProxyHost_def assms(4) HostExists_def map_get_def paths on_proxy_def)
  next
    case (Some hs)
    have same: "ctx\<lparr>sc_List := (sc_List ctx)(hph_Port b \<mapsto> px)\<rparr> = ctx"
      using assms(4) by (cases ctx) (simp add: fun_upd_idem)
    show ?thesis
      using Some RemoveHost_absent[OF assms(5) Some, of "hph_Host b"]
      by (simp add: removeHttpProxyHost_def assms(4) HostExists_def map_get_def paths on_proxy_def same)
  qed
  finally show ?thesis .
qed

lemma example_api_proxy:
  "\<exists>px :: 'l HttpReverseProxy. px_Port px = port \<and>
    shows_view px \<lparr>v_hosts = [''/api'' \<mapsto> [''a:1'']], v_static = [''/api'' \<mapsto> False]\<rparr>"
proof -
  from new_shows_view[of port] obtain px :: "'l HttpReverseProxy" where
    "NewHttpReverseProxy (hash_prefixer_args port) = Inr px" "shows_view px new_view" "px_Port px = port" by blast
  moreover have "TypeRoundRobin \<noteq> TypeConsistenceHash" by (simp add: TypeRoundRobin_def TypeConsistenceHash_def)
  ultimately obtain px' :: "'l HttpReverseProxy" where "shows_view px' \<lparr>v_hosts = [''/api'' \<mapsto> [''a:1'']], v_static = [''/api'' \<mapsto> False]\<rparr>"
    using AddPrefix_simulates[of px new_view TypeRoundRobin "''/api''" "[''a:1'']" False]
    by (auto simp: new_view_def)
  then show ?thesis by (intro exI[of _ "px'\<lparr>px_Port := port\<rparr>"]) (simp add: shows_view_def)
qed

theorem remove_host_never_removes_witness:
  "\<exists>ctx. sc_List ctx 9000 \<noteq> None \<and>
    command_run (example_env RaftApplied) Cluster
      (CRemoveHost \<lparr>hph_Port = 9000, hph_Prefix = ''/api'', hph_Host = ''a:1''\<rparr>) ctx = Inr (Some HostNotExists, ctx)"
proof -
  obtain px :: "bucket HttpReverseProxy" where
    px: "shows_view px \<lparr>v_hosts = [''/api'' \<mapsto> [''a:1'']], v_static = [''/api'' \<mapsto> False]\<rparr>"
    using example_api_proxy[of 9000] by blast
  let ?ctx = "NewStateContext\<lparr>sc_List := [9000 \<mapsto> px]\<rparr>"
  have "command_run (example_env RaftApplied) Cluster
      (CRemoveHost \<lparr>hph_Port = 9000, hph_Prefix = ''/api'', hph_Host = ''a:1''\<rparr>) ?ctx = Inr (Some HostNotExists, ?ctx)"
    using remove_host_never_removes[of "example_env RaftApplied" Cluster ?ctx
        "\<lparr>hph_Port = 9000, hph_Prefix = ''/api'', hph_Host = ''a:1''\<rparr>" px, OF _ _ _ _ px] example_gob_ok by simp
  moreover have "sc_List ?ctx 9000 \<noteq> None" by simp
  ultimately show ?thesis by blast
qed

end
