(* ===== verification/Replicas.thy ===== *)
theory Replicas
  imports StateManager
begin

text \<open>
  Two nodes that apply the same log, each with its own traffic. The log carries the tables; requests
  move round-robin counters, take tokens and make limiters on the node that serves them only. For the
  entries that read no such local state, the nodes keep the same tables or stop with the same fault
  (\<open>replicas_agree\<close>); \<open>SET_RATE_LIMITER\<close> reads it, and stops one node and not the other.
\<close>

section \<open>Nodes\<close>

text \<open>
  A request to the port of a proxy: \<open>net/http\<close> recovers the panic of a handler, and the only call that
  can panic under \<open>shows_view\<close>, the lookup in the access control list, comes before every change.
\<close>

definition node_request ::
  "('l, 'f) env \<Rightarrow> int \<Rightarrow> bool \<Rightarrow> int \<Rightarrow> request \<Rightarrow> 'l StateContext \<Rightarrow> 'l StateContext" where
  "node_request env port peer_available now r ctx =
     (case on_proxy port (\<lambda>px. go_bind (ServeHTTP (env_rate env) peer_available now r px) (\<lambda>(res, px'). Inr px')) ctx of
        Inl _ \<Rightarrow> ctx
      | Inr ctx' \<Rightarrow> ctx')"

datatype node_event =
    Committed bytes
  | Requested int bool int request

definition node_step :: "('l, 'f) env \<Rightarrow> node_event \<Rightarrow> 'l StateContext \<Rightarrow> 'l StateContext go" where
  "node_step env e ctx =
     (case e of
        Committed data \<Rightarrow> go_bind (Apply env (Some data) ctx) (\<lambda>(_, ctx'). Inr ctx')
      | Requested port available now r \<Rightarrow> Inr (node_request env port available now r ctx))"

definition node_run :: "('l, 'f) env \<Rightarrow> node_event list \<Rightarrow> 'l StateContext \<Rightarrow> 'l StateContext go" where
  "node_run env = go_fold (node_step env)"

definition node_log :: "node_event list \<Rightarrow> bytes list" where
  "node_log es = concat (map (\<lambda>e. case e of Committed data \<Rightarrow> [data] | Requested _ _ _ _ \<Rightarrow> []) es)"

lemma node_log_simps [simp]:
  "node_log [] = []" "node_log (Committed d # es) = d # node_log es"
  "node_log (Requested p a n r # es) = node_log es"
  by (simp_all add: node_log_def)

section \<open>Twins\<close>

text \<open>
  What every proxy keeps besides the agreement of its tables: each prefix has a static flag, and the
  recorded limiters can be built again. So \<open>Restore\<close> brings back the proxy it is called on.
\<close>

definition infos_good :: "(string \<Rightarrow> LimiterInfo list option) \<Rightarrow> bool" where
  "infos_good m \<longleftrightarrow> (\<forall>p. \<forall>i \<in> set (map_get [] m p). good_info i)"

definition restorable :: "'l HttpReverseProxy \<Rightarrow> bool" where
  "restorable px \<longleftrightarrow> dom (px_Paths px) \<subseteq> dom (px_StaticMapping px) \<and> px_PrefixerType px = TypeHashPrefixer \<and>
     infos_good (px_RateLimiterType px)"

text \<open>The same tables, blacklist and availability; counters, limiters and the listener may differ.\<close>

definition twin :: "'l HttpReverseProxy \<Rightarrow> 'l HttpReverseProxy \<Rightarrow> bool" where
  "twin px1 px2 \<longleftrightarrow> (\<exists>v. shows_view px1 v \<and> shows_view px2 v) \<and> px_Port px1 = px_Port px2 \<and>
     px_PrefixerType px1 = px_PrefixerType px2 \<and> px_Acl px1 = px_Acl px2 \<and> px_Available px1 = px_Available px2 \<and>
     restorable px1 \<and> restorable px2"

definition ctx_twin :: "'l StateContext \<Rightarrow> 'l StateContext \<Rightarrow> bool" where
  "ctx_twin c1 c2 \<longleftrightarrow> sc_mu c1 = unlocked \<and> sc_mu c2 = unlocked \<and> (\<forall>port. rel_option twin (sc_List c1 port) (sc_List c2 port))"

abbreviation same :: "('a \<Rightarrow> 'a \<Rightarrow> bool) \<Rightarrow> 'a go \<Rightarrow> 'a go \<Rightarrow> bool" where
  "same R \<equiv> rel_sum (=) R"

lemma same_bind:
  assumes "rel_sum (=) A m1 m2" "\<And>x y. A x y \<Longrightarrow> rel_sum (=) B (f x) (g y)"
  shows "rel_sum (=) B (go_bind m1 f) (go_bind m2 g)"
  using assms by (cases rule: rel_sum.cases[OF assms(1)]) auto

lemma twinE:
  assumes "twin px1 px2"
  obtains v where "shows_view px1 v" "shows_view px2 v"
  using assms unfolding twin_def by blast

text \<open>What an edit keeps.\<close>

definition kept :: "'l HttpReverseProxy \<Rightarrow> 'l HttpReverseProxy \<Rightarrow> bool" where
  "kept px px' \<longleftrightarrow> px_Port px' = px_Port px \<and> px_PrefixerType px' = px_PrefixerType px \<and> px_Acl px' = px_Acl px \<and>
     px_Available px' = px_Available px \<and> (infos_good (px_RateLimiterType px) \<longrightarrow> infos_good (px_RateLimiterType px'))"

lemma infos_good_upd:
  "infos_good m \<Longrightarrow> infos_good (m(p := None))"
  "infos_good m \<Longrightarrow> good_info i \<Longrightarrow> infos_good (m(p \<mapsto> map_get [] m p @ [i]))"
  by (auto simp: infos_good_def map_get_def split: option.splits)

lemma kept_refl [simp]: "kept px px"
  by (simp add: kept_def)

lemma kept_trans: "kept a b \<Longrightarrow> kept b c \<Longrightarrow> kept a c"
  by (simp add: kept_def)

lemma AddPrefix_kept: "AddPrefix p algo hosts static px = Inr px' \<Longrightarrow> kept px px'"
  by (auto simp: AddPrefix_eq go_bind_eq_Inr_iff kept_def split: if_splits)

lemma RemovePrefix_kept: "RemovePrefix p px = Inr px' \<Longrightarrow> kept px px'"
  by (auto simp: RemovePrefix_def go_bind_eq_Inr_iff kept_def infos_good_upd)

lemma edit_host_kept: "edit_host f p h px = Inr px' \<Longrightarrow> kept px px'"
  by (auto simp: edit_host_def go_bind_eq_Inr_iff kept_def)

lemma LoadBalance_kept: "LoadBalance p url px = Inr (addr, px') \<Longrightarrow> kept px px'"
  by (auto simp: LoadBalance_def go_bind_eq_Inr_iff kept_def split: option.splits)

lemma changeLb_kept: "changeLb p lb px = Inr px' \<Longrightarrow> kept px px'"
  by (auto simp: changeLb_def go_bind_eq_Inr_iff Let_def dest!: RemovePrefix_kept AddPrefix_kept intro: kept_trans)

lemma edit_kept: "edit_apply e px = Inr px' \<Longrightarrow> kept px px'"
proof (cases e)
  case (EChangeStatic p)
  then show "edit_apply e px = Inr px' \<Longrightarrow> kept px px'"
    by (auto simp: changeStatic_def go_bind_eq_Inr_iff kept_def Let_def)
qed (auto simp: AddHost_def RemoveHost_def go_bind_eq_Inr_iff
    dest: AddPrefix_kept RemovePrefix_kept edit_host_kept LoadBalance_kept changeLb_kept)

lemma view_edit_flags:
  assumes "view_edit e v = Some v'" "dom (v_hosts v) \<subseteq> dom (v_static v)"
  shows "dom (v_hosts v') \<subseteq> dom (v_static v')"
  using assms
  by (cases "(e, v)" rule: view_edit.cases) (auto split: if_splits option.splits dest: subsetD[OF _ domI])

lemma edit_restorable:
  assumes "shows_view px v" "view_edit e v = Some v'" "edit_apply e px = Inr px'" "shows_view px' v'" "restorable px"
  shows "restorable px'"
proof -
  have "dom (v_hosts v) \<subseteq> dom (v_static v)"
    using assms(5) shows_view_Paths[OF assms(1)] shows_viewD(3)[OF assms(1)] by (simp add: restorable_def)
  from view_edit_flags[OF assms(2) this] edit_kept[OF assms(3)] assms(5) shows_view_Paths[OF assms(4)]
    shows_viewD(3)[OF assms(4)]
  show ?thesis by (simp add: restorable_def kept_def)
qed

lemma edit_same:
  assumes "twin px1 px2" "rr_edit e"
  shows "same twin (edit_apply e px1) (edit_apply e px2)"
proof -
  from assms(1) obtain v where v: "shows_view px1 v" "shows_view px2 v" by (rule twinE)
  show ?thesis
  proof (cases "view_edit e v")
    case None
    with edit_simulates[OF v(1) assms(2)] edit_simulates[OF v(2) assms(2)] show ?thesis by simp
  next
    case (Some v')
    with edit_simulates[OF v(1) assms(2)] obtain px1' where
      1: "edit_apply e px1 = Inr px1'" "shows_view px1' v'" by auto
    from Some edit_simulates[OF v(2) assms(2)] obtain px2' where
      2: "edit_apply e px2 = Inr px2'" "shows_view px2' v'" by auto
    have "restorable px1'" "restorable px2'"
      using edit_restorable[OF v(1) Some 1] edit_restorable[OF v(2) Some 2] assms(1) by (simp_all add: twin_def)
    with edit_kept[OF 1(1)] edit_kept[OF 2(1)] assms(1) have "twin px1' px2'"
      using 1(2) 2(2) by (auto simp: twin_def kept_def)
    then show ?thesis by (simp add: 1(1) 2(1))
  qed
qed

section \<open>Requests\<close>

lemma bal_Balance_rr_keeps:
  assumes "rr_mu r = unlocked" "bal_Balance (RR r) url q = Inr (h, b')"
  shows "\<exists>r'. b' = RR r' \<and> rr_mu r' = unlocked \<and> rr_hosts r' = rr_hosts r"
  using assms by (auto simp: rr_Balance_def Let_def split: if_splits)

lemma MappingPath_view:
  assumes "shows_view px v" "MappingPath path r (px_prefixMapping px) = Inr (res, pm)"
  shows "shows_view (px\<lparr>px_prefixMapping := pm\<rparr>) v"
proof -
  note d = shows_viewD[OF assms(1)]
  let ?pm = "px_prefixMapping px"
  obtain q n where qn: "hp_match (hp_Mapping ?pm) path = (q, n)" by (meson surj_pair)
  show ?thesis
  proof (cases "hp_Mapping ?pm q")
    case None
    with assms(2) qn d(2) have "pm = ?pm" by (simp add: MappingPath_def)
    with assms(1) show ?thesis by simp
  next
    case (Some b)
    then obtain hs where hs: "v_hosts v q = Some hs" using shows_view_mapping_None[OF assms(1), of q] by auto
    from shows_view_balancer[OF assms(1) hs] obtain r1 where
      r1: "hp_Mapping ?pm q = Some (RR r1)" "rr_mu r1 = unlocked" "rr_hosts r1 = hs" .
    have run: "MappingPath path r ?pm = go_bind (bal_Balance (RR r1) '''' r) (\<lambda>(res, b1).
        case res of Inl err \<Rightarrow> Inr (Inl (FromBalancer err), ?pm\<lparr>hp_Mapping := (hp_Mapping ?pm)(q \<mapsto> b1)\<rparr>)
        | Inr host \<Rightarrow> if n > length path then Inl SliceBounds
            else Inr (Inr (q, drop n path, host @ drop n path), ?pm\<lparr>hp_Mapping := (hp_Mapping ?pm)(q \<mapsto> b1)\<rparr>))"
      using qn d(2) r1(1) by (simp add: MappingPath_def Let_def del: bal_Balance.simps cong: sum.case_cong if_cong)
    obtain h b' where b': "bal_Balance (RR r1) '''' r = Inr (h, b')"
      using assms(2) unfolding run by (cases "bal_Balance (RR r1) '''' r") auto
    have pm: "pm = ?pm\<lparr>hp_Mapping := (hp_Mapping ?pm)(q \<mapsto> b')\<rparr>"
      using assms(2) unfolding run b' by (cases h) (auto split: if_splits)
    from bal_Balance_rr_keeps[OF r1(2) b'] obtain r2 where
      r2: "b' = RR r2" "rr_mu r2 = unlocked" "rr_hosts r2 = hs" using r1(3) by blast
    have "entry_ok (v_hosts v p) (((hp_Mapping ?pm)(q \<mapsto> b')) p) (px_Paths px p) (px_BalancerType px p)" for p
      using d(4)[of p] hs r2 by (cases "p = q") (auto simp: entry_ok_Some)
    then show ?thesis using d(1,2,3) pm by (simp add: shows_view_def)
  qed
qed

lemma createRateLimiter_keeps:
  assumes "createRateLimiter lib prefix path ty ini speed px = Inr (err, px')" "px_mu px = unlocked"
  shows "\<forall>v. shows_view px' v = shows_view px v" and "ty = ''qps'' \<Longrightarrow> speed \<noteq> 0 \<Longrightarrow> kept px px'"
proof -
  show "\<forall>v. shows_view px' v = shows_view px v"
    using assms by (auto simp: createRateLimiter_def go_bind_eq_Inr_iff Let_def shows_view_def split: sum.splits)
  assume "ty = ''qps''" "speed \<noteq> 0"
  then have "good_info \<lparr>li_Url = path, li_Type = ty, li_Init = ini, li_Speed = speed\<rparr>" by (simp add: good_info_def)
  with assms infos_good_upd(2) show "kept px px'"
    by (auto simp: createRateLimiter_def go_bind_eq_Inr_iff Let_def kept_def split: sum.splits)
qed

lemma check_rate_keeps:
  assumes "check_rate lib now prefix path px = Inr (err, px')" "px_mu px = unlocked"
  shows "kept px px' \<and> (\<forall>v. shows_view px' v = shows_view px v)"
proof (cases "isStaticResource prefix px")
  case True
  with assms show ?thesis by (simp add: check_rate_def)
next
  case False
  with assms(1) obtain px1 l where
    px1: "px_rateLimiters px (compelete_url prefix path) \<noteq> None \<and> px1 = px \<or>
      (\<exists>e. createRateLimiter lib prefix path ''qps'' rate_INF rate_INF px = Inr (e, px1))"
    and px': "px' = px1\<lparr>px_rateLimiters := (px_rateLimiters px1)(compelete_url prefix path \<mapsto> l)\<rparr>"
    by (auto simp: check_rate_def go_bind_eq_Inr_iff Let_def split: option.splits prod.splits)
  from px1 have "kept px px1 \<and> (\<forall>v. shows_view px1 v = shows_view px v)"
  proof (elim disjE exE)
    fix e assume "createRateLimiter lib prefix path ''qps'' rate_INF rate_INF px = Inr (e, px1)"
    from createRateLimiter_keeps[OF this assms(2)] show ?thesis by (simp add: rate_INF_def)
  qed simp
  with px' show ?thesis by (simp add: kept_def shows_view_def)
qed

lemma ServeHTTP_keeps:
  assumes "shows_view px v" "ServeHTTP lib av now r px = Inr (res, px')"
  shows "kept px px' \<and> shows_view px' v"
proof (cases "px_Available px \<and> av \<and> AccessControl (px_Acl px) (RemoteIp r) \<noteq> Inr True")
  case False
  with assms show ?thesis by (auto simp: ServeHTTP_def split: if_splits)
next
  case True
  with assms(2) obtain mres pm where
    mp: "MappingPath (r_path r) (Some r) (px_prefixMapping px) = Inr (mres, pm)"
    and rest: "(case mres of Inl err \<Rightarrow> Inr (Response 200 (prefix_error_text err), px\<lparr>px_prefixMapping := pm\<rparr>)
      | Inr (prefix, apiPath, realPath) \<Rightarrow>
          go_bind (check_rate lib now prefix apiPath (px\<lparr>px_prefixMapping := pm\<rparr>)) (\<lambda>(err, proxy2).
            case err of Some e \<Rightarrow> Inr (Response 200 (limiter_error_text e), proxy2)
            | None \<Rightarrow> Inr (forwardToSpecficPath r realPath, proxy2))) = Inr (res, px')"
    by (auto simp: ServeHTTP_def go_bind_eq_Inr_iff Let_def split: if_splits)
  have px': "px' = px\<lparr>px_prefixMapping := pm\<rparr> \<or>
      (\<exists>prefix path err. check_rate lib now prefix path (px\<lparr>px_prefixMapping := pm\<rparr>) = Inr (err, px'))"
  proof (cases mres)
    case (Inr y)
    obtain prefix path real where "y = (prefix, path, real)" by (cases y)
    with Inr rest show ?thesis by (auto simp: go_bind_eq_Inr_iff split: option.splits)
  qed (use rest in simp)
  let ?px = "px\<lparr>px_prefixMapping := pm\<rparr>"
  have v: "shows_view ?px v" by (rule MappingPath_view[OF assms(1) mp])
  have "kept ?px px' \<and> shows_view px' v"
    using px' check_rate_keeps[of lib now _ _ ?px _ px'] shows_viewD(1)[OF v] v by auto
  then show ?thesis by (simp add: kept_def)
qed

lemma request_keeps_twin:
  assumes "ctx_twin c1 c2"
  shows "ctx_twin (node_request env port av now r c1) c2"
proof (cases "sc_List c1 port")
  case None
  with assms show ?thesis by (simp add: node_request_def on_proxy_def)
next
  case (Some px1)
  show ?thesis
  proof (cases "ServeHTTP (env_rate env) av now r px1")
    case (Inl e)
    with Some assms show ?thesis by (simp add: node_request_def on_proxy_def)
  next
    case (Inr y)
    then obtain res px1' where serve: "ServeHTTP (env_rate env) av now r px1 = Inr (res, px1')" by (cases y) simp
    have rel: "rel_option twin (sc_List c1 p) (sc_List c2 p)" for p using assms by (simp add: ctx_twin_def)
    from rel[of port] Some obtain px2 where px2: "sc_List c2 port = Some px2" "twin px1 px2"
      by (auto simp: option_rel_Some1)
    from px2(2) obtain v where v: "shows_view px1 v" "shows_view px2 v" by (rule twinE)
    from ServeHTTP_keeps[OF v(1) serve] have keeps: "kept px1 px1'" "shows_view px1' v" by simp_all
    have "px_Paths px1' = px_Paths px1" "px_StaticMapping px1' = px_StaticMapping px1"
      using shows_view_Paths[OF v(1)] shows_view_Paths[OF keeps(2)] shows_viewD(3)[OF v(1)] shows_viewD(3)[OF keeps(2)] by simp_all
    with keeps px2(2) v(2) have "twin px1' px2" by (auto simp: twin_def kept_def restorable_def)
    with px2(1) Some serve assms show ?thesis by (auto simp: node_request_def on_proxy_def ctx_twin_def)
  qed
qed

lemma ctx_twin_sym: "ctx_twin c1 c2 \<Longrightarrow> ctx_twin c2 c1"
proof -
  have "twin b a" if "twin a b" for a b :: "'a HttpReverseProxy" using that by (auto simp: twin_def)
  then have "rel_option twin b a" if "rel_option twin a b" for a b :: "'a HttpReverseProxy option"
    using that by (cases a; cases b) auto
  then show "ctx_twin c1 c2 \<Longrightarrow> ctx_twin c2 c1" by (simp add: ctx_twin_def)
qed

section \<open>Entries\<close>

lemma on_proxy_same:
  assumes "ctx_twin c1 c2" "\<And>px1 px2. twin px1 px2 \<Longrightarrow> same twin (f px1) (f px2)"
  shows "same ctx_twin (on_proxy port f c1) (on_proxy port f c2)"
proof -
  have rel: "rel_option twin (sc_List c1 p) (sc_List c2 p)" for p using assms(1) by (simp add: ctx_twin_def)
  show ?thesis
  proof (cases "sc_List c1 port")
    case None
    with rel[of port] show ?thesis by (simp add: on_proxy_def)
  next
    case (Some px1)
    with rel[of port] obtain px2 where px2: "sc_List c2 port = Some px2" "twin px1 px2"
      by (auto simp: option_rel_Some1)
    have "same ctx_twin (go_bind (f px1) (\<lambda>hp. Inr (c1\<lparr>sc_List := (sc_List c1)(port \<mapsto> hp)\<rparr>)))
        (go_bind (f px2) (\<lambda>hp. Inr (c2\<lparr>sc_List := (sc_List c2)(port \<mapsto> hp)\<rparr>)))"
      by (rule same_bind[OF assms(2)[OF px2(2)]]) (use assms(1) in \<open>simp add: ctx_twin_def\<close>)
    then show ?thesis using Some px2(1) by (simp add: on_proxy_def)
  qed
qed

lemma blacklist_same:
  assumes "twin px1 px2"
  shows "same twin (AddBlackList ips px1) (AddBlackList ips px2)" "same twin (RemoveBlackList ips px1) (RemoveBlackList ips px2)"
proof -
  from assms obtain v where v: "shows_view px1 v" "shows_view px2 v" by (rule twinE)
  have mu: "px_mu px1 = unlocked" "px_mu px2 = unlocked" using shows_viewD(1)[OF v(1)] shows_viewD(1)[OF v(2)] .
  have acl: "px_Acl px2 = px_Acl px1" using assms by (simp add: twin_def)
  have upd: "twin (px1\<lparr>px_mu := unlocked, px_Acl := t\<rparr>) (px2\<lparr>px_mu := unlocked, px_Acl := t\<rparr>)" for t
    using assms v mu by (auto simp: twin_def shows_view_def restorable_def)
  show "same twin (AddBlackList ips px1) (AddBlackList ips px2)"
    using upd by (cases "acl_add_all ips (px_Acl px1)") (simp_all add: AddBlackList_def mu acl)
  show "same twin (RemoveBlackList ips px1) (RemoveBlackList ips px2)"
    using upd by (cases "acl_remove_all ips (px_Acl px1)") (simp_all add: RemoveBlackList_def mu acl)
qed

lemma start_stop_same:
  assumes "twin px1 px2" "s = 1 \<or> s = 2"
  shows "same twin (px_changeState s px1) (px_changeState s px2)"
proof -
  from assms(1) obtain v where v: "shows_view px1 v" "shows_view px2 v" by (rule twinE)
  have mu: "px_mu px1 = unlocked" "px_mu px2 = unlocked" using shows_viewD(1)[OF v(1)] shows_viewD(1)[OF v(2)] .
  have "twin (px1\<lparr>px_Available := a, px_mu := unlocked\<rparr>) (px2\<lparr>px_Available := a, px_mu := unlocked\<rparr>)" for a
    using assms(1) v mu by (auto simp: twin_def shows_view_def restorable_def)
  with assms(2) show ?thesis by (auto simp: px_changeState_def px_Start_def px_Stop_def mu)
qed

definition fresh_proxy :: "int \<Rightarrow> 'l HttpReverseProxy" where
  "fresh_proxy port = \<lparr>px_mu = unlocked, px_Port = port, px_PrefixerType = TypeHashPrefixer,
     px_Paths = (\<lambda>_. None), px_BalancerType = (\<lambda>_. None), px_RateLimiterType = (\<lambda>_. None),
     px_StaticMapping = (\<lambda>_. None), px_Acl = NewRadixTree, px_Available = True, px_rateLimiters = (\<lambda>_. None),
     px_prefixMapping = NewHashPrefixer, px_Shutdown = True, px_serving = False\<rparr>"

lemma fresh_proxy_Port [simp]: "px_Port (fresh_proxy port) = port"
  by (simp add: fresh_proxy_def)

lemma fresh_proxy_view: "shows_view (fresh_proxy port\<lparr>px_serving := b\<rparr>) new_view"
  by (simp add: fresh_proxy_def shows_view_def new_view_def NewHashPrefixer_def)

lemma fresh_proxy_restorable: "restorable (fresh_proxy port\<lparr>px_serving := b\<rparr>)"
  by (simp add: restorable_def infos_good_def map_get_def fresh_proxy_def)

lemma NewHttpReverseProxy_fresh:
  "ha_PrefixerType args = TypeHashPrefixer \<Longrightarrow> NewHttpReverseProxy args = Inr (fresh_proxy (ha_Port args))"
  by (simp add: NewHttpReverseProxy_def Prefixer_Build_def fresh_proxy_def)

lemma px_Run_fresh: "px_Run ok (fresh_proxy port) = Inr (\<not> ok, fresh_proxy port\<lparr>px_serving := ok\<rparr>)"
  by (simp add: px_Run_def fresh_proxy_def)

lemma Add_fresh:
  assumes "sc_mu c = unlocked"
  shows "AddHttpReverseProxy [fresh_proxy port] c =
    Inr (case sc_List c port of None \<Rightarrow> c\<lparr>sc_List := (sc_List c)(port \<mapsto> fresh_proxy port)\<rparr> | Some _ \<Rightarrow> c)"
  using assms by (cases c) (simp add: AddHttpReverseProxy_def add_one_def split: option.split)

lemma create_fresh:
  assumes "ha_PrefixerType args = TypeHashPrefixer" "sc_mu c = unlocked"
  shows "create_proxy env args c = Inr (case sc_List c (ha_Port args) of
      None \<Rightarrow> c\<lparr>sc_List := (sc_List c)(ha_Port args \<mapsto>
        fresh_proxy (ha_Port args)\<lparr>px_serving := env_listen env (ha_Port args)\<rparr>)\<rparr>
    | Some _ \<Rightarrow> if env_listen env (ha_Port args)
        then c\<lparr>sc_unlisted := fresh_proxy (ha_Port args)\<lparr>px_serving := True\<rparr> # sc_unlisted c\<rparr> else c)"
  by (simp add: create_proxy_def NewHttpReverseProxy_fresh[OF assms(1)] Add_fresh[OF assms(2)] run_new_def
      px_Run_fresh split: option.split)

lemma create_same:
  assumes "ctx_twin c1 c2"
  shows "same ctx_twin (create_proxy env1 args c1) (create_proxy env2 args c2)"
proof (cases "ha_PrefixerType args = TypeHashPrefixer")
  case False
  then show ?thesis by (simp add: create_proxy_def NewHttpReverseProxy_def Prefixer_Build_def)
next
  case True
  let ?port = "ha_Port args"
  have rel: "rel_option twin (sc_List c1 p) (sc_List c2 p)" for p using assms by (simp add: ctx_twin_def)
  have mu: "sc_mu c1 = unlocked" "sc_mu c2 = unlocked" using assms by (simp_all add: ctx_twin_def)
  have fresh: "twin (fresh_proxy ?port\<lparr>px_serving := a\<rparr>) (fresh_proxy ?port\<lparr>px_serving := b\<rparr> :: 'a HttpReverseProxy)" for a b
    unfolding twin_def by (intro conjI exI[of _ new_view] fresh_proxy_view fresh_proxy_restorable) simp_all
  show ?thesis
  proof (cases "sc_List c1 ?port")
    case None
    with rel[of ?port] have "sc_List c2 ?port = None" by simp
    with None rel mu fresh show ?thesis by (simp add: create_fresh[OF True] ctx_twin_def)
  next
    case (Some px1)
    with rel[of ?port] obtain px2 where "sc_List c2 ?port = Some px2" by (auto simp: option_rel_Some1)
    with Some rel mu show ?thesis by (simp add: create_fresh[OF True] ctx_twin_def)
  qed
qed

section \<open>The same log, the same tables\<close>

text \<open>
  Entries that read only what twins share: not \<open>SET_RATE_LIMITER\<close>, no removal and no closing of a
  proxy (those wait for the listener of the node), and no consistent-hash ring.
\<close>

definition table_body :: "gob \<Rightarrow> 16 word \<Rightarrow> bytes \<Rightarrow> bool" where
  "table_body g opt data =
     (if opt = ADD_HTTP_PROXY_PREFIX then
        (case gob_addPrefix g data of None \<Rightarrow> True
         | Some b \<Rightarrow> app_BalanceType b \<noteq> TypeConsistenceHash \<and> length (app_ProxyPass b) < 2 ^ 63)
      else if opt = CHG_LB then
        (case gob_changeLb g data of None \<Rightarrow> True | Some b \<Rightarrow> hcl_Lb b \<noteq> TypeConsistenceHash)
      else if opt = CHG_STATE then
        (case gob_changeState g data of None \<Rightarrow> True | Some b \<Rightarrow> chs_State b = 1 \<or> chs_State b = 2)
      else opt \<noteq> SET_RATE_LIMITER \<and> opt \<noteq> RMV_HTTP_PROXY)"

definition table_entry :: "gob \<Rightarrow> bytes \<Rightarrow> bool" where
  "table_entry g data = (case BigEndian_Uint16 data of Inl _ \<Rightarrow> True | Inr opt \<Rightarrow> table_body g opt (drop 4 data))"

definition handled_twin :: "state_error option \<times> 'l StateContext \<Rightarrow> state_error option \<times> 'l StateContext \<Rightarrow> bool" where
  "handled_twin = rel_prod (=) ctx_twin"

lemma decoded_same:
  assumes "ctx_twin c1 c2"
    "\<And>b. body = Some b \<Longrightarrow> same ctx_twin (act1 b c1) (act2 b c2)"
  shows "same handled_twin (decoded body act1 c1) (decoded body act2 c2)"
proof (cases body)
  case None
  with assms(1) show ?thesis by (simp add: decoded_def handled_twin_def)
next
  case (Some b)
  have "same handled_twin (go_bind (act1 b c1) (\<lambda>c. Inr (None, c))) (go_bind (act2 b c2) (\<lambda>c. Inr (None, c)))"
    by (rule same_bind[OF assms(2)[OF Some]]) (simp add: handled_twin_def)
  with Some show ?thesis by (simp add: decoded_Some)
qed

lemma edit_entry_same:
  assumes "ctx_twin c1 c2" "rr_edit e"
  shows "same ctx_twin (on_proxy port (edit_apply e) c1) (on_proxy port (edit_apply e) c2)"
  by (rule on_proxy_same[OF assms(1) edit_same[OF _ assms(2)]])

lemma proxy_ops_are_edits:
  "AddPrefix p algo hosts static = edit_apply (EAddPrefix p algo hosts static)"
  "RemovePrefix p = edit_apply (ERemovePrefix p)"
  "AddHost p h = edit_apply (EAddHost p h)"
  "RemoveHost p h = edit_apply (ERemoveHost p h)"
  "changeStatic p = edit_apply (EChangeStatic p)"
  "changeLb p lb = edit_apply (EChangeLb p lb)"
  by (rule ext; simp)+

lemma handlers_same:
  assumes "ctx_twin c1 c2" "env_gob env1 = env_gob env2"
  shows "same handled_twin (handleAddHttpProxy env1 data c1) (handleAddHttpProxy env2 data c2)"
    "same handled_twin (handleAddHttpHost env1 data c1) (handleAddHttpHost env2 data c2)"
    "same handled_twin (handleAddBlackList env1 data c1) (handleAddBlackList env2 data c2)"
    "same handled_twin (handleRemoveHttpProxyPrefix env1 data c1) (handleRemoveHttpProxyPrefix env2 data c2)"
    "same handled_twin (handleRemoveHttpProxyHost env1 data c1) (handleRemoveHttpProxyHost env2 data c2)"
    "same handled_twin (handleRemoveHttpBlackList env1 data c1) (handleRemoveHttpBlackList env2 data c2)"
    "same handled_twin (handleChangeStatic env1 data c1) (handleChangeStatic env2 data c2)"
  unfolding handleAddHttpProxy_def handleAddHttpHost_def handleAddBlackList_def handleRemoveHttpProxyPrefix_def
    handleRemoveHttpProxyHost_def handleRemoveHttpBlackList_def handleChangeStatic_def assms(2) proxy_ops_are_edits
  by (intro decoded_same[OF assms(1)] create_same[OF assms(1)] edit_entry_same[OF assms(1)] on_proxy_same[OF assms(1)]
      blacklist_same rr_edit.simps TrueI; simp)+

text \<open>The entries with a condition.\<close>

lemma checked_handlers_same:
  assumes "ctx_twin c1 c2" "env_gob env1 = env_gob env2"
  shows "(\<And>b. gob_addPrefix (env_gob env2) data = Some b \<Longrightarrow> app_BalanceType b \<noteq> TypeConsistenceHash \<and> length (app_ProxyPass b) < 2 ^ 63) \<Longrightarrow>
      same handled_twin (handleAddHttpProxyPrefix env1 data c1) (handleAddHttpProxyPrefix env2 data c2)"
    and "(\<And>b. gob_changeLb (env_gob env2) data = Some b \<Longrightarrow> hcl_Lb b \<noteq> TypeConsistenceHash) \<Longrightarrow>
      same handled_twin (handleChangeLb env1 data c1) (handleChangeLb env2 data c2)"
    and "(\<And>b. gob_changeState (env_gob env2) data = Some b \<Longrightarrow> chs_State b = 1 \<or> chs_State b = 2) \<Longrightarrow>
      same handled_twin (handleChangeState env1 data c1) (handleChangeState env2 data c2)"
proof -
  assume "\<And>b. gob_addPrefix (env_gob env2) data = Some b \<Longrightarrow> app_BalanceType b \<noteq> TypeConsistenceHash \<and> length (app_ProxyPass b) < 2 ^ 63"
  then show "same handled_twin (handleAddHttpProxyPrefix env1 data c1) (handleAddHttpProxyPrefix env2 data c2)"
    unfolding handleAddHttpProxyPrefix_def assms(2) proxy_ops_are_edits
    by (intro decoded_same[OF assms(1)] edit_entry_same[OF assms(1)]) simp
next
  assume "\<And>b. gob_changeLb (env_gob env2) data = Some b \<Longrightarrow> hcl_Lb b \<noteq> TypeConsistenceHash"
  then show "same handled_twin (handleChangeLb env1 data c1) (handleChangeLb env2 data c2)"
    unfolding handleChangeLb_def assms(2) proxy_ops_are_edits
    by (intro decoded_same[OF assms(1)] edit_entry_same[OF assms(1)]) simp
next
  assume state: "\<And>b. gob_changeState (env_gob env2) data = Some b \<Longrightarrow> chs_State b = 1 \<or> chs_State b = 2"
  have "same ctx_twin (ctx_changeState (chs_Port b) (chs_State b) c1) (ctx_changeState (chs_Port b) (chs_State b) c2)"
    if "gob_changeState (env_gob env2) data = Some b" for b
    using on_proxy_same[OF assms(1) start_stop_same[OF _ state[OF that]]] state[OF that]
    by (simp add: ctx_changeState_def)
  then show "same handled_twin (handleChangeState env1 data c1) (handleChangeState env2 data c2)"
    unfolding handleChangeState_def assms(2) by (intro decoded_same[OF assms(1)])
qed

lemma table_bodyD:
  assumes "table_body g opt data"
  shows "opt \<noteq> SET_RATE_LIMITER" "opt \<noteq> RMV_HTTP_PROXY"
    "opt = ADD_HTTP_PROXY_PREFIX \<Longrightarrow> gob_addPrefix g data = Some ab \<Longrightarrow>
      app_BalanceType ab \<noteq> TypeConsistenceHash \<and> length (app_ProxyPass ab) < 2 ^ 63"
    "opt = CHG_LB \<Longrightarrow> gob_changeLb g data = Some lb \<Longrightarrow> hcl_Lb lb \<noteq> TypeConsistenceHash"
    "opt = CHG_STATE \<Longrightarrow> gob_changeState g data = Some sb \<Longrightarrow> chs_State sb = 1 \<or> chs_State sb = 2"
  using assms by (auto simp: table_body_def option_codes)

lemma apply_opt_same:
  assumes "ctx_twin c1 c2" "env_gob env1 = env_gob env2" "table_body (env_gob env2) opt data"
  shows "same handled_twin (apply_opt env1 opt data c1) (apply_opt env2 opt data c2)"
proof -
  note t = table_bodyD[OF assms(3)]
  have "handled_twin (None, c1) (None, c2)" using assms(1) by (simp add: handled_twin_def)
  with t show ?thesis unfolding apply_opt_def
    by (simp add: handlers_same[OF assms(1,2)] checked_handlers_same[OF assms(1,2)])
qed

lemma Apply_same:
  assumes "ctx_twin c1 c2" "env_gob env1 = env_gob env2" "table_entry (env_gob env2) data"
  shows "same handled_twin (Apply env1 (Some data) c1) (Apply env2 (Some data) c2)"
proof (cases "BigEndian_Uint16 data")
  case (Inl e)
  then show ?thesis by (simp add: Apply_def)
next
  case (Inr opt)
  show ?thesis
  proof (cases "length data < 4")
    case True
    with Inr show ?thesis by (simp add: Apply_def tail4_def)
  next
    case False
    have "table_body (env_gob env2) opt (drop 4 data)" using assms(3) Inr by (simp add: table_entry_def)
    from apply_opt_same[OF assms(1,2) this] Inr False show ?thesis by (simp add: Apply_def tail4_def)
  qed
qed

lemma committed_same:
  assumes "ctx_twin c1 c2" "env_gob env1 = env_gob env2" "table_entry (env_gob env2) data"
  shows "same ctx_twin (node_step env1 (Committed data) c1) (node_step env2 (Committed data) c2)"
  unfolding node_step_def node_event.case
  by (rule same_bind[OF Apply_same[OF assms]]) (auto simp: handled_twin_def)

text \<open>Being twins is transitive: a proxy shows one view only.\<close>

lemma shows_view_unique:
  assumes "shows_view px v" "shows_view px w"
  shows "v = w"
  using shows_view_Paths[OF assms(1)] shows_view_Paths[OF assms(2)] shows_viewD(3)[OF assms(1)] shows_viewD(3)[OF assms(2)]
  by (cases v; cases w) simp

lemma twin_trans: "twin a b \<Longrightarrow> twin b c \<Longrightarrow> twin a c"
  unfolding twin_def using shows_view_unique by metis

lemma ctx_twin_trans:
  assumes "ctx_twin a b" "ctx_twin b c"
  shows "ctx_twin a c"
proof -
  have "rel_option twin (sc_List a p) (sc_List c p)" for p
  proof -
    have "rel_option twin (sc_List a p) (sc_List b p)" "rel_option twin (sc_List b p) (sc_List c p)"
      using assms by (simp_all add: ctx_twin_def)
    then show ?thesis by (auto elim!: option.rel_cases intro: twin_trans)
  qed
  with assms show ?thesis by (simp add: ctx_twin_def)
qed

text \<open>A node follows its log: with its requests left out it gets to a twin.\<close>

lemma run_follows_log:
  assumes "ctx_twin c1 c2" "env_gob env1 = env_gob env2" "\<forall>data \<in> set (node_log es). table_entry (env_gob env2) data"
  shows "same ctx_twin (node_run env1 es c1) (node_run env2 (map Committed (node_log es)) c2)"
  using assms(1,3)
proof (induction es arbitrary: c1 c2)
  case (Cons e es)
  show ?case
  proof (cases e)
    case (Committed data)
    with Cons.prems have "same ctx_twin (go_bind (node_step env1 (Committed data) c1) (node_run env1 es))
        (go_bind (node_step env2 (Committed data) c2) (node_run env2 (map Committed (node_log es))))"
      by (intro same_bind[OF committed_same[OF _ assms(2)]] Cons.IH) simp_all
    with Committed show ?thesis by (simp add: node_run_def)
  next
    case (Requested p av now r)
    with Cons.IH[OF request_keeps_twin[OF Cons.prems(1)]] Cons.prems(2) show ?thesis
      by (simp add: node_run_def node_step_def)
  qed
qed (simp add: node_run_def)

lemma runs_same:
  assumes "ctx_twin c1 c2" "env_gob env1 = env_gob env2" "node_log es1 = node_log es2"
    "\<forall>data \<in> set (node_log es2). table_entry (env_gob env2) data"
  shows "same ctx_twin (node_run env1 es1 c1) (node_run env2 es2 c2)"
proof -
  have "ctx_twin c2 c2" using ctx_twin_trans[OF ctx_twin_sym[OF assms(1)] assms(1)] .
  from run_follows_log[OF this refl assms(4)] run_follows_log[OF assms(1,2), of es1] assms(3,4) show ?thesis
    by (auto elim!: rel_sum.cases intro: ctx_twin_trans[OF _ ctx_twin_sym])
qed

text \<open>What an operator sees of a proxy: the hosts, algorithm and static flag of its prefixes, its blacklist, whether it serves.\<close>

definition tables ::
  "'l HttpReverseProxy \<Rightarrow> (string \<Rightarrow> string list option) \<times> (string \<Rightarrow> string option) \<times> (string \<Rightarrow> bool option) \<times> RadixTree \<times> bool"
where
  "tables px = (px_Paths px, px_BalancerType px, px_StaticMapping px, px_Acl px, px_Available px)"

lemma twin_tables:
  assumes "twin px1 px2"
  shows "tables px1 = tables px2"
proof -
  from assms obtain v where v: "shows_view px1 v" "shows_view px2 v" by (rule twinE)
  have "px_BalancerType px1 p = px_BalancerType px2 p" for p
    using shows_viewD(4)[OF v(1), of p] shows_viewD(4)[OF v(2), of p] by (cases "v_hosts v p") (auto simp: entry_ok_Some)
  then have "px_Paths px1 = px_Paths px2" "px_BalancerType px1 = px_BalancerType px2"
    using shows_view_Paths[OF v(1)] shows_view_Paths[OF v(2)] by (simp_all add: fun_eq_iff)
  then show ?thesis using assms shows_viewD(3)[OF v(1)] shows_viewD(3)[OF v(2)] by (simp add: tables_def twin_def)
qed

lemma ctx_twin_tables:
  assumes "ctx_twin c1 c2"
  shows "map_option tables (sc_List c1 port) = map_option tables (sc_List c2 port)"
proof -
  have "rel_option twin (sc_List c1 port) (sc_List c2 port)" using assms by (simp add: ctx_twin_def)
  then show ?thesis by (auto elim!: option.rel_cases simp: twin_tables)
qed

lemma same_outcome:
  assumes "same ctx_twin r1 r2"
  shows "case r1 of Inl e \<Rightarrow> r2 = Inl e
    | Inr c1 \<Rightarrow> \<exists>c2. r2 = Inr c2 \<and> (\<forall>port. map_option tables (sc_List c1 port) = map_option tables (sc_List c2 port))"
  using assms by (cases rule: rel_sum.cases) (simp_all add: ctx_twin_tables)

text \<open>
  C8: two nodes that start empty and apply the same log, with any requests between its entries on
  either, stop with the same fault or have the same ports, and on every port the same hosts,
  algorithms, static flags, blacklist and availability. The log is one of entries that only edit these tables
  (\<open>table_entry\<close>): it sets no rate, removes and closes no proxy, and builds no consistent-hash balancer.
\<close>

theorem replicas_agree:
  fixes env1 env2 :: "('l, 'f) env"
  assumes "env_gob env1 = env_gob env2" "node_log es1 = node_log es2"
    "\<forall>data \<in> set (node_log es1). table_entry (env_gob env1) data"
  shows "case node_run env1 es1 NewStateContext of
      Inl e \<Rightarrow> node_run env2 es2 NewStateContext = Inl e
    | Inr c1 \<Rightarrow> \<exists>c2. node_run env2 es2 NewStateContext = Inr c2 \<and>
        (\<forall>port. map_option tables (sc_List c1 port) = map_option tables (sc_List c2 port))"
proof -
  have "ctx_twin (NewStateContext :: 'l StateContext) NewStateContext" by (simp add: ctx_twin_def NewStateContext_def)
  from runs_same[OF this assms(1,2)] assms have
    "same ctx_twin (node_run env1 es1 NewStateContext) (node_run env2 es2 NewStateContext)" by simp
  then show ?thesis by (rule same_outcome)
qed

definition example_entry :: "16 word \<Rightarrow> body \<Rightarrow> bytes" where
  "example_entry opt b = [ucast (drop_bit 8 opt), ucast opt, 0, 0] @ unary_body b"

lemma example_entry_table:
  "table_entry example_gob (example_entry ADD_HTTP_PROXY b)" "table_entry example_gob (example_entry CHG_STATIC b)"
  unfolding table_entry_def example_entry_def append.simps Uint16_header
  by (simp_all add: table_body_def option_codes)

theorem replicas_agree_witness:
  "case node_run (example_env RaftApplied)
       [Committed (example_entry ADD_HTTP_PROXY (BAddHttpProxy \<lparr>ahp_Port = 9000, ahp_PrefixType = ''hash-prefixer''\<rparr>)),
        Requested 9000 True 0 (example_request ''10.0.0.1:80'' ''/api'')] NewStateContext of
      Inl e \<Rightarrow> node_run (example_env RaftFailed) [Committed (example_entry ADD_HTTP_PROXY
        (BAddHttpProxy \<lparr>ahp_Port = 9000, ahp_PrefixType = ''hash-prefixer''\<rparr>))] NewStateContext = Inl e
    | Inr c1 \<Rightarrow> \<exists>c2. node_run (example_env RaftFailed) [Committed (example_entry ADD_HTTP_PROXY
        (BAddHttpProxy \<lparr>ahp_Port = 9000, ahp_PrefixType = ''hash-prefixer''\<rparr>))] NewStateContext = Inr c2 \<and>
        (\<forall>port. map_option tables (sc_List c1 port) = map_option tables (sc_List c2 port))"
  by (rule replicas_agree) (simp_all add: example_entry_table)

section \<open>A rate limit splits the nodes\<close>

lemma SetRateLimit_cases:
  assumes "px_mu px = unlocked"
  shows "px_rateLimiters px (compelete_url prefix path) = None \<Longrightarrow>
      SetRateLimit lib prefix path ty ini speed px = Inl Deadlock"
    and "px_rateLimiters px (compelete_url prefix path) = Some l \<Longrightarrow> speed \<noteq> 0 \<Longrightarrow>
      \<exists>px'. SetRateLimit lib prefix path ty ini speed px = Inr px'"
  using assms
  by (auto simp: SetRateLimit_eq createRateLimiter_def mu_Lock_def unlocked_def Let_def SetRate_def go_div_def)

text \<open>
  C32: two nodes with the same tables apply the entry of a new rate limit: the node that has served a
  request for the path sets it, and the other, whose table has no limiter for it, waits for ever for
  a lock it holds, and applies nothing of the log after it.
\<close>

theorem rate_limit_splits_replicas:
  assumes "ctx_twin c1 c2" "sc_List c1 (hrl_Port b) = Some px1" "sc_List c2 (hrl_Port b) = Some px2"
    "px_rateLimiters px1 (compelete_url (hrl_Prefix b) (hrl_Url b)) \<noteq> None"
    "px_rateLimiters px2 (compelete_url (hrl_Prefix b) (hrl_Url b)) = None" "hrl_Speed b \<noteq> 0"
    "gob_reads (env_gob env) data (BRateLimiter b)"
  shows "(\<exists>c1'. apply_opt env SET_RATE_LIMITER data c1 = Inr (None, c1')) \<and>
    apply_opt env SET_RATE_LIMITER data c2 = Inl Deadlock \<and>
    node_run env (Committed ([ucast (drop_bit 8 SET_RATE_LIMITER), ucast SET_RATE_LIMITER, 0, 0] @ data) # es) c2 = Inl Deadlock"
proof -
  have rel: "rel_option twin (sc_List c1 (hrl_Port b)) (sc_List c2 (hrl_Port b))" using assms(1) by (simp add: ctx_twin_def)
  with assms(2,3) obtain v where v: "shows_view px1 v" "shows_view px2 v" by (auto elim: twinE)
  have dec: "gob_rateLimiter (env_gob env) data = Some b" using assms(7) by simp
  have stop: "apply_opt env SET_RATE_LIMITER data c2 = Inl Deadlock"
    using SetRateLimit_cases(1)[OF shows_viewD(1)[OF v(2)] assms(5), of "env_rate env"] assms(3) dec
    by (simp add: apply_opt_handlers handleSetRateLimiter_def decoded_Some on_proxy_def)
  moreover from assms(4) obtain l where "px_rateLimiters px1 (compelete_url (hrl_Prefix b) (hrl_Url b)) = Some l" by blast
  from SetRateLimit_cases(2)[OF shows_viewD(1)[OF v(1)] this assms(6), of "env_rate env" "hrl_Type b" "hrl_Volumn b"]
  have "\<exists>c1'. apply_opt env SET_RATE_LIMITER data c1 = Inr (None, c1')"
    using assms(2) dec by (auto simp: apply_opt_handlers handleSetRateLimiter_def decoded_Some on_proxy_def)
  moreover have "node_run env (Committed ([ucast (drop_bit 8 SET_RATE_LIMITER), ucast SET_RATE_LIMITER, 0, 0] @ data) # es) c2
      = Inl Deadlock"
    unfolding node_run_def go_fold.simps node_step_def node_event.case Apply_Encode stop by simp
  ultimately show ?thesis by blast
qed

theorem rate_limit_splits_replicas_witness:
  "\<exists>c1 c2 :: bucket StateContext. ctx_twin c1 c2 \<and>
    (\<exists>c1'. apply_opt (example_env RaftApplied) SET_RATE_LIMITER (unary_body (BRateLimiter
       \<lparr>hrl_Port = 9000, hrl_Prefix = ''/api'', hrl_Url = ''/x'', hrl_Type = ''qps'', hrl_Volumn = 5, hrl_Speed = 10\<rparr>)) c1 =
     Inr (None, c1')) \<and>
    apply_opt (example_env RaftApplied) SET_RATE_LIMITER (unary_body (BRateLimiter
       \<lparr>hrl_Port = 9000, hrl_Prefix = ''/api'', hrl_Url = ''/x'', hrl_Type = ''qps'', hrl_Volumn = 5, hrl_Speed = 10\<rparr>)) c2 =
     Inl Deadlock"
proof -
  let ?px2 = "fresh_proxy 9000 :: bucket HttpReverseProxy"
  let ?px1 = "?px2\<lparr>px_rateLimiters := [compelete_url ''/api'' ''/x'' \<mapsto> NewQpsRateLimiter bucket_lib]\<rparr>"
  let ?c1 = "NewStateContext\<lparr>sc_List := [9000 \<mapsto> ?px1]\<rparr>" and ?c2 = "NewStateContext\<lparr>sc_List := [9000 \<mapsto> ?px2]\<rparr>"
  let ?b = "\<lparr>hrl_Port = 9000, hrl_Prefix = ''/api'', hrl_Url = ''/x'', hrl_Type = ''qps'', hrl_Volumn = 5, hrl_Speed = 10\<rparr>"
  have "shows_view ?px1 new_view \<and> shows_view ?px2 new_view"
    by (simp add: shows_view_def fresh_proxy_def new_view_def NewHashPrefixer_def)
  moreover have "restorable ?px1" "restorable ?px2"
    by (simp_all add: restorable_def infos_good_def map_get_def fresh_proxy_def)
  ultimately have "twin ?px1 ?px2" unfolding twin_def by (intro conjI exI[of _ new_view]) simp_all
  then have twin: "ctx_twin ?c1 ?c2" by (simp add: ctx_twin_def NewStateContext_def)
  have "gob_reads (env_gob (example_env RaftApplied)) (unary_body (BRateLimiter ?b)) (BRateLimiter ?b)"
    by (simp add: example_gob_def)
  from rate_limit_splits_replicas[OF twin _ _ _ _ _ this, of ?px1 ?px2] twin show ?thesis
    by (intro exI[of _ ?c1] exI[of _ ?c2]) (simp add: fresh_proxy_def)
qed

section \<open>Removing a proxy and making it again\<close>

text \<open>
  C34: a proxy is removed and a new one is made on its port. If the connections of the first are gone by
  then, the new one stays in the table; if they are not, the goroutine that waited for them deletes the
  new one when they are. So the table depends on when connections end, and nodes that apply the same two
  entries may differ.
\<close>

theorem late_shutdown_deletes_new_proxy:
  assumes "sc_mu ctx = unlocked" "sc_List ctx port = Some px" "px_Port px = port" "px_Shutdown px" "px_serving px"
    "gob_reads (env_gob env) d1 (BRemoveHttpProxy \<lparr>rhp_Port = port\<rparr>)"
    "gob_reads (env_gob env) d2 (BAddHttpProxy \<lparr>ahp_Port = port, ahp_PrefixType = TypeHashPrefixer\<rparr>)"
  shows "\<exists>ctx1 ctx2 ctx3. apply_opt env RMV_HTTP_PROXY d1 ctx = Inr (None, ctx1) \<and> sc_closing ctx1 = port # sc_closing ctx \<and>
    apply_opt env ADD_HTTP_PROXY d2 ctx1 = Inr (None, ctx2) \<and> sc_List ctx2 port \<noteq> None \<and>
    sc_List (finish_shutdown port ctx2) port = None \<and>
    apply_opt env ADD_HTTP_PROXY d2 (finish_shutdown port ctx1) = Inr (None, ctx3) \<and> sc_List ctx3 port \<noteq> None \<and>
    sc_closing ctx3 = sc_closing ctx"
proof -
  let ?new = "fresh_proxy port\<lparr>px_serving := env_listen env port\<rparr>"
  let ?ctx1 = "ctx\<lparr>sc_List := (sc_List ctx)(port := None), sc_closing := port # sc_closing ctx\<rparr>"
  have close: "ctx_Close port ctx = Inr (ctx\<lparr>sc_List := (sc_List ctx)(port \<mapsto> px\<lparr>px_serving := False\<rparr>),
      sc_closing := port # sc_closing ctx\<rparr>)"
    using assms(2-5) by (simp add: ctx_Close_def on_proxy_def px_Close_def map_get_def)
  have dec: "gob_removeHttpProxy (env_gob env) d1 = Some \<lparr>rhp_Port = port\<rparr>"
    "gob_addHttpProxy (env_gob env) d2 = Some \<lparr>ahp_Port = port, ahp_PrefixType = TypeHashPrefixer\<rparr>"
    using assms(6,7) by simp_all
  have rmv: "apply_opt env RMV_HTTP_PROXY d1 ctx = Inr (None, ?ctx1)"
    unfolding apply_opt_handlers handleRemoveHttpProxy_def dec(1) decoded_Some by (simp add: close)
  have add: "apply_opt env ADD_HTTP_PROXY d2 c = Inr (None, c\<lparr>sc_List := (sc_List c)(port \<mapsto> ?new)\<rparr>)"
    if "sc_mu c = unlocked" "sc_List c port = None" for c
    unfolding apply_opt_handlers handleAddHttpProxy_def dec(2) decoded_Some using that
    by (simp add: create_fresh)
  let ?ctx2 = "?ctx1\<lparr>sc_List := (sc_List ?ctx1)(port \<mapsto> ?new)\<rparr>"
  let ?c = "finish_shutdown port ?ctx1"
  let ?ctx3 = "?c\<lparr>sc_List := (sc_List ?c)(port \<mapsto> ?new)\<rparr>"
  have "apply_opt env ADD_HTTP_PROXY d2 ?ctx1 = Inr (None, ?ctx2)" using assms(1) by (intro add) simp_all
  moreover have "apply_opt env ADD_HTTP_PROXY d2 ?c = Inr (None, ?ctx3)"
    using assms(1) by (intro add) (simp_all add: finish_shutdown_def)
  ultimately show ?thesis using rmv
    by (intro exI[of _ ?ctx1] exI[of _ ?ctx2] exI[of _ ?ctx3]) (simp add: finish_shutdown_def)
qed

theorem late_shutdown_deletes_new_proxy_witness:
  "\<exists>ctx1 ctx2. apply_opt (example_env RaftApplied) RMV_HTTP_PROXY (unary_body (BRemoveHttpProxy \<lparr>rhp_Port = 9000\<rparr>))
      (NewStateContext\<lparr>sc_List := [9000 \<mapsto> fresh_proxy 9000\<lparr>px_serving := True\<rparr>]\<rparr>) = Inr (None, ctx1) \<and>
    apply_opt (example_env RaftApplied) ADD_HTTP_PROXY
      (unary_body (BAddHttpProxy \<lparr>ahp_Port = 9000, ahp_PrefixType = TypeHashPrefixer\<rparr>)) ctx1 = Inr (None, ctx2) \<and>
    sc_List ctx2 9000 \<noteq> None \<and> sc_List (finish_shutdown 9000 ctx2) 9000 = None"
proof -
  let ?px = "fresh_proxy 9000\<lparr>px_serving := True\<rparr> :: bucket HttpReverseProxy"
  let ?ctx = "NewStateContext\<lparr>sc_List := [9000 \<mapsto> ?px]\<rparr>"
  have "sc_mu ?ctx = unlocked" "sc_List ?ctx 9000 = Some ?px" "px_Port ?px = 9000" "px_Shutdown ?px" "px_serving ?px"
    "gob_reads (env_gob (example_env RaftApplied)) (unary_body (BRemoveHttpProxy \<lparr>rhp_Port = 9000\<rparr>)) (BRemoveHttpProxy \<lparr>rhp_Port = 9000\<rparr>)"
    "gob_reads (env_gob (example_env RaftApplied)) (unary_body (BAddHttpProxy \<lparr>ahp_Port = 9000, ahp_PrefixType = TypeHashPrefixer\<rparr>))
      (BAddHttpProxy \<lparr>ahp_Port = 9000, ahp_PrefixType = TypeHashPrefixer\<rparr>)"
    by (simp_all add: NewStateContext_def fresh_proxy_def example_gob_def)
  from late_shutdown_deletes_new_proxy[OF this] show ?thesis by blast
qed

end
