(* ===== verification/DiscoveryEvents.thy ===== *)
theory DiscoveryEvents
  imports Replicas
begin

text \<open>
  \<open>HandleNamespaceEvent\<close> of \<open>src/vermouth/vermouth_state_manager.go\<close>: what the gateway does with the
  events of service discovery. The errors of the commands are not looked at. A proxy that is missing
  is created in a context made on the spot, which nothing else refers to.
\<close>

section \<open>The handler\<close>

text \<open>A command whose error is dropped.\<close>

definition drop_error :: "'l handled \<Rightarrow> 'l StateContext go" where
  "drop_error h = go_bind h (\<lambda>(_, ctx). Inr ctx)"

definition service_prefix :: "Event \<Rightarrow> string" where
  "service_prefix e = ''/'' @ ev_ServiceName e"

definition host_body :: "int \<Rightarrow> Event \<Rightarrow> string \<Rightarrow> httpProxyHostBody" where
  "host_body port e h = \<lparr>hph_Port = port, hph_Prefix = service_prefix e, hph_Host = h\<rparr>"

text \<open>The hosts that no node of the service has any more, in the order of the slice.\<close>

definition remove_stale ::
  "('l, 'f) env \<Rightarrow> string \<Rightarrow> int \<Rightarrow> Event \<Rightarrow> string list \<Rightarrow> 'l StateContext \<Rightarrow> 'l StateContext go" where
  "remove_stale env mode port e =
     go_fold (\<lambda>v ctx. if v \<in> set (ev_Children e) then Inr ctx
       else drop_error (removeHttpProxyHost env mode (host_body port e v) ctx))"

definition handle_event ::
  "('l, 'f) env \<Rightarrow> string \<Rightarrow> int \<Rightarrow> Event \<Rightarrow> 'l StateContext \<Rightarrow> 'l StateContext go" where
  "handle_event env mode port e ctx =
     (if ev_Opt e = ADD_HOST then
        go_bind (checkAndCreate port (NewStateContext :: 'l StateContext)) (\<lambda>_.
          drop_error (addHttpProxyHost env mode (host_body port e (ev_Host e)) ctx))
      else if ev_Opt e = REMOVE_HOST then
        drop_error (removeHttpProxyHost env mode (host_body port e (ev_Host e)) ctx)
      else if ev_Opt e = ADD_SERVICE then
        go_bind (checkAndCreate port (NewStateContext :: 'l StateContext)) (\<lambda>_.
          drop_error (addHttpProxyPrefix env mode \<lparr>app_Port = port, app_Static = False,
            app_Prefix = service_prefix e, app_BalanceType = ''round-robin'', app_ProxyPass = []\<rparr> ctx))
      else if ev_Opt e = REMOVE_SERVICE then
        drop_error (removeHttpProxyPrefix env mode \<lparr>rpp_Port = port, rpp_Prefix = service_prefix e\<rparr> ctx)
      else if ev_Opt e = REMOVE_HOSTS then
        (case sc_List ctx port of
           None \<Rightarrow> Inl NilDeref
         | Some hp \<Rightarrow>
             go_bind (GetHosts (service_prefix e) hp) (\<lambda>(hosts, hp').
               remove_stale env mode port e hosts (ctx\<lparr>sc_List := (sc_List ctx)(port \<mapsto> hp')\<rparr>)))
      else Inr ctx)"

definition HandleNamespaceEvent ::
  "('l, 'f) env \<Rightarrow> string \<Rightarrow> int \<Rightarrow> Event list \<Rightarrow> 'l StateContext \<Rightarrow> 'l StateContext go" where
  "HandleNamespaceEvent env mode port = go_fold (handle_event env mode port)"

section \<open>The handler of one proxy\<close>

text \<open>
  \<open>HandleNamespaceEvent\<close> of \<open>http_proxy.go\<close>, which nothing starts. The range over the hosts reads the
  array the balancer shifts in place when it removes one: \<open>arr\<close> is that array, and \<open>k\<close> hosts are left to
  visit from \<open>i\<close> on.
\<close>

fun px_remove_stale ::
  "string list \<Rightarrow> string \<Rightarrow> nat \<Rightarrow> nat \<Rightarrow> string list \<Rightarrow> 'l HttpReverseProxy \<Rightarrow> 'l HttpReverseProxy go" where
  "px_remove_stale children service 0 i arr proxy = Inr proxy"
| "px_remove_stale children service (Suc k) i arr proxy =
     (if arr ! i \<in> set children then px_remove_stale children service k (i + 1) arr proxy
      else go_bind (RemoveHost service (arr ! i) proxy) (\<lambda>proxy'.
        let hosts = map_get [] (px_Paths proxy') service
        in px_remove_stale children service k (i + 1) (hosts @ drop (length hosts) arr) proxy'))"

definition px_handle_event :: "Event \<Rightarrow> 'l HttpReverseProxy \<Rightarrow> 'l HttpReverseProxy go" where
  "px_handle_event e proxy =
     (if ev_Opt e = ADD_HOST then AddHost (ev_ServiceName e) (ev_Host e) proxy
      else if ev_Opt e = REMOVE_HOST then RemoveHost (ev_ServiceName e) (ev_Host e) proxy
      else if ev_Opt e = ADD_SERVICE then AddPrefix (ev_ServiceName e) ''round-robin'' [] False proxy
      else if ev_Opt e = REMOVE_SERVICE then RemovePrefix (ev_ServiceName e) proxy
      else if ev_Opt e = REMOVE_HOSTS then
        go_bind (GetHosts (ev_ServiceName e) proxy) (\<lambda>(hosts, proxy').
          px_remove_stale (ev_Children e) (ev_ServiceName e) (length hosts) 0 hosts proxy')
      else Inr proxy)"

text \<open>Of three hosts that are all gone the loop removes the first and the third.\<close>

lemma stale_host_survives:
  "(case go_bind (AddPrefix ''users'' ''round-robin'' [''a'', ''b'', ''c''] False (fresh_proxy 9000 :: unit HttpReverseProxy))
      (px_handle_event \<lparr>ev_Opt = REMOVE_HOSTS, ev_ServiceName = ''users'', ev_Host = '''', ev_Children = []\<rparr>) of
    Inl _ \<Rightarrow> None | Inr proxy \<Rightarrow> px_Paths proxy ''users'') = Some [''b'']"
  by code_simp

section \<open>What an event does to the view\<close>

text \<open>\<open>None\<close> is the panic of an edit on a prefix without balancer.\<close>

definition view_event :: "Event \<Rightarrow> view \<Rightarrow> view option" where
  "view_event e v =
     (let p = service_prefix e
      in if ev_Opt e = ADD_HOST then view_edit (EAddHost p (ev_Host e)) v
         else if ev_Opt e = REMOVE_HOST then (if v_hosts v p = None then None else Some v)
         else if ev_Opt e = ADD_SERVICE then view_edit (EAddPrefix p TypeRoundRobin [] False) v
         else if ev_Opt e = REMOVE_SERVICE then view_edit (ERemovePrefix p) v
         else Some v)"

fun view_events :: "Event list \<Rightarrow> view \<Rightarrow> view option" where
  "view_events [] v = Some v"
| "view_events (e # es) v = (case view_event e v of None \<Rightarrow> None | Some v' \<Rightarrow> view_events es v')"

lemma view_events_append:
  "view_events (es @ fs) v = (case view_events es v of None \<Rightarrow> None | Some v' \<Rightarrow> view_events fs v')"
  by (induction es arbitrary: v) (simp_all split: option.split)

lemma checkAndCreate_new: "\<exists>c. checkAndCreate port NewStateContext = Inr c"
  by (simp add: checkAndCreate_def NewStateContext_def NewHttpReverseProxy_def Prefixer_Build_def TypeHashPrefixer_def
      AddHttpReverseProxy_def)

lemma same_proxy: "sc_List ctx port = Some px \<Longrightarrow> ctx\<lparr>sc_List := (sc_List ctx)(port \<mapsto> px)\<rparr> = ctx"
  by (cases ctx) (simp add: fun_upd_idem)

text \<open>In either mode a command that needs its proxy runs the action of stand mode.\<close>

definition commits :: "('l, 'f) env \<Rightarrow> string \<Rightarrow> bool" where
  "commits env mode \<longleftrightarrow> mode = Stand \<or> mode = Cluster \<and> gob_ok (env_gob env) \<and> env_raft env = RaftApplied"

lemma commits_stand:
  assumes "commits env mode" "blacklist_port cmd = None"
  shows "command_run env mode cmd ctx = command_run env Stand cmd ctx"
  using assms cluster_commit[of env cmd ctx] by (auto simp: commits_def)

lemma view_removeHost:
  assumes "commits env mode" "sc_List ctx (hph_Port b) = Some px" "shows_view px v"
  shows "drop_error (removeHttpProxyHost env mode b ctx) =
    (if v_hosts v (hph_Prefix b) = None then Inl NilDeref else Inr ctx)"
proof -
  have mode: "removeHttpProxyHost env mode b ctx = removeHttpProxyHost env Stand b ctx"
    using commits_stand[OF assms(1), of "CRemoveHost b"] by simp
  show ?thesis
  proof (cases "v_hosts v (hph_Prefix b)")
    case None
    with RemoveHost_simulates[OF assms(3), of "hph_Prefix b" "hph_Host b"] show ?thesis
      unfolding mode by (simp add: removeHttpProxyHost_def assms(2) HostExists_def map_get_def shows_view_Paths[OF assms(3)]
          on_proxy_def drop_error_def)
  next
    case (Some hs)
    with RemoveHost_absent[OF assms(3) Some, of "hph_Host b"] show ?thesis
      unfolding mode by (simp add: removeHttpProxyHost_def assms(2) HostExists_def map_get_def shows_view_Paths[OF assms(3)]
          on_proxy_def drop_error_def same_proxy)
  qed
qed

text \<open>What an edit leaves of the rest of a proxy: it takes limiters away at most.\<close>

definition edited :: "'l HttpReverseProxy \<Rightarrow> 'l HttpReverseProxy \<Rightarrow> bool" where
  "edited px px' \<longleftrightarrow> kept px px' \<and> px_rateLimiters px' \<subseteq>\<^sub>m px_rateLimiters px"

lemma edited_refl [simp]: "edited px px"
  by (simp add: edited_def)

lemma edited_trans: "edited px px1 \<Longrightarrow> edited px1 px2 \<Longrightarrow> edited px px2"
  unfolding edited_def using kept_trans map_le_trans by blast

lemma AddPrefix_limiters: "AddPrefix p algo hosts static px = Inr px' \<Longrightarrow> px_rateLimiters px' = px_rateLimiters px"
  by (auto simp: AddPrefix_eq go_bind_eq_Inr_iff split: if_splits)

lemma RemovePrefix_limiters: "RemovePrefix p px = Inr px' \<Longrightarrow> px_rateLimiters px' \<subseteq>\<^sub>m px_rateLimiters px"
  by (auto simp: RemovePrefix_def go_bind_eq_Inr_iff map_le_def split: if_splits)

lemma edit_host_limiters: "edit_host f p h px = Inr px' \<Longrightarrow> px_rateLimiters px' = px_rateLimiters px"
  by (auto simp: edit_host_def go_bind_eq_Inr_iff)

lemma changeLb_limiters: "changeLb p lb px = Inr px' \<Longrightarrow> px_rateLimiters px' \<subseteq>\<^sub>m px_rateLimiters px"
  by (auto simp: changeLb_def go_bind_eq_Inr_iff Let_def dest!: RemovePrefix_limiters AddPrefix_limiters)

lemma edit_edited: "edit_apply e px = Inr px' \<Longrightarrow> edited px px'"
proof -
  assume run: "edit_apply e px = Inr px'"
  then have "px_rateLimiters px' \<subseteq>\<^sub>m px_rateLimiters px"
    by (cases e) (auto simp: AddHost_def RemoveHost_def changeStatic_def LoadBalance_def go_bind_eq_Inr_iff Let_def
        dest: AddPrefix_limiters RemovePrefix_limiters edit_host_limiters changeLb_limiters split: option.splits)
  with edit_kept[OF run] show "edited px px'" by (simp add: edited_def)
qed

text \<open>What one event does to the proxy of its port.\<close>

definition event_done :: "'l StateContext \<Rightarrow> int \<Rightarrow> view option \<Rightarrow> 'l StateContext go \<Rightarrow> bool" where
  "event_done ctx port v res =
     (case v of
        None \<Rightarrow> res = Inl NilDeref
      | Some v' \<Rightarrow> \<exists>px'. res = Inr (ctx\<lparr>sc_List := (sc_List ctx)(port \<mapsto> px')\<rparr>) \<and> shows_view px' v' \<and>
          (\<forall>px. sc_List ctx port = Some px \<longrightarrow> edited px px'))"

lemma event_done_same: "sc_List ctx port = Some px \<Longrightarrow> shows_view px v \<Longrightarrow> event_done ctx port (Some v) (Inr ctx)"
  by (auto simp: event_done_def intro!: exI[of _ px] dest: same_proxy)

lemma edit_done:
  assumes "sc_List ctx port = Some px" "shows_view px v" "rr_edit e"
  shows "event_done ctx port (view_edit e v) (on_proxy port (edit_apply e) ctx)"
  using edit_simulates[OF assms(2,3)]
  by (cases "view_edit e v") (auto simp: event_done_def on_proxy_def assms(1) simp del: edit_apply.simps dest: edit_edited)

lemma drop_error_done [simp]: "drop_error (go_bind m (\<lambda>ctx. Inr (None, ctx))) = m"
  by (cases m) (simp_all add: drop_error_def)

lemma view_addHost:
  assumes "commits env mode" "sc_List ctx (hph_Port b) = Some px" "shows_view px v"
  shows "event_done ctx (hph_Port b) (view_edit (EAddHost (hph_Prefix b) (hph_Host b)) v)
    (drop_error (addHttpProxyHost env mode b ctx))"
proof -
  have mode: "addHttpProxyHost env mode b ctx = addHttpProxyHost env Stand b ctx"
    using commits_stand[OF assms(1), of "CAddHost b"] by simp
  show ?thesis
  proof (cases "HostExists (hph_Prefix b) (hph_Host b) px")
    case True
    then obtain hs where "v_hosts v (hph_Prefix b) = Some hs" "hph_Host b \<in> set hs"
      by (cases "v_hosts v (hph_Prefix b)") (simp_all add: HostExists_def map_get_def shows_view_Paths[OF assms(3)])
    then have "view_edit (EAddHost (hph_Prefix b) (hph_Host b)) v = Some v" by (cases v) (simp add: fun_upd_idem)
    with True event_done_same[OF assms(2,3)] show ?thesis
      unfolding mode by (simp add: addHttpProxyHost_def assms(2) drop_error_def)
  next
    case False
    then have "drop_error (addHttpProxyHost env mode b ctx) =
      on_proxy (hph_Port b) (edit_apply (EAddHost (hph_Prefix b) (hph_Host b))) ctx"
      unfolding mode proxy_ops_are_edits[symmetric] by (simp add: addHttpProxyHost_def assms(2))
    then show ?thesis using edit_done[OF assms(2,3), of "EAddHost (hph_Prefix b) (hph_Host b)"] by simp
  qed
qed

lemma view_addPrefix:
  assumes "commits env mode" "sc_List ctx (app_Port b) = Some px" "shows_view px v" "app_BalanceType b = TypeRoundRobin"
    "length (app_ProxyPass b) < 2 ^ 63"
  shows "event_done ctx (app_Port b) (view_edit (EAddPrefix (app_Prefix b) TypeRoundRobin (app_ProxyPass b) (app_Static b)) v)
    (drop_error (addHttpProxyPrefix env mode b ctx))"
proof -
  have mode: "addHttpProxyPrefix env mode b ctx = addHttpProxyPrefix env Stand b ctx"
    using commits_stand[OF assms(1), of "CAddPrefix b"] by simp
  show ?thesis
  proof (cases "v_hosts v (app_Prefix b)")
    case (Some hs)
    with event_done_same[OF assms(2,3)] show ?thesis
      unfolding mode by (simp add: addHttpProxyPrefix_def assms(2) PrefixExists_def shows_view_Paths[OF assms(3)] drop_error_def)
  next
    case None
    let ?e = "EAddPrefix (app_Prefix b) TypeRoundRobin (app_ProxyPass b) (app_Static b)"
    have run: "drop_error (addHttpProxyPrefix env mode b ctx) = on_proxy (app_Port b) (edit_apply ?e) ctx"
      unfolding mode proxy_ops_are_edits[symmetric] using None
      by (simp add: addHttpProxyPrefix_def assms(2,4) PrefixExists_def shows_view_Paths[OF assms(3)])
    have "TypeRoundRobin \<noteq> TypeConsistenceHash" by (simp add: TypeRoundRobin_def TypeConsistenceHash_def)
    then show ?thesis unfolding run using edit_done[OF assms(2,3), of ?e] assms(5) by simp
  qed
qed

lemma view_removePrefix:
  assumes "commits env mode" "sc_List ctx (rpp_Port b) = Some px" "shows_view px v"
  shows "event_done ctx (rpp_Port b) (view_edit (ERemovePrefix (rpp_Prefix b)) v)
    (drop_error (removeHttpProxyPrefix env mode b ctx))"
proof -
  have mode: "removeHttpProxyPrefix env mode b ctx = removeHttpProxyPrefix env Stand b ctx"
    using commits_stand[OF assms(1), of "CRemovePrefix b"] by simp
  show ?thesis
  proof (cases "v_hosts v (rpp_Prefix b)")
    case None
    then have "view_edit (ERemovePrefix (rpp_Prefix b)) v = Some v" by (cases v) (simp add: fun_upd_idem)
    with None event_done_same[OF assms(2,3)] show ?thesis
      unfolding mode by (simp add: removeHttpProxyPrefix_def assms(2) PrefixExists_def shows_view_Paths[OF assms(3)] drop_error_def)
  next
    case (Some hs)
    then have "drop_error (removeHttpProxyPrefix env mode b ctx) =
      on_proxy (rpp_Port b) (edit_apply (ERemovePrefix (rpp_Prefix b))) ctx"
      unfolding mode proxy_ops_are_edits[symmetric]
      by (simp add: removeHttpProxyPrefix_def assms(2) PrefixExists_def shows_view_Paths[OF assms(3)])
    then show ?thesis using edit_done[OF assms(2,3), of "ERemovePrefix (rpp_Prefix b)"] by simp
  qed
qed

lemma remove_stale_nothing:
  assumes "commits env mode" "sc_List ctx port = Some px" "shows_view px v" "v_hosts v (service_prefix e) \<noteq> None \<or> hs = []"
  shows "remove_stale env mode port e hs ctx = Inr ctx"
  using assms(4)
proof (induction hs)
  case (Cons h hs)
  then have "drop_error (removeHttpProxyHost env mode (host_body port e h) ctx) = Inr ctx"
    using view_removeHost[OF assms(1), of ctx "host_body port e h"] assms(2,3) by (simp add: host_body_def)
  with Cons show ?case by (simp add: remove_stale_def)
qed (simp add: remove_stale_def)

lemma GetHosts_view:
  assumes "shows_view px v"
  shows "GetHosts p px = Inr (map_get [] (v_hosts v) p, px)"
proof -
  have "px\<lparr>px_mu := unlocked\<rparr> = px" using shows_viewD(1)[OF assms] by (cases px) simp
  then show ?thesis using shows_viewD(1)[OF assms] by (simp add: GetHosts_def map_get_def shows_view_Paths[OF assms])
qed

lemma handle_event_simulates:
  assumes "commits env mode" "sc_List ctx port = Some px" "shows_view px v"
  shows "event_done ctx port (view_event e v) (handle_event env mode port e ctx)"
proof -
  obtain c :: "'a StateContext" where c: "checkAndCreate port NewStateContext = Inr c" using checkAndCreate_new by blast
  note same = event_done_same[OF assms(2,3)]
  have rr: "''round-robin'' = TypeRoundRobin" by (simp add: TypeRoundRobin_def)
  consider "ev_Opt e = ADD_HOST" | "ev_Opt e = REMOVE_HOST" | "ev_Opt e = ADD_SERVICE" | "ev_Opt e = REMOVE_SERVICE"
    | "ev_Opt e = REMOVE_HOSTS" | "ev_Opt e \<notin> {ADD_HOST, REMOVE_HOST, ADD_SERVICE, REMOVE_SERVICE, REMOVE_HOSTS}"
    by blast
  then show ?thesis
  proof cases
    case 1
    with view_addHost[OF assms(1), of ctx "host_body port e (ev_Host e)"] assms(2,3) c show ?thesis
      by (simp add: handle_event_def view_event_def host_body_def Let_def del: view_edit.simps)
  next
    case 2
    with view_removeHost[OF assms(1), of ctx "host_body port e (ev_Host e)"] assms(2,3) same show ?thesis
      by (simp add: handle_event_def view_event_def host_body_def event_opts event_done_def)
  next
    case 3
    with view_addPrefix[OF assms(1), of ctx "\<lparr>app_Port = port, app_Static = False,
            app_Prefix = service_prefix e, app_BalanceType = ''round-robin'', app_ProxyPass = []\<rparr>"] assms(2,3) c
    show ?thesis by (simp add: handle_event_def view_event_def event_opts rr Let_def del: view_edit.simps)
  next
    case 4
    with view_removePrefix[OF assms(1), of ctx "\<lparr>rpp_Port = port, rpp_Prefix = service_prefix e\<rparr>"] assms(2,3)
    show ?thesis by (simp add: handle_event_def view_event_def event_opts Let_def del: view_edit.simps)
  next
    case 5
    have "remove_stale env mode port e (map_get [] (v_hosts v) (service_prefix e)) ctx = Inr ctx"
      by (rule remove_stale_nothing[OF assms]) (simp add: map_get_def split: option.split)
    then have "handle_event env mode port e ctx = Inr ctx"
      using 5 by (simp add: handle_event_def event_opts assms(2) GetHosts_view[OF assms(3)] same_proxy)
    with 5 same show ?thesis by (simp add: view_event_def event_opts)
  next
    case 6
    with same show ?thesis by (simp add: handle_event_def view_event_def)
  qed
qed

lemma events_simulate:
  assumes "commits env mode" "sc_List ctx port = Some px" "shows_view px v"
  shows "event_done ctx port (view_events es v) (HandleNamespaceEvent env mode port es ctx)"
  using assms(2,3)
proof (induction es arbitrary: ctx px v)
  case Nil
  then show ?case using event_done_same by (simp add: HandleNamespaceEvent_def)
next
  case (Cons e es)
  note step = handle_event_simulates[OF assms(1) Cons.prems, of e]
  show ?case
  proof (cases "view_event e v")
    case None
    with step show ?thesis by (simp add: event_done_def HandleNamespaceEvent_def)
  next
    case (Some v1)
    with step obtain px1 where
      px1: "handle_event env mode port e ctx = Inr (ctx\<lparr>sc_List := (sc_List ctx)(port \<mapsto> px1)\<rparr>)" "shows_view px1 v1"
      and edited: "edited px px1"
      using Cons.prems(1) by (auto simp: event_done_def)
    let ?ctx = "ctx\<lparr>sc_List := (sc_List ctx)(port \<mapsto> px1)\<rparr>"
    have "event_done ?ctx port (view_events es v1) (HandleNamespaceEvent env mode port es ?ctx)"
      by (rule Cons.IH[OF _ px1(2)]) simp
    with px1(1) Some edited_trans[OF edited] Cons.prems(1) show ?thesis
      by (auto simp: event_done_def HandleNamespaceEvent_def split: option.splits)
  qed
qed

section \<open>What discovery does to the tables\<close>



text \<open>
  Discovery never makes the proxy of its port: while the port has none, every event is dropped, in
  stand mode and in a cluster, except the list of the hosts of a service, on which the handler panics.
\<close>

theorem discovery_needs_proxy:
  assumes "sc_List ctx port = None"
  shows "handle_event env mode port e ctx = (if ev_Opt e = REMOVE_HOSTS then Inl NilDeref else Inr ctx)"
proof -
  obtain c :: "'a StateContext" where "checkAndCreate port NewStateContext = Inr c" using checkAndCreate_new by blast
  with assms show ?thesis
    by (simp add: handle_event_def event_opts drop_error_def addHttpProxyHost_def removeHttpProxyHost_def
        addHttpProxyPrefix_def removeHttpProxyPrefix_def host_body_def)
qed

theorem discovery_needs_proxy_witness:
  "handle_event (example_env RaftApplied) Stand 9000 (service_event ADD_SERVICE ''users'') NewStateContext = Inr NewStateContext"
  by (subst discovery_needs_proxy) (simp_all add: NewStateContext_def service_event_def event_opts)

section \<open>From the list of services to the prefixes\<close>

definition prefix_of :: "string \<Rightarrow> string" where
  "prefix_of s = ''/'' @ s"

lemma service_prefix_event [simp]: "service_prefix (service_event opt s) = prefix_of s"
  by (simp add: service_prefix_def service_event_def prefix_of_def)

lemma prefix_of_inject [simp]: "prefix_of s = prefix_of t \<longleftrightarrow> s = t"
  by (simp add: prefix_of_def)

lemma view_removals:
  "\<exists>v'. view_events (map (service_event REMOVE_SERVICE) ss) v = Some v' \<and>
    (\<forall>p. v_hosts v' p = (if p \<in> prefix_of ` set ss then None else v_hosts v p))"
proof (induction ss arbitrary: v)
  case (Cons s ss)
  let ?v = "v\<lparr>v_hosts := (v_hosts v)(prefix_of s := None)\<rparr>"
  have "view_event (service_event REMOVE_SERVICE s) v = Some ?v"
    by (simp add: view_event_def event_opts service_event_def service_prefix_def prefix_of_def)
  with Cons.IH[of ?v] show ?case by auto
qed simp

lemma view_additions:
  "\<exists>v'. view_events (map (service_event ADD_SERVICE) ss) v = Some v' \<and>
    (\<forall>p. v_hosts v' p = (if p \<in> prefix_of ` set ss \<and> v_hosts v p = None then Some [] else v_hosts v p))"
proof (induction ss arbitrary: v)
  case (Cons s ss)
  let ?p = "prefix_of s"
  let ?v = "if v_hosts v ?p \<noteq> None then v
    else v\<lparr>v_hosts := (v_hosts v)(?p \<mapsto> []), v_static := (v_static v)(?p \<mapsto> False)\<rparr>"
  have step: "view_event (service_event ADD_SERVICE s) v = Some ?v"
    by (simp add: view_event_def event_opts service_event_def service_prefix_def prefix_of_def Let_def)
  have hosts: "v_hosts ?v p = (if p = ?p \<and> v_hosts v p = None then Some [] else v_hosts v p)" for p by auto
  from Cons.IH[of ?v] obtain v' where v': "view_events (map (service_event ADD_SERVICE) ss) ?v = Some v'"
    "\<forall>p. v_hosts v' p = (if p \<in> prefix_of ` set ss \<and> v_hosts ?v p = None then Some [] else v_hosts ?v p)" by blast
  have "v_hosts v' p = (if p \<in> prefix_of ` set (s # ss) \<and> v_hosts v p = None then Some [] else v_hosts v p)" for p
    unfolding v'(2)[rule_format] hosts by simp
  with step v'(1) show ?case by simp
qed simp

text \<open>
  C16: on a port whose proxy has round-robin prefixes, while no watcher of an earlier round is still ending (the
  services and the table of watchers agree): an iteration of the service loop and the handling of what it announced
  take away the prefixes of the services that went, give every new service a prefix, without hosts unless it
  has one already, and leave every other prefix, also those of operators, with the hosts it had.
\<close>

theorem discovery_round_updates_prefixes:
  assumes "set (zk_Services zk) = dom (zk_Shutdown zk)" "distinct lasts" "set lasts = set (zk_Services zk)"
    "distinct curs" "set curs = set cs" "commits env mode" "sc_List ctx port = Some px" "shows_view px v"
  shows "\<exists>zk' px' v'. watchServices lasts (Some cs) curs zk = Inr zk' \<and>
    HandleNamespaceEvent env mode port (drop (length (zk_sent zk)) (zk_sent zk')) ctx =
      Inr (ctx\<lparr>sc_List := (sc_List ctx)(port \<mapsto> px')\<rparr>) \<and> shows_view px' v' \<and>
    (\<forall>p. v_hosts v' p =
      (if p \<in> prefix_of ` (set (zk_Services zk) - set cs) then None
       else if p \<in> prefix_of ` (set cs - set (zk_Services zk)) \<and> v_hosts v p = None then Some []
       else v_hosts v p))"
proof -
  let ?gone = "filter (\<lambda>s. s \<notin> set cs) lasts" and ?new = "filter (\<lambda>s. s \<notin> set (zk_Services zk)) curs"
  have open_new: "opened curs zk = ?new" by (simp add: opened_def assms(1) domIff cong: filter_cong)
  have none: "\<not> (\<exists>s \<in> set ?gone. zk_Shutdown zk s = None)" using assms(1,3) by auto
  obtain zk' where zk': "watchServices lasts (Some cs) curs zk = Inr zk'"
    "zk_sent zk' = zk_sent zk @ map (service_event REMOVE_SERVICE) ?gone @ map (service_event ADD_SERVICE) ?new"
    unfolding watchServices_eq[OF assms(2,4,5)] Let_def if_not_P[OF none] open_new by simp
  obtain v1 where v1: "view_events (map (service_event REMOVE_SERVICE) ?gone) v = Some v1"
    "\<forall>p. v_hosts v1 p = (if p \<in> prefix_of ` set ?gone then None else v_hosts v p)" using view_removals by blast
  obtain v2 where v2: "view_events (map (service_event ADD_SERVICE) ?new) v1 = Some v2"
    "\<forall>p. v_hosts v2 p = (if p \<in> prefix_of ` set ?new \<and> v_hosts v1 p = None then Some [] else v_hosts v1 p)"
    using view_additions by blast
  have events: "drop (length (zk_sent zk)) (zk_sent zk') =
    map (service_event REMOVE_SERVICE) ?gone @ map (service_event ADD_SERVICE) ?new" by (simp add: zk'(2))
  have views: "view_events (drop (length (zk_sent zk)) (zk_sent zk')) v = Some v2"
    unfolding events view_events_append v1(1) option.case by (rule v2(1))
  from events_simulate[OF assms(6-8), of "drop (length (zk_sent zk)) (zk_sent zk')"] obtain px' where
    px': "HandleNamespaceEvent env mode port (drop (length (zk_sent zk)) (zk_sent zk')) ctx =
      Inr (ctx\<lparr>sc_List := (sc_List ctx)(port \<mapsto> px')\<rparr>)" "shows_view px' v2"
    unfolding views event_done_def by auto
  have sets: "set ?gone = set (zk_Services zk) - set cs" "set ?new = set cs - set (zk_Services zk)" using assms(3,5) by auto
  have apart: "prefix_of ` (set (zk_Services zk) - set cs) \<inter> prefix_of ` (set cs - set (zk_Services zk)) = {}" by auto
  have "v_hosts v2 p = (if p \<in> prefix_of ` (set (zk_Services zk) - set cs) then None
       else if p \<in> prefix_of ` (set cs - set (zk_Services zk)) \<and> v_hosts v p = None then Some []
       else v_hosts v p)" for p
    unfolding v2(2)[rule_format] v1(2)[rule_format] sets using apart by (simp add: disjoint_iff)
  with zk'(1) px' show ?thesis by blast
qed

theorem discovery_round_updates_prefixes_witness:
  "\<exists>px zk' px' v'. shows_view px \<lparr>v_hosts = [''/api'' \<mapsto> [''a:1'']], v_static = [''/api'' \<mapsto> False]\<rparr> \<and>
    watchServices [] (Some [''users'']) [''users''] new_zk = Inr zk' \<and>
    HandleNamespaceEvent (example_env RaftApplied) Stand 9000 (drop (length (zk_sent new_zk)) (zk_sent zk'))
      (NewStateContext\<lparr>sc_List := [9000 \<mapsto> px]\<rparr>) = Inr (NewStateContext\<lparr>sc_List := [9000 \<mapsto> px']\<rparr>) \<and>
    shows_view px' v' \<and> v_hosts v' = [''/api'' \<mapsto> [''a:1''], ''/users'' \<mapsto> []]"
proof -
  let ?v = "\<lparr>v_hosts = [''/api'' \<mapsto> [''a:1'']], v_static = [''/api'' \<mapsto> False]\<rparr>"
  obtain px :: "bucket HttpReverseProxy" where px: "shows_view px ?v" using example_api_proxy[of 9000] by blast
  let ?ctx = "NewStateContext\<lparr>sc_List := [9000 \<mapsto> px]\<rparr>"
  have "commits (example_env RaftApplied) Stand" by (simp add: commits_def)
  from discovery_round_updates_prefixes[of new_zk "[]" "[''users'']" "[''users'']", OF _ _ _ _ _ this _ px, of ?ctx 9000]
  obtain zk' px' v' where *: "watchServices [] (Some [''users'']) [''users''] new_zk = Inr zk'"
    "HandleNamespaceEvent (example_env RaftApplied) Stand 9000 (drop (length (zk_sent new_zk)) (zk_sent zk')) ?ctx =
      Inr (?ctx\<lparr>sc_List := (sc_List ?ctx)(9000 \<mapsto> px')\<rparr>)" "shows_view px' v'"
    and hosts: "\<forall>p. v_hosts v' p = (if p \<in> prefix_of ` (set (zk_Services new_zk) - set [''users'']) then None
       else if p \<in> prefix_of ` (set [''users''] - set (zk_Services new_zk)) \<and> v_hosts ?v p = None then Some []
       else v_hosts ?v p)"
    by (auto simp: new_zk_def)
  have "v_hosts v' = [''/api'' \<mapsto> [''a:1''], ''/users'' \<mapsto> []]"
    by (rule ext) (simp add: hosts new_zk_def prefix_of_def)
  with px * show ?thesis by (intro exI[of _ px] exI[of _ zk'] exI[of _ px'] exI[of _ v']) simp
qed

end
