(* ===== verification/RpcServer.thy ===== *)
theory RpcServer
  imports DiscoveryEvents
begin

text \<open>
  The RPC server for services, \<open>src/vermouth/rpc_server.go\<close>: a service registers its address under a
  prefix of a port, cancels it, and asks for an address. The messages are records of the fields of the
  generated types; \<open>gRPC\<close> itself is not modelled. The result of a call is its message and whether it has
  an error.
\<close>

record RegisterToProxyReq =
  rg_Port :: int
  rg_Prefix :: string
  rg_LocalAddr :: string
  rg_BalanceMode :: string
  rg_Static :: bool

record CancalReq =
  cn_Port :: int
  cn_Prefix :: string
  cn_LocalAddr :: string

record LoadBalanceReq =
  lq_Port :: int
  lq_Prefix :: string
  lq_Fact :: string

record Res =
  res_Message :: string
  res_error :: bool

definition Success_Res :: Res where "Success_Res = \<lparr>res_Message = ''success'', res_error = False\<rparr>"
definition failed_Res :: Res where "failed_Res = \<lparr>res_Message = ''failed'', res_error = False\<rparr>"

type_synonym 'l called = "(Res \<times> 'l StateContext) go"

section \<open>Registering\<close>

text \<open>The proxy of the port, made when there is none; the flag says whether there is one now.\<close>

definition ensure_proxy :: "('l, 'f) env \<Rightarrow> string \<Rightarrow> int \<Rightarrow> 'l StateContext \<Rightarrow> (bool \<times> 'l StateContext) go" where
  "ensure_proxy env mode port ctx =
     (case sc_List ctx port of
        Some _ \<Rightarrow> Inr (True, ctx)
      | None \<Rightarrow>
          go_bind (addHttpProxy env mode \<lparr>ahp_Port = port, ahp_PrefixType = ''hash-prefixer''\<rparr> ctx) (\<lambda>(err, ctx1).
            case err of Some _ \<Rightarrow> Inr (False, ctx1) | None \<Rightarrow> Inr (sc_List ctx1 port \<noteq> None, ctx1)))"

definition prefix_exists :: "int \<Rightarrow> string \<Rightarrow> 'l StateContext \<Rightarrow> (bool \<times> 'l StateContext) go" where
  "prefix_exists port prefix ctx =
     (case sc_List ctx port of
        None \<Rightarrow> Inl NilDeref
      | Some proxy \<Rightarrow> go_bind (checkPrefixExists prefix proxy) (\<lambda>(ok, proxy').
          Inr (ok, ctx\<lparr>sc_List := (sc_List ctx)(port \<mapsto> proxy')\<rparr>)))"

text \<open>In stand mode the proxy is changed at once; in a cluster an entry is appended. Neither goes through the checks of a command.\<close>

definition register_host :: "('l, 'f) env \<Rightarrow> string \<Rightarrow> RegisterToProxyReq \<Rightarrow> 'l StateContext \<Rightarrow> 'l handled" where
  "register_host env mode req ctx =
     (if mode = Stand then
        go_bind (prefix_exists (rg_Port req) (rg_Prefix req) ctx) (\<lambda>(ok, ctx1).
          go_bind (on_proxy (rg_Port req)
              (if \<not> ok then AddPrefix (rg_Prefix req) (rg_BalanceMode req) [rg_LocalAddr req] (rg_Static req)
               else AddHost (rg_Prefix req) (rg_LocalAddr req)) ctx1)
            (\<lambda>ctx2. Inr (None, ctx2)))
      else if mode = Cluster then
        go_bind (prefix_exists (rg_Port req) (rg_Prefix req) ctx) (\<lambda>(ok, ctx1).
          if \<not> ok then AppendLogEntry env ADD_HTTP_PROXY_PREFIX (BAddPrefix \<lparr>app_Port = rg_Port req,
              app_Static = rg_Static req, app_Prefix = rg_Prefix req, app_BalanceType = rg_BalanceMode req,
              app_ProxyPass = [rg_LocalAddr req]\<rparr>) ctx1
          else AppendLogEntry env ADD_HTTP_PROXY_HOST (BHost \<lparr>hph_Port = rg_Port req, hph_Prefix = rg_Prefix req,
              hph_Host = rg_LocalAddr req\<rparr>) ctx1)
      else Inr (None, ctx))"

definition RegisterToProxy :: "('l, 'f) env \<Rightarrow> string \<Rightarrow> RegisterToProxyReq \<Rightarrow> 'l StateContext \<Rightarrow> 'l called" where
  "RegisterToProxy env mode req ctx =
     go_bind (ensure_proxy env mode (rg_Port req) ctx) (\<lambda>(ok, ctx1).
       if \<not> ok then Inr (failed_Res, ctx1)
       else go_bind (register_host env mode req ctx1) (\<lambda>(err, ctx2).
         Inr (case err of None \<Rightarrow> Success_Res | Some _ \<Rightarrow> failed_Res, ctx2)))"

section \<open>The other calls\<close>

definition rpc_Cancel :: "('l, 'f) env \<Rightarrow> string \<Rightarrow> CancalReq \<Rightarrow> 'l StateContext \<Rightarrow> 'l called" where
  "rpc_Cancel env mode req ctx =
     go_bind (removeHttpProxyHost env mode \<lparr>hph_Port = cn_Port req, hph_Prefix = cn_Prefix req, hph_Host = cn_LocalAddr req\<rparr> ctx)
       (\<lambda>(err, ctx1).
         case err of
           Some _ \<Rightarrow> Inr (failed_Res, ctx1)
         | None \<Rightarrow>
             (case sc_List ctx1 (cn_Port req) of
                None \<Rightarrow> Inl NilDeref
              | Some proxy \<Rightarrow>
                  go_bind (GetHosts (cn_Prefix req) proxy) (\<lambda>(hosts, proxy').
                    let ctx2 = ctx1\<lparr>sc_List := (sc_List ctx1)(cn_Port req \<mapsto> proxy')\<rparr>
                    in if length hosts = 0 then
                         go_bind (removeHttpProxyPrefix env mode \<lparr>rpp_Port = cn_Port req, rpp_Prefix = cn_Prefix req\<rparr> ctx2)
                           (\<lambda>(err, ctx3). Inr (case err of None \<Rightarrow> Success_Res | Some _ \<Rightarrow> failed_Res, ctx3))
                       else Inr (Success_Res, ctx2))))"

text \<open>\<open>AddVoter\<close> is raft's: the argument says whether it succeeds.\<close>

definition rpc_JoinCluster :: "string \<Rightarrow> (string \<Rightarrow> string \<Rightarrow> bool) \<Rightarrow> string \<Rightarrow> string \<Rightarrow> Res" where
  "rpc_JoinCluster mode add_voter tcpAddress nodeName =
     (if mode = Stand then \<lparr>res_Message = ''failed'', res_error = True\<rparr>
      else if \<not> add_voter nodeName tcpAddress then \<lparr>res_Message = ''failed'', res_error = True\<rparr>
      else Success_Res)"

definition rpc_LoadBalance :: "LoadBalanceReq \<Rightarrow> 'l StateContext \<Rightarrow> 'l called" where
  "rpc_LoadBalance req ctx =
     (case sc_List ctx (lq_Port req) of
        None \<Rightarrow> Inr (\<lparr>res_Message = '''', res_error = True\<rparr>, ctx)
      | Some proxy \<Rightarrow>
          go_bind (LoadBalance (lq_Prefix req) (lq_Fact req) proxy) (\<lambda>(addr, proxy').
            Inr (\<lparr>res_Message = addr, res_error = False\<rparr>, ctx\<lparr>sc_List := (sc_List ctx)(lq_Port req \<mapsto> proxy')\<rparr>)))"

section \<open>What registering does\<close>

text \<open>The tables of the port, empty when it has no proxy yet.\<close>

definition port_shows :: "'l StateContext \<Rightarrow> int \<Rightarrow> view \<Rightarrow> bool" where
  "port_shows ctx port v = (case sc_List ctx port of None \<Rightarrow> v = new_view | Some px \<Rightarrow> shows_view px v)"

lemma ensure_proxy_ok:
  assumes "commits env mode" "sc_mu ctx = unlocked" "port_shows ctx port v"
  shows "\<exists>ctx1 px. ensure_proxy env mode port ctx = Inr (True, ctx1) \<and> sc_List ctx1 port = Some px \<and> shows_view px v \<and>
    (\<forall>q. q \<noteq> port \<longrightarrow> sc_List ctx1 q = sc_List ctx q)"
proof (cases "sc_List ctx port")
  case (Some px)
  with assms(3) show ?thesis by (simp add: ensure_proxy_def port_shows_def)
next
  case None
  let ?b = "\<lparr>ahp_Port = port, ahp_PrefixType = ''hash-prefixer''\<rparr>"
  have "addHttpProxy env mode ?b ctx = addHttpProxy env Stand ?b ctx"
    using commits_stand[OF assms(1), of "CAddProxy ?b"] by simp
  also have "\<dots> = Inr (None, ctx\<lparr>sc_List := (sc_List ctx)(port \<mapsto> fresh_proxy port\<lparr>px_serving := env_listen env port\<rparr>)\<rparr>)"
    using create_fresh[of "\<lparr>ha_Port = port, ha_PrefixerType = ''hash-prefixer'', ha_Paths = []\<rparr>" ctx env] None assms(2)
    by (simp add: addHttpProxy_def TypeHashPrefixer_def)
  finally show ?thesis
    using None assms(3) fresh_proxy_view by (simp add: ensure_proxy_def port_shows_def)
qed

lemma prefix_exists_view:
  assumes "sc_List ctx port = Some px" "shows_view px v"
  shows "prefix_exists port prefix ctx = Inr (v_hosts v prefix \<noteq> None, ctx)"
proof -
  have "px\<lparr>px_mu := unlocked\<rparr> = px" using shows_viewD(1)[OF assms(2)] by (cases px) simp
  then have "checkPrefixExists prefix px = Inr (v_hosts v prefix \<noteq> None, px)"
    by (simp add: checkPrefixExists_def shows_viewD(1)[OF assms(2)] shows_view_Paths[OF assms(2)])
  then show ?thesis by (simp add: prefix_exists_def assms(1) same_proxy)
qed

definition registered :: "RegisterToProxyReq \<Rightarrow> view \<Rightarrow> string list" where
  "registered req v =
     (case v_hosts v (rg_Prefix req) of
        None \<Rightarrow> [rg_LocalAddr req]
      | Some hs \<Rightarrow> if rg_LocalAddr req \<in> set hs then hs else hs @ [rg_LocalAddr req])"

lemma register_host_modes:
  assumes "commits env mode"
  shows "register_host env mode req ctx = register_host env Stand req ctx"
proof (cases "mode = Stand")
  case False
  with assms have c: "mode = Cluster" "gob_ok (env_gob env)" "env_raft env = RaftApplied" by (auto simp: commits_def)
  have add: "AppendLogEntry env ADD_HTTP_PROXY_PREFIX (BAddPrefix b) x =
    go_bind (on_proxy (app_Port b) (AddPrefix (app_Prefix b) (app_BalanceType b) (app_ProxyPass b) (app_Static b)) x) (\<lambda>x. Inr (None, x))" for b x
    by (rule append_commit[OF c(2,3)]) (simp add: commit_simps)
  have host: "AppendLogEntry env ADD_HTTP_PROXY_HOST (BHost b) x =
    go_bind (on_proxy (hph_Port b) (AddHost (hph_Prefix b) (hph_Host b)) x) (\<lambda>x. Inr (None, x))" for b x
    by (rule append_commit[OF c(2,3)]) (simp add: commit_simps)
  show ?thesis
    by (cases "prefix_exists (rg_Port req) (rg_Prefix req) ctx") (auto simp: register_host_def c(1) add host)
qed simp

lemma register_host_view:
  assumes "commits env mode" "sc_List ctx (rg_Port req) = Some px" "shows_view px v" "rg_BalanceMode req = TypeRoundRobin"
  shows "\<exists>px' v'. register_host env mode req ctx = Inr (None, ctx\<lparr>sc_List := (sc_List ctx)(rg_Port req \<mapsto> px')\<rparr>) \<and>
    shows_view px' v' \<and> v_hosts v' = (v_hosts v)(rg_Prefix req \<mapsto> registered req v)"
proof -
  let ?e = "if v_hosts v (rg_Prefix req) = None
    then EAddPrefix (rg_Prefix req) TypeRoundRobin [rg_LocalAddr req] (rg_Static req)
    else EAddHost (rg_Prefix req) (rg_LocalAddr req)"
  have run: "register_host env mode req ctx = go_bind (on_proxy (rg_Port req) (edit_apply ?e) ctx) (\<lambda>ctx2. Inr (None, ctx2))"
    unfolding register_host_modes[OF assms(1)]
    unfolding register_host_def prefix_exists_view[OF assms(2,3)] proxy_ops_are_edits
    using assms(4) by simp
  have "rr_edit ?e" by (simp add: TypeRoundRobin_def TypeConsistenceHash_def)
  moreover obtain v' where v': "view_edit ?e v = Some v'" "v_hosts v' = (v_hosts v)(rg_Prefix req \<mapsto> registered req v)"
    by (cases "v_hosts v (rg_Prefix req)") (simp_all add: registered_def)
  ultimately obtain px' where
    "on_proxy (rg_Port req) (edit_apply ?e) ctx = Inr (ctx\<lparr>sc_List := (sc_List ctx)(rg_Port req \<mapsto> px')\<rparr>)" "shows_view px' v'"
    using edit_done[OF assms(2,3), of ?e] by (auto simp: event_done_def)
  with run v'(2) show ?thesis by auto
qed

lemma register_shows:
  assumes "commits env mode" "sc_mu ctx = unlocked" "port_shows ctx (rg_Port req) v" "rg_BalanceMode req = TypeRoundRobin"
  shows "\<exists>ctx' px' v'. RegisterToProxy env mode req ctx = Inr (Success_Res, ctx') \<and>
    sc_List ctx' (rg_Port req) = Some px' \<and> shows_view px' v' \<and>
    v_hosts v' = (v_hosts v)(rg_Prefix req \<mapsto> registered req v) \<and>
    (\<forall>q. q \<noteq> rg_Port req \<longrightarrow> sc_List ctx' q = sc_List ctx q)"
proof -
  from ensure_proxy_ok[OF assms(1-3)] obtain ctx1 px where
    1: "ensure_proxy env mode (rg_Port req) ctx = Inr (True, ctx1)" "sc_List ctx1 (rg_Port req) = Some px" "shows_view px v"
    "\<forall>q. q \<noteq> rg_Port req \<longrightarrow> sc_List ctx1 q = sc_List ctx q" by blast
  from register_host_view[OF assms(1) 1(2,3) assms(4)] obtain px' v' where
    2: "register_host env mode req ctx1 = Inr (None, ctx1\<lparr>sc_List := (sc_List ctx1)(rg_Port req \<mapsto> px')\<rparr>)" "shows_view px' v'"
    "v_hosts v' = (v_hosts v)(rg_Prefix req \<mapsto> registered req v)" by blast
  with 1 show ?thesis
    by (intro exI[of _ "ctx1\<lparr>sc_List := (sc_List ctx1)(rg_Port req \<mapsto> px')\<rparr>"] exI[of _ px'] exI[of _ v'])
      (simp add: RegisterToProxy_def)
qed

lemma rpc_LoadBalance_single:
  assumes "sc_List ctx port = Some px" "shows_view px v" "v_hosts v p = Some [addr]"
  shows "\<exists>ctx'. rpc_LoadBalance \<lparr>lq_Port = port, lq_Prefix = p, lq_Fact = url\<rparr> ctx =
    Inr (\<lparr>res_Message = addr, res_error = False\<rparr>, ctx')"
proof -
  from shows_view_balancer[OF assms(2,3)] obtain r where
    r: "hp_Mapping (px_prefixMapping px) p = Some (RR r)" "rr_mu r = unlocked" "rr_hosts r = [addr]" .
  from rr_Balance_step[OF r(2), of url None] r(3) have
    "rr_Balance r url None = Inr (Inr addr, r\<lparr>rr_idx := rr_idx r + 1\<rparr>)" by simp
  then show ?thesis
    using r(1) shows_viewD(1,2)[OF assms(2)] by (simp add: rpc_LoadBalance_def LoadBalance_def hp_GetBalancer_def assms(1))
qed

text \<open>
  C21: a service that registers with the algorithm round-robin, in stand mode or in a cluster that commits, on a
  port that has no proxy yet or one whose prefixes are round-robin, is told \<open>success\<close>; afterwards the port has a
  proxy, made if it was missing, whose prefix has the hosts it had and, once, the address of the service; no
  other port changes. The first service of a prefix is what \<open>LoadBalance\<close> answers then.
\<close>

theorem registered_service_is_balanced:
  assumes "commits env mode" "sc_mu ctx = unlocked" "port_shows ctx (rg_Port req) v" "rg_BalanceMode req = TypeRoundRobin"
  shows "\<exists>ctx' px' v'. RegisterToProxy env mode req ctx = Inr (Success_Res, ctx') \<and>
    sc_List ctx' (rg_Port req) = Some px' \<and> shows_view px' v' \<and>
    v_hosts v' = (v_hosts v)(rg_Prefix req \<mapsto> registered req v) \<and>
    (\<forall>q. q \<noteq> rg_Port req \<longrightarrow> sc_List ctx' q = sc_List ctx q) \<and>
    (v_hosts v (rg_Prefix req) = None \<longrightarrow>
      (\<forall>fact. \<exists>ctx''. rpc_LoadBalance \<lparr>lq_Port = rg_Port req, lq_Prefix = rg_Prefix req, lq_Fact = fact\<rparr> ctx' =
        Inr (\<lparr>res_Message = rg_LocalAddr req, res_error = False\<rparr>, ctx'')))"
proof -
  from register_shows[OF assms] obtain ctx' px' v' where
    *: "RegisterToProxy env mode req ctx = Inr (Success_Res, ctx')" "sc_List ctx' (rg_Port req) = Some px'" "shows_view px' v'"
    "v_hosts v' = (v_hosts v)(rg_Prefix req \<mapsto> registered req v)" "\<forall>q. q \<noteq> rg_Port req \<longrightarrow> sc_List ctx' q = sc_List ctx q"
    by blast
  have "v_hosts v (rg_Prefix req) = None \<longrightarrow> v_hosts v' (rg_Prefix req) = Some [rg_LocalAddr req]"
    by (simp add: *(4) registered_def)
  with rpc_LoadBalance_single[OF *(2,3)] * show ?thesis
    by (intro exI[of _ ctx'] exI[of _ px'] exI[of _ v']) (simp del: fun_upd_apply)
qed

definition example_register :: RegisterToProxyReq where
  "example_register = \<lparr>rg_Port = 9000, rg_Prefix = ''/api'', rg_LocalAddr = ''10.0.0.1:80'', rg_BalanceMode = ''round-robin'',
     rg_Static = False\<rparr>"

lemma example_register_simps [simp]:
  "rg_Port example_register = 9000" "rg_Prefix example_register = ''/api''" "rg_LocalAddr example_register = ''10.0.0.1:80''"
  "rg_BalanceMode example_register = TypeRoundRobin"
  by (simp_all add: example_register_def TypeRoundRobin_def)

lemma example_commits: "commits (example_env RaftApplied) Cluster"
  by (simp add: commits_def example_gob_ok)

lemma example_registered:
  "\<exists>ctx px v. RegisterToProxy (example_env RaftApplied) Cluster example_register NewStateContext = Inr (Success_Res, ctx) \<and>
    sc_List ctx 9000 = Some px \<and> shows_view px v \<and> v_hosts v ''/api'' = Some [''10.0.0.1:80'']"
proof -
  have "sc_mu (NewStateContext :: bucket StateContext) = unlocked"
    "port_shows (NewStateContext :: bucket StateContext) (rg_Port example_register) new_view"
    by (simp_all add: NewStateContext_def port_shows_def)
  from register_shows[OF example_commits this] obtain ctx px v where
    "RegisterToProxy (example_env RaftApplied) Cluster example_register NewStateContext = Inr (Success_Res, ctx)"
    "sc_List ctx 9000 = Some px" "shows_view px v" "v_hosts v = [''/api'' \<mapsto> registered example_register new_view]"
    by (auto simp: new_view_def)
  then show ?thesis
    by (intro exI[of _ ctx] exI[of _ px] exI[of _ v]) (simp add: registered_def new_view_def)
qed

theorem registered_service_is_balanced_witness:
  "\<exists>ctx' ctx''. RegisterToProxy (example_env RaftApplied) Cluster example_register NewStateContext = Inr (Success_Res, ctx') \<and>
    rpc_LoadBalance \<lparr>lq_Port = 9000, lq_Prefix = ''/api'', lq_Fact = ''''\<rparr> ctx' =
      Inr (\<lparr>res_Message = ''10.0.0.1:80'', res_error = False\<rparr>, ctx'')"
proof -
  have "sc_mu (NewStateContext :: bucket StateContext) = unlocked"
    "port_shows (NewStateContext :: bucket StateContext) (rg_Port example_register) new_view"
    by (simp_all add: NewStateContext_def port_shows_def)
  from registered_service_is_balanced[OF example_commits this] show ?thesis by (auto simp: new_view_def)
qed

section \<open>What cancelling does\<close>

text \<open>The guard of \<open>removeHttpProxyHost\<close> refuses an address that is there.\<close>

lemma cancel_refused:
  assumes "commits env mode" "sc_List ctx (cn_Port req) = Some px" "shows_view px v" "v_hosts v (cn_Prefix req) = Some hs"
    "cn_LocalAddr req \<in> set hs"
  shows "rpc_Cancel env mode req ctx = Inr (failed_Res, ctx)"
proof -
  let ?b = "\<lparr>hph_Port = cn_Port req, hph_Prefix = cn_Prefix req, hph_Host = cn_LocalAddr req\<rparr>"
  have "removeHttpProxyHost env mode ?b ctx = removeHttpProxyHost env Stand ?b ctx"
    using commits_stand[OF assms(1), of "CRemoveHost ?b"] by simp
  also have "\<dots> = Inr (Some HostNotExists, ctx)"
    using assms(2,4,5) by (simp add: removeHttpProxyHost_def HostExists_def map_get_def shows_view_Paths[OF assms(3)])
  finally show ?thesis by (simp add: rpc_Cancel_def)
qed

text \<open>
  A service that is registered cannot cancel: it is told \<open>failed\<close> and its address stays. Cancelling an
  address that is not there is told \<open>success\<close> and, when the prefix has no host at all, takes the prefix
  away; on an unknown prefix the call panics.
\<close>

theorem registered_service_cannot_cancel:
  assumes "commits env mode" "sc_List ctx (cn_Port req) = Some px" "shows_view px v"
  shows "case v_hosts v (cn_Prefix req) of
      None \<Rightarrow> rpc_Cancel env mode req ctx = Inl NilDeref
    | Some hs \<Rightarrow>
        if cn_LocalAddr req \<in> set hs then rpc_Cancel env mode req ctx = Inr (failed_Res, ctx)
        else if hs \<noteq> [] then rpc_Cancel env mode req ctx = Inr (Success_Res, ctx)
        else \<exists>px'. rpc_Cancel env mode req ctx = Inr (Success_Res, ctx\<lparr>sc_List := (sc_List ctx)(cn_Port req \<mapsto> px')\<rparr>) \<and>
          shows_view px' (v\<lparr>v_hosts := (v_hosts v)(cn_Prefix req := None)\<rparr>)"
proof -
  let ?b = "\<lparr>hph_Port = cn_Port req, hph_Prefix = cn_Prefix req, hph_Host = cn_LocalAddr req\<rparr>"
  have mode: "removeHttpProxyHost env mode ?b ctx = removeHttpProxyHost env Stand ?b ctx"
    using commits_stand[OF assms(1), of "CRemoveHost ?b"] by simp
  have exist: "HostExists (cn_Prefix req) (cn_LocalAddr req) px =
    (cn_LocalAddr req \<in> set (map_get [] (v_hosts v) (cn_Prefix req)))"
    by (simp add: HostExists_def map_get_def shows_view_Paths[OF assms(3)])
  show ?thesis
  proof (cases "v_hosts v (cn_Prefix req)")
    case None
    with RemoveHost_simulates[OF assms(3), of "cn_Prefix req" "cn_LocalAddr req"]
    have "removeHttpProxyHost env mode ?b ctx = Inl NilDeref"
      unfolding mode by (simp add: removeHttpProxyHost_def assms(2) exist map_get_def on_proxy_def)
    with None show ?thesis by (simp add: rpc_Cancel_def)
  next
    case (Some hs)
    show ?thesis
    proof (cases "cn_LocalAddr req \<in> set hs")
      case True
      with Some cancel_refused[OF assms Some True] show ?thesis by simp
    next
      case False
      with RemoveHost_absent[OF assms(3) Some, of "cn_LocalAddr req"] same_proxy[OF assms(2)]
      have rm: "removeHttpProxyHost env mode ?b ctx = Inr (None, ctx)"
        unfolding mode by (simp add: removeHttpProxyHost_def assms(2) exist map_get_def Some on_proxy_def)
      let ?p = "\<lparr>rpp_Port = cn_Port req, rpp_Prefix = cn_Prefix req\<rparr>"
      have cancel: "rpc_Cancel env mode req ctx = (if hs = []
          then go_bind (removeHttpProxyPrefix env mode ?p ctx)
            (\<lambda>(err, ctx3). Inr (case err of None \<Rightarrow> Success_Res | Some _ \<Rightarrow> failed_Res, ctx3))
          else Inr (Success_Res, ctx))"
        using same_proxy[OF assms(2)] by (simp add: rpc_Cancel_def rm assms(2) GetHosts_view[OF assms(3)] map_get_def Some Let_def)
      have pmode: "removeHttpProxyPrefix env mode ?p ctx = removeHttpProxyPrefix env Stand ?p ctx"
        using commits_stand[OF assms(1), of "CRemovePrefix ?p"] by simp
      have prefix: "removeHttpProxyPrefix env mode ?p ctx =
        go_bind (on_proxy (cn_Port req) (edit_apply (ERemovePrefix (cn_Prefix req))) ctx) (\<lambda>ctx'. Inr (None, ctx'))"
        unfolding pmode proxy_ops_are_edits[symmetric]
        by (simp add: removeHttpProxyPrefix_def assms(2) PrefixExists_def shows_view_Paths[OF assms(3)] Some)
      from edit_done[OF assms(2,3), of "ERemovePrefix (cn_Prefix req)"] obtain px' where
        "on_proxy (cn_Port req) (edit_apply (ERemovePrefix (cn_Prefix req))) ctx =
          Inr (ctx\<lparr>sc_List := (sc_List ctx)(cn_Port req \<mapsto> px')\<rparr>)"
        "shows_view px' (v\<lparr>v_hosts := (v_hosts v)(cn_Prefix req := None)\<rparr>)" by (auto simp: event_done_def)
      with Some False show ?thesis by (auto simp: cancel prefix)
    qed
  qed
qed

theorem registered_service_cannot_cancel_witness:
  "\<exists>ctx. RegisterToProxy (example_env RaftApplied) Cluster example_register NewStateContext = Inr (Success_Res, ctx) \<and>
    rpc_Cancel (example_env RaftApplied) Cluster \<lparr>cn_Port = 9000, cn_Prefix = ''/api'', cn_LocalAddr = ''10.0.0.1:80''\<rparr> ctx =
      Inr (failed_Res, ctx)"
proof -
  from example_registered obtain ctx and px :: "bucket HttpReverseProxy" and v where
    reg: "RegisterToProxy (example_env RaftApplied) Cluster example_register NewStateContext = Inr (Success_Res, ctx)"
    "sc_List ctx 9000 = Some px" "shows_view px v" "v_hosts v ''/api'' = Some [''10.0.0.1:80'']" by blast
  from registered_service_cannot_cancel[OF example_commits, of ctx
      "\<lparr>cn_Port = 9000, cn_Prefix = ''/api'', cn_LocalAddr = ''10.0.0.1:80''\<rparr>" px v] reg(2-4)
  have "rpc_Cancel (example_env RaftApplied) Cluster \<lparr>cn_Port = 9000, cn_Prefix = ''/api'', cn_LocalAddr = ''10.0.0.1:80''\<rparr> ctx =
      Inr (failed_Res, ctx)" by simp
  with reg(1) show ?thesis by blast
qed

end
