(* ===== verification/StateSnapshot.thy ===== *)
theory StateSnapshot
  imports Replicas
begin

text \<open>
  Snapshots of the state: \<open>Marshal\<close>, \<open>Persist\<close> and \<open>Restore\<close> of \<open>src/vermouth/context.go\<close> for
  raft, and \<open>snap\<close> and \<open>restoreFromSnap\<close> of \<open>start.go\<close> for stand mode; \<open>Run\<close>, \<open>buildDiscovery\<close> and
  \<open>startDiscovery\<close>, which a start goes through.

  The JSON library is an argument. It writes the exported fields as members of objects, the keys of a
  Go map in any order: a \<open>doc\<close> is what is written, in the order it is written. What the library reads
  back into a proxy lacks the fields that are not exported: no channel, no prefixer, no limiters, and an
  access control list without root (\<open>Add_unrooted\<close>), of which only \<open>Record\<close> is kept.
\<close>

section \<open>Documents\<close>

record proxy_doc =
  pd_Port :: int
  pd_PrefixerType :: string
  pd_Paths :: "(string \<times> string list) list"
  pd_BalancerType :: "(string \<times> string) list"
  pd_RateLimiterType :: "(string \<times> LimiterInfo list) list"
  pd_StaticMapping :: "(string \<times> bool) list"
  pd_record :: "(string \<times> bool) list"
  pd_Available :: bool

type_synonym doc = "(int \<times> proxy_doc) list"

record json =
  js_write :: "doc \<Rightarrow> bytes option"
  js_read :: "bytes \<Rightarrow> doc option"

text \<open>A document can be written, and is read back as it was written.\<close>

definition json_ok :: "json \<Rightarrow> bool" where
  "json_ok js \<longleftrightarrow> (\<forall>d. \<exists>bs. js_write js d = Some bs \<and> js_read js bs = Some d)"

text \<open>The orders in which the keys of the maps of one proxy are visited.\<close>

record key_orders =
  ko_Paths :: "string list"
  ko_BalancerType :: "string list"
  ko_RateLimiterType :: "string list"
  ko_StaticMapping :: "string list"
  ko_record :: "string list"

definition members :: "'k list \<Rightarrow> ('k \<Rightarrow> 'v option) \<Rightarrow> ('k \<times> 'v) list" where
  "members ks m = List.map_filter (\<lambda>k. map_option (Pair k) (m k)) ks"

definition proxy_to_doc :: "key_orders \<Rightarrow> 'l HttpReverseProxy \<Rightarrow> proxy_doc" where
  "proxy_to_doc ko px = \<lparr>pd_Port = px_Port px, pd_PrefixerType = px_PrefixerType px,
     pd_Paths = members (ko_Paths ko) (px_Paths px),
     pd_BalancerType = members (ko_BalancerType ko) (px_BalancerType px),
     pd_RateLimiterType = members (ko_RateLimiterType ko) (px_RateLimiterType px),
     pd_StaticMapping = members (ko_StaticMapping ko) (px_StaticMapping px),
     pd_record = members (ko_record ko) (t_Record (px_Acl px)), pd_Available = px_Available px\<rparr>"

definition ctx_to_doc :: "int list \<Rightarrow> (int \<Rightarrow> key_orders) \<Rightarrow> 'l StateContext \<Rightarrow> doc" where
  "ctx_to_doc ports kos ctx = members ports (\<lambda>port. map_option (proxy_to_doc (kos port)) (sc_List ctx port))"

definition doc_to_proxy :: "proxy_doc \<Rightarrow> 'l HttpReverseProxy" where
  "doc_to_proxy d = \<lparr>px_mu = unlocked, px_Port = pd_Port d, px_PrefixerType = pd_PrefixerType d,
     px_Paths = map_of (pd_Paths d), px_BalancerType = map_of (pd_BalancerType d),
     px_RateLimiterType = map_of (pd_RateLimiterType d), px_StaticMapping = map_of (pd_StaticMapping d),
     px_Acl = NewRadixTree\<lparr>t_Record := map_of (pd_record d)\<rparr>, px_Available = pd_Available d,
     px_rateLimiters = (\<lambda>_. None), px_prefixMapping = NewHashPrefixer, px_Shutdown = False, px_serving = False\<rparr>"

section \<open>Writing\<close>

definition Marshal ::
  "json \<Rightarrow> int list \<Rightarrow> (int \<Rightarrow> key_orders) \<Rightarrow> 'l StateContext \<Rightarrow> bytes option" where
  "Marshal js ports kos ctx = js_write js (ctx_to_doc ports kos ctx)"

text \<open>The sink of a raft snapshot: which of its operations fail is an argument.\<close>

datatype sink_call = SinkWrite bytes | SinkClose | SinkCancel

definition Persist ::
  "json \<Rightarrow> int list \<Rightarrow> (int \<Rightarrow> key_orders) \<Rightarrow> bool \<Rightarrow> bool \<Rightarrow> 'l StateContext \<Rightarrow> bool \<times> sink_call list" where
  "Persist js ports kos write_ok close_ok ctx =
     (case Marshal js ports kos ctx of
        None \<Rightarrow> (False, [SinkCancel])
      | Some snapshotBytes \<Rightarrow>
          if \<not> write_ok then (False, [SinkWrite snapshotBytes, SinkCancel])
          else if \<not> close_ok then (False, [SinkWrite snapshotBytes, SinkClose, SinkCancel])
          else (True, [SinkWrite snapshotBytes, SinkClose]))"

text \<open>
  The timer of \<open>snap\<close>: it makes the file when there is none, opens it for writing, which empties it, and
  writes into it. The result is the content of the file.
\<close>

definition snap_once ::
  "json \<Rightarrow> int list \<Rightarrow> (int \<Rightarrow> key_orders) \<Rightarrow> bool \<Rightarrow> bool \<Rightarrow> 'l StateContext \<Rightarrow> bytes option \<Rightarrow> bytes option" where
  "snap_once js ports kos create_ok open_ok ctx file =
     (let file1 = (case file of None \<Rightarrow> if create_ok then Some [] else None | Some bs \<Rightarrow> Some bs)
      in if \<not> open_ok \<or> file1 = None then file1
         else case Marshal js ports kos ctx of None \<Rightarrow> Some [] | Some bs \<Rightarrow> Some bs)"

section \<open>Reading\<close>

text \<open>Decoding into a context that is there: the ports of the document get new proxies, the others stay.\<close>

definition UnMarshal :: "json \<Rightarrow> bytes \<Rightarrow> 'l StateContext \<Rightarrow> (doc \<times> 'l StateContext) option" where
  "UnMarshal js serialized ctx =
     map_option (\<lambda>d. (d, ctx\<lparr>sc_List := sc_List ctx ++ map_of (map (\<lambda>(port, p). (port, doc_to_proxy p)) d)\<rparr>))
       (js_read js serialized)"

text \<open>A range over \<open>HttpReverseProxyList\<close>: the body changes the proxies it points to.\<close>

definition each_proxy ::
  "(int \<Rightarrow> 'l HttpReverseProxy \<Rightarrow> 'l HttpReverseProxy go) \<Rightarrow> int list \<Rightarrow> 'l StateContext \<Rightarrow> 'l StateContext go" where
  "each_proxy body = go_fold (\<lambda>port ctx.
     case sc_List ctx port of
       None \<Rightarrow> Inr ctx
     | Some hp \<Rightarrow> go_bind (body port hp) (\<lambda>hp'. Inr (ctx\<lparr>sc_List := (sc_List ctx)(port \<mapsto> hp')\<rparr>)))"

text \<open>\<open>Restore\<close> of one proxy; its error is only logged.\<close>

definition restore_logged :: "('l, 'f) env \<Rightarrow> key_orders \<Rightarrow> 'l HttpReverseProxy \<Rightarrow> 'l HttpReverseProxy go" where
  "restore_logged env ko hp =
     go_bind (Restore (env_rate env) (ko_Paths ko) (ko_record ko) (ko_RateLimiterType ko) hp) (\<lambda>(err, hp'). Inr hp')"

definition restoreFromSnap ::
  "json \<Rightarrow> ('l, 'f) env \<Rightarrow> int list \<Rightarrow> (int \<Rightarrow> key_orders) \<Rightarrow> bytes option \<Rightarrow> 'l StateContext \<Rightarrow> 'l StateContext go" where
  "restoreFromSnap js env ports kos file ctx =
     (case file of
        None \<Rightarrow> Inr ctx
      | Some bs \<Rightarrow>
          (case UnMarshal js bs ctx of
             None \<Rightarrow> Inr ctx
           | Some (d, ctx1) \<Rightarrow> each_proxy (\<lambda>port. restore_logged env (kos port)) ports ctx1))"

text \<open>
  \<open>Add\<close> on the tree that was read: a text it accepts is inserted, and the insertion uses the nil root,
  also for a network of length 0.
\<close>

definition Add_unrooted :: "string \<Rightarrow> acl_error option go" where
  "Add_unrooted ipNet =
     (let strs = Split CHR ''/'' ipNet in
      go_bind (InetToi (strs ! 0)) (\<lambda>r.
        case r of
          None \<Rightarrow> Inr (Some InvaildIpAddress)
        | Some ip \<Rightarrow>
            (if length strs < 2 then Inr (Some InvaildIpAddress)
             else case Atoi (strs ! 1) of
               None \<Rightarrow> Inr (Some AtoiError)
             | Some cidr \<Rightarrow> if cidr < 0 \<or> cidr > 32 then Inr (Some InvaildNetMask) else Inl NilDeref)))"

text \<open>The records go into the list of the proxy again before the proxy is restored.\<close>

definition readd_records ::
  "bool \<Rightarrow> string list \<Rightarrow> 'l HttpReverseProxy \<Rightarrow> 'l HttpReverseProxy go" where
  "readd_records decoded_now ips hp =
     (if decoded_now then go_fold (\<lambda>k px. go_bind (Add_unrooted k) (\<lambda>_. Inr px)) ips hp
      else go_bind (acl_add_all ips (px_Acl hp)) (\<lambda>t. Inr (hp\<lparr>px_Acl := t\<rparr>)))"

definition restore_and_start ::
  "('l, 'f) env \<Rightarrow> bool \<Rightarrow> key_orders \<Rightarrow> 'l HttpReverseProxy \<Rightarrow> 'l HttpReverseProxy go" where
  "restore_and_start env decoded_now ko hp =
     go_bind (readd_records decoded_now (ko_record ko) hp) (\<lambda>hp1.
     go_bind (Restore (env_rate env) (ko_Paths ko) (ko_record ko) (ko_RateLimiterType ko) hp1) (\<lambda>(err, hp2).
       case err of Some _ \<Rightarrow> Inr hp2 | None \<Rightarrow> px_Start hp2))"

definition ctx_Restore ::
  "json \<Rightarrow> ('l, 'f) env \<Rightarrow> int list \<Rightarrow> (int \<Rightarrow> key_orders) \<Rightarrow> bytes \<Rightarrow> 'l StateContext \<Rightarrow> 'l handled" where
  "ctx_Restore js env ports kos serialized ctx =
     (case UnMarshal js serialized ctx of
        None \<Rightarrow> Inr (Some UnMarshalError, ctx)
      | Some (d, ctx1) \<Rightarrow>
          go_bind (each_proxy (\<lambda>port. restore_and_start env (port \<in> fst ` set d) (kos port)) ports ctx1) (\<lambda>ctx2.
            Inr (None, ctx2)))"

section \<open>Starting\<close>

text \<open>\<open>Run\<close> waits for all proxies of the table; each is run by a goroutine of its own.\<close>

definition ctx_Run :: "('l, 'f) env \<Rightarrow> int list \<Rightarrow> 'l StateContext \<Rightarrow> 'l StateContext go" where
  "ctx_Run env = each_proxy (\<lambda>port hp. go_bind (px_Run (env_listen env (px_Port hp)) hp) (\<lambda>(failed, hp'). Inr hp'))"

text \<open>A namespace that cannot be built is skipped; a nil discovery is stored.\<close>

definition build_one :: "(string list \<Rightarrow> int \<Rightarrow> bool) \<Rightarrow> DiscoveryArgs \<Rightarrow> 'l StateContext \<Rightarrow> 'l StateContext" where
  "build_one connect dis ctx =
     (case Discovery_Build connect (dc_Namespace dis) dis of
        Inl _ \<Rightarrow> ctx
      | Inr server \<Rightarrow> ctx\<lparr>sc_discoverNotify := (sc_discoverNotify ctx)(dc_Port dis := True),
          sc_discoveryMap := (sc_discoveryMap ctx)(dc_Port dis \<mapsto> server)\<rparr>)"

definition buildDiscovery ::
  "(string list \<Rightarrow> int \<Rightarrow> bool) \<Rightarrow> DiscoveryArgs list \<Rightarrow> 'l StateContext \<Rightarrow> 'l StateContext" where
  "buildDiscovery connect args ctx = foldl (\<lambda>c dis. build_one connect dis c) ctx args"

text \<open>
  The result lists the service loops and the event loops that are started, one per entry. A loop of a nil
  discovery panics in its goroutine.
\<close>

definition startDiscovery :: "int list \<Rightarrow> 'l StateContext \<Rightarrow> (int list \<times> int list) go" where
  "startDiscovery ports ctx =
     (if \<exists>port \<in> set ports. sc_discoveryMap ctx port = Some None then Inl NilDeref
      else Inr (filter (\<lambda>p. sc_discoveryMap ctx p \<noteq> None) ports, filter (sc_discoverNotify ctx) ports))"

section \<open>What comes back\<close>

lemma map_of_members:
  assumes "distinct ks" "set ks = dom m"
  shows "map_of (members ks m) = m"
proof -
  have "map_of (members ks m) k = (if k \<in> set ks then m k else None)" for k ks
    by (induction ks) (auto simp: members_def List.map_filter_def split: option.splits)
  with assms(2) show ?thesis by (auto simp: fun_eq_iff domIff)
qed

definition keys_ok :: "key_orders \<Rightarrow> 'l HttpReverseProxy \<Rightarrow> bool" where
  "keys_ok ko px \<longleftrightarrow>
     distinct (ko_Paths ko) \<and> set (ko_Paths ko) = dom (px_Paths px) \<and>
     distinct (ko_BalancerType ko) \<and> set (ko_BalancerType ko) = dom (px_BalancerType px) \<and>
     distinct (ko_RateLimiterType ko) \<and> set (ko_RateLimiterType ko) = dom (px_RateLimiterType px) \<and>
     distinct (ko_StaticMapping ko) \<and> set (ko_StaticMapping ko) = dom (px_StaticMapping px) \<and>
     distinct (ko_record ko) \<and> set (ko_record ko) = dom (t_Record (px_Acl px))"

lemma doc_round_trip:
  assumes "keys_ok ko px"
  shows "doc_to_proxy (proxy_to_doc ko px) = px\<lparr>px_mu := unlocked, px_Acl := NewRadixTree\<lparr>t_Record := t_Record (px_Acl px)\<rparr>,
    px_rateLimiters := (\<lambda>_. None), px_prefixMapping := NewHashPrefixer, px_Shutdown := False, px_serving := False\<rparr>"
  using assms by (cases px) (simp add: doc_to_proxy_def proxy_to_doc_def keys_ok_def map_of_members)

lemma ctx_round_trip:
  assumes "distinct ports" "set ports = dom (sc_List ctx)"
  shows "map_of (map (\<lambda>(port, p). (port, doc_to_proxy p)) (ctx_to_doc ports kos ctx)) =
    (\<lambda>port. map_option (\<lambda>px. doc_to_proxy (proxy_to_doc (kos port) px)) (sc_List ctx port))"
    "fst ` set (ctx_to_doc ports kos ctx) = dom (sc_List ctx)"
proof -
  let ?m = "\<lambda>port. map_option (proxy_to_doc (kos port)) (sc_List ctx port)"
  have "dom ?m = dom (sc_List ctx)" by auto
  with map_of_members[OF assms(1), of ?m] assms(2) have doc: "map_of (ctx_to_doc ports kos ctx) = ?m"
    by (simp add: ctx_to_doc_def)
  show "map_of (map (\<lambda>(port, p). (port, doc_to_proxy p)) (ctx_to_doc ports kos ctx)) =
    (\<lambda>port. map_option (\<lambda>px. doc_to_proxy (proxy_to_doc (kos port) px)) (sc_List ctx port))"
    by (simp add: map_of_map doc fun_eq_iff option.map_comp comp_def)
  have "fst ` set (ctx_to_doc ports kos ctx) = dom (map_of (ctx_to_doc ports kos ctx))"
    by (simp add: dom_map_of_conv_image_fst)
  then show "fst ` set (ctx_to_doc ports kos ctx) = dom (sc_List ctx)" by (simp add: doc dom_def)
qed

text \<open>A range whose bodies return changes each proxy once.\<close>

lemma each_proxy_all:
  assumes "distinct ports" "\<And>port hp. port \<in> set ports \<Longrightarrow> sc_List ctx port = Some hp \<Longrightarrow> \<exists>hp'. body port hp = Inr hp' \<and> P port hp hp'"
  shows "\<exists>ctx'. each_proxy body ports ctx = Inr ctx' \<and> (\<forall>port. port \<notin> set ports \<longrightarrow> sc_List ctx' port = sc_List ctx port) \<and>
    (\<forall>port \<in> set ports. rel_option (P port) (sc_List ctx port) (sc_List ctx' port))"
  using assms
proof (induction ports arbitrary: ctx)
  case Nil
  then show ?case by (simp add: each_proxy_def)
next
  case (Cons p ports)
  show ?case
  proof (cases "sc_List ctx p")
    case None
    from Cons.IH[of ctx] Cons.prems obtain ctx' where
      "each_proxy body ports ctx = Inr ctx'" "\<forall>port. port \<notin> set ports \<longrightarrow> sc_List ctx' port = sc_List ctx port"
      "\<forall>port \<in> set ports. rel_option (P port) (sc_List ctx port) (sc_List ctx' port)" by auto
    with None Cons.prems(1) show ?thesis by (intro exI[of _ ctx']) (auto simp: each_proxy_def)
  next
    case (Some hp)
    with Cons.prems(2)[of p] obtain hp' where hp': "body p hp = Inr hp'" "P p hp hp'" by auto
    let ?ctx = "ctx\<lparr>sc_List := (sc_List ctx)(p \<mapsto> hp')\<rparr>"
    have "\<exists>h'. body q h = Inr h' \<and> P q h h'" if "q \<in> set ports" "sc_List ?ctx q = Some h" for q h
      using that Cons.prems by (cases "q = p") auto
    with Cons.IH[of ?ctx] Cons.prems(1) obtain ctx' where
      ctx': "each_proxy body ports ?ctx = Inr ctx'" "\<forall>port. port \<notin> set ports \<longrightarrow> sc_List ctx' port = sc_List ?ctx port"
      and rel: "\<forall>port \<in> set ports. rel_option (P port) (sc_List ?ctx port) (sc_List ctx' port)" by auto
    have "rel_option (P port) (sc_List ctx port) (sc_List ctx' port)" if "port \<in> set ports" for port
      using rel[rule_format, OF that] that Cons.prems(1) by (auto split: if_splits)
    with Some hp' Cons.prems(1) ctx' show ?thesis by (intro exI[of _ ctx']) (auto simp: each_proxy_def)
  qed
qed

text \<open>A range one body of which fails, while every body returns or fails in the same way, fails in that way.\<close>

lemma each_proxy_fails:
  assumes "distinct ports" "port \<in> set ports" "sc_List ctx port = Some hp" "body port hp = Inl e"
    "\<And>q h. q \<in> set ports \<Longrightarrow> sc_List ctx q = Some h \<Longrightarrow> body q h = Inl e \<or> (\<exists>h'. body q h = Inr h')"
  shows "each_proxy body ports ctx = Inl e"
  using assms
proof (induction ports arbitrary: ctx)
  case (Cons p ports)
  show ?case
  proof (cases "sc_List ctx p")
    case None
    with Cons.prems have "port \<in> set ports" by auto
    with Cons None show ?thesis by (simp add: each_proxy_def)
  next
    case (Some h)
    show ?thesis
    proof (cases "body p h")
      case (Inl e')
      with Cons.prems(5)[of p h] Some have "e' = e" by auto
      with Inl Some show ?thesis by (simp add: each_proxy_def)
    next
      case (Inr h')
      with Some Cons.prems(2-4) have port: "port \<in> set ports" by auto
      let ?ctx = "ctx\<lparr>sc_List := (sc_List ctx)(p \<mapsto> h')\<rparr>"
      have "body q h = Inl e \<or> (\<exists>h'. body q h = Inr h')" if "q \<in> set ports" "sc_List ?ctx q = Some h" for q h
        using that Cons.prems(1,5) by (cases "q = p") auto
      moreover have "sc_List ?ctx port = Some hp" using port Cons.prems(1,3) by auto
      ultimately have "each_proxy body ports ?ctx = Inl e"
        using Cons.IH[of ?ctx] port Cons.prems(1,4) by auto
      with Some Inr show ?thesis by (simp add: each_proxy_def)
    qed
  qed
qed simp

section \<open>One proxy\<close>

lemma go_fold_keeps:
  assumes "\<And>x s s'. f x s = Inr s' \<Longrightarrow> g s' = g s" "go_fold f xs s = Inr s'"
  shows "g s' = g s"
  using assms(2) by (induction xs arbitrary: s) (auto simp: go_bind_eq_Inr_iff dest: assms(1))

definition identity_of :: "'l HttpReverseProxy \<Rightarrow> int \<times> string \<times> bool \<times> bool" where
  "identity_of px = (px_Port px, px_PrefixerType px, px_Available px, px_Shutdown px)"

lemma Restore_identity:
  assumes "Restore lib pks ips rks px = Inr (e, px')"
  shows "identity_of px' = identity_of px"
proof (cases "Prefixer_Build (px_PrefixerType px)")
  case (Inl e)
  with assms show ?thesis by (simp add: Restore_def)
next
  case (Inr p)
  let ?px1 = "px\<lparr>px_prefixMapping := p, px_Paths := (\<lambda>_. None)\<rparr>"
  from assms Inr obtain px2 t where
    px2: "go_fold (restore_prefix (px_Paths px)) pks ?px1 = Inr px2"
    and px': "go_fold (restore_limiters lib) rks (px2\<lparr>px_Acl := t, px_rateLimiters := (\<lambda>_. None)\<rparr>) = Inr px'"
    by (auto simp: Restore_def go_bind_eq_Inr_iff Let_def)
  have "identity_of px2 = identity_of ?px1"
    by (rule go_fold_keeps[OF _ px2])
      (auto simp: restore_prefix_def AddPrefix_eq go_bind_eq_Inr_iff identity_of_def split: if_splits)
  moreover have create: "identity_of b = identity_of a"
    if "createRateLimiter lib p u ty i s a = Inr (e, b)" for p u ty i s e and a b :: "'a HttpReverseProxy"
    using that by (cases "Limiter_Build lib ty") (auto simp: createRateLimiter_def go_bind_eq_Inr_iff Let_def identity_of_def)
  have "identity_of px' = identity_of (px2\<lparr>px_Acl := t, px_rateLimiters := (\<lambda>_. None)\<rparr>)"
  proof (rule go_fold_keeps[OF _ px'])
    fix x and s s' :: "'a HttpReverseProxy" assume "restore_limiters lib x s = Inr s'"
    then show "identity_of s' = identity_of s"
      unfolding restore_limiters_def by (rule go_fold_keeps[rotated]) (auto simp: go_bind_eq_Inr_iff dest: create)
  qed
  ultimately show ?thesis by (simp add: identity_of_def)
qed

lemma Restore_ignores_mapping:
  "px_PrefixerType px = TypeHashPrefixer \<Longrightarrow>
    Restore lib pks ips rks (px\<lparr>px_prefixMapping := pm\<rparr>) = Restore lib pks ips rks px"
  by (simp add: Restore_def Prefixer_Build_def)

text \<open>
  Consistent tables of round-robin prefixes, accepted networks, and usable limiter records: kind \<open>qps\<close> and no
  speed 0. \<open>zero_speed_stops_restore\<close> is what happens with a speed 0.
\<close>

definition snap_good :: "view \<Rightarrow> 'l HttpReverseProxy \<Rightarrow> bool" where
  "snap_good v px \<longleftrightarrow> shows_view px v \<and> px_PrefixerType px = TypeHashPrefixer \<and>
     (\<forall>s \<in> dom (t_Record (px_Acl px)). net_of s \<noteq> None) \<and> (\<forall>p. \<forall>i \<in> set (infos_of px p). good_info i)"

text \<open>The proxy is back: same port, hosts, flags, the exact blacklist and usable records, but no shutdown channel.\<close>

definition proxy_back :: "view \<Rightarrow> 'l HttpReverseProxy \<Rightarrow> 'l HttpReverseProxy \<Rightarrow> bool" where
  "proxy_back v px px' \<longleftrightarrow> px_Port px' = px_Port px \<and> shows_view px' (restored_view v) \<and> \<not> px_Shutdown px' \<and>
     px_PrefixerType px' = px_PrefixerType px \<and> infos_good (px_RateLimiterType px') \<and>
     (dom (t_Record (px_Acl px)) = {} \<longrightarrow> px_Acl px' = NewRadixTree) \<and>
     (\<forall>addr. client_ok addr \<longrightarrow> AccessControl (px_Acl px') addr =
        Inr (\<exists>s \<in> dom (t_Record (px_Acl px)). covers s (client_word addr)))"

lemma net_of_parsable: "net_of s \<noteq> None \<Longrightarrow> parsable (Split CHR ''/'' s ! 0)"
  unfolding parsable_iff by (auto simp: net_of_def Let_def split: sum.splits)

lemma infos_good_doubled:
  "infos_good m \<Longrightarrow> infos_good (\<lambda>q. if q \<in> Q then map_option (\<lambda>i. i @ i) (m q) else m q)"
proof -
  have "set (map_get [] (\<lambda>q. if q \<in> Q then map_option (\<lambda>i. i @ i) (m q) else m q) p) = set (map_get [] m p)" for p
    by (cases "m p") (simp_all add: map_get_def)
  then show "infos_good m \<Longrightarrow> infos_good (\<lambda>q. if q \<in> Q then map_option (\<lambda>i. i @ i) (m q) else m q)"
    by (simp add: infos_good_def)
qed

lemma Restore_decoded:
  fixes px :: "'l HttpReverseProxy"
  assumes "snap_good v px" "keys_ok ko px" "keys_ok ko' px"
  shows "\<exists>px'. Restore lib (ko_Paths ko') (ko_record ko') (ko_RateLimiterType ko') (doc_to_proxy (proxy_to_doc ko px)) =
      Inr (None, px') \<and> px_Available px' = px_Available px \<and> proxy_back v px px'"
proof -
  note good = assms(1)[unfolded snap_good_def]
  let ?d = "doc_to_proxy (proxy_to_doc ko px) :: 'l HttpReverseProxy"
  let ?q = "?d\<lparr>px_prefixMapping := px_prefixMapping px\<rparr>"
  note d = doc_round_trip[OF assms(2)]
  have q: "shows_view ?q v" using good by (simp add: d shows_view_def)
  have ty: "px_PrefixerType ?q = TypeHashPrefixer" using good by (simp add: d)
  have paths: "set (ko_Paths ko') = dom (v_hosts v)"
    using shows_view_Paths[of px v] good assms(3) by (simp add: keys_ok_def)
  have infos: "\<forall>p \<in> set (ko_RateLimiterType ko'). \<forall>i \<in> set (infos_of ?q p). good_info i"
    using good by (simp add: d infos_of_def)
  have nets: "nets_ok (ko_record ko')"
    unfolding nets_ok_def
  proof
    fix s assume "s \<in> set (ko_record ko')"
    with assms(3) good have "net_of s \<noteq> None" unfolding keys_ok_def by blast
    then show "parsable (Split CHR ''/'' s ! 0)" by (rule net_of_parsable)
  qed
  have dist: "distinct (ko_Paths ko')" "distinct (ko_RateLimiterType ko')" using assms(3) by (simp_all add: keys_ok_def)
  from Restore_result[OF q ty dist(1) paths nets dist(2) infos, of lib] obtain px' where
    px': "Restore lib (ko_Paths ko') (ko_record ko') (ko_RateLimiterType ko') ?q = Inr (None, px')"
    "shows_view px' (restored_view v)" "tree_inv (px_Acl px')"
    "dom (entries (px_Acl px')) = (\<Union>s \<in> set (ko_record ko'). net_keys s)"
    and acl: "acl_add_all (ko_record ko') NewRadixTree = Inr (px_Acl px')"
    and limiters: "px_RateLimiterType px' = (\<lambda>q. if q \<in> set (ko_RateLimiterType ko')
      then map_option (\<lambda>i. i @ i) (px_RateLimiterType ?q q) else px_RateLimiterType ?q q)" by blast
  have "infos_good (px_RateLimiterType px)" using good by (simp add: infos_good_def infos_of_def)
  then have limiters': "infos_good (px_RateLimiterType px')"
    unfolding limiters by (simp add: d infos_good_doubled)
  have tyd: "px_PrefixerType ?d = TypeHashPrefixer" using good by (simp add: d)
  have run: "Restore lib (ko_Paths ko') (ko_record ko') (ko_RateLimiterType ko') ?d = Inr (None, px')"
    by (rule trans[OF Restore_ignores_mapping[OF tyd, symmetric] px'(1)])
  have id: "identity_of px' = identity_of ?d" by (rule Restore_identity[OF run])
  have recs: "set (ko_record ko') = dom (t_Record (px_Acl px))" using assms(3) by (simp add: keys_ok_def)
  have "AccessControl (px_Acl px') addr = Inr (\<exists>s \<in> dom (t_Record (px_Acl px)). covers s (client_word addr))"
    if "client_ok addr" for addr
    unfolding AccessControl_entries[OF px'(3) that] px'(4) covers_iff_key recs by auto
  moreover have "px_Acl px' = NewRadixTree" if "dom (t_Record (px_Acl px)) = {}" using that acl recs by (simp add: acl_add_all_def)
  ultimately show ?thesis using run px'(2) id limiters' by (intro exI[of _ px']) (simp add: proxy_back_def identity_of_def d)
qed

lemma Add_unrooted_accepts: "net_of s \<noteq> None \<Longrightarrow> Add_unrooted s = Inl NilDeref"
  by (auto simp: net_of_def Add_unrooted_def Let_def split: sum.splits option.splits if_splits)

lemma px_Start_back:
  assumes "shows_view px v"
  shows "px_Start px = Inr (px\<lparr>px_Available := True\<rparr>)"
proof -
  have mu: "px_mu px = unlocked" by (rule shows_viewD(1)[OF assms])
  then have "px\<lparr>px_Available := True, px_mu := unlocked\<rparr> = px\<lparr>px_Available := True\<rparr>" by (cases px) simp
  with mu show ?thesis by (simp add: px_Start_def)
qed

lemma restore_and_start_decoded:
  assumes "snap_good v px" "keys_ok ko px" "keys_ok ko' px"
  shows "if dom (t_Record (px_Acl px)) = {}
    then \<exists>px'. restore_and_start env True ko' (doc_to_proxy (proxy_to_doc ko px)) = Inr px' \<and> px_Available px' \<and> proxy_back v px px'
    else restore_and_start env True ko' (doc_to_proxy (proxy_to_doc ko px)) = Inl NilDeref"
proof (cases "ko_record ko'")
  case Nil
  with assms(3) have "dom (t_Record (px_Acl px)) = {}" unfolding keys_ok_def by simp
  moreover from Restore_decoded[OF assms, of "env_rate env"] obtain px' where
    px': "Restore (env_rate env) (ko_Paths ko') (ko_record ko') (ko_RateLimiterType ko') (doc_to_proxy (proxy_to_doc ko px)) =
      Inr (None, px')" "proxy_back v px px'" by blast
  from px'(2) have "px_Start px' = Inr (px'\<lparr>px_Available := True\<rparr>)" using px_Start_back by (auto simp: proxy_back_def)
  moreover have "proxy_back v px (px'\<lparr>px_Available := True\<rparr>)" using px'(2) by (simp add: proxy_back_def shows_view_def)
  ultimately show ?thesis using px'(1) Nil by (simp add: restore_and_start_def readd_records_def)
next
  case (Cons k ks)
  with assms(3) have "k \<in> dom (t_Record (px_Acl px))" by (auto simp: keys_ok_def)
  moreover from this assms(1) have "Add_unrooted k = Inl NilDeref" by (intro Add_unrooted_accepts) (auto simp: snap_good_def)
  ultimately show ?thesis using Cons by (auto simp: restore_and_start_def readd_records_def)
qed

section \<open>The whole context\<close>

text \<open>Every proxy of the context is as the commands leave it, and the orders are orders of its keys.\<close>

definition snap_ctx :: "(int \<Rightarrow> view) \<Rightarrow> (int \<Rightarrow> key_orders) \<Rightarrow> 'l StateContext \<Rightarrow> bool" where
  "snap_ctx V kos ctx \<longleftrightarrow>
     (\<forall>port px. sc_List ctx port = Some px \<longrightarrow> snap_good (V port) px \<and> keys_ok (kos port) px)"

lemma UnMarshal_written:
  assumes "json_ok js" "distinct ports" "set ports = dom (sc_List ctx)"
  shows "\<exists>bs. Marshal js ports kos ctx = Some bs \<and> UnMarshal js bs NewStateContext =
    Some (ctx_to_doc ports kos ctx, (NewStateContext :: 'l StateContext)\<lparr>sc_List :=
      (\<lambda>port. map_option (\<lambda>px. doc_to_proxy (proxy_to_doc (kos port) px)) (sc_List ctx port))\<rparr>)"
proof -
  from assms(1) obtain bs where "js_write js (ctx_to_doc ports kos ctx) = Some bs" "js_read js bs = Some (ctx_to_doc ports kos ctx)"
    unfolding json_ok_def by blast
  then show ?thesis
    using ctx_round_trip(1)[OF assms(2,3), of kos] by (simp add: Marshal_def UnMarshal_def NewStateContext_def)
qed

lemma each_proxy_decoded:
  assumes "set ports = dom (sc_List ctx)" "distinct ports'" "set ports' = set ports"
    "\<And>port px. sc_List ctx port = Some px \<Longrightarrow> \<exists>px'. body port (doc_to_proxy (proxy_to_doc (kos port) px)) = Inr px' \<and> P port px px'"
  shows "\<exists>ctx'. each_proxy body ports' (c\<lparr>sc_List :=
      (\<lambda>port. map_option (\<lambda>px. doc_to_proxy (proxy_to_doc (kos port) px)) (sc_List ctx port))\<rparr>) = Inr ctx' \<and>
    (\<forall>port. rel_option (P port) (sc_List ctx port) (sc_List ctx' port))"
proof -
  let ?c = "c\<lparr>sc_List := (\<lambda>port. map_option (\<lambda>px. doc_to_proxy (proxy_to_doc (kos port) px)) (sc_List ctx port))\<rparr>"
  have "\<exists>hp'. body port hp = Inr hp' \<and> (\<forall>px. sc_List ctx port = Some px \<longrightarrow> P port px hp')"
    if "sc_List ?c port = Some hp" for port hp
    using that assms(4)[of port] by auto
  from each_proxy_all[OF assms(2), of ?c body "\<lambda>port hp hp'. \<forall>px. sc_List ctx port = Some px \<longrightarrow> P port px hp'"] this
  obtain ctx' where ctx': "each_proxy body ports' ?c = Inr ctx'"
    "\<forall>port. port \<notin> set ports' \<longrightarrow> sc_List ctx' port = sc_List ?c port"
    "\<forall>port \<in> set ports'. rel_option (\<lambda>hp hp'. \<forall>px. sc_List ctx port = Some px \<longrightarrow> P port px hp') (sc_List ?c port) (sc_List ctx' port)"
    by blast
  have "rel_option (P port) (sc_List ctx port) (sc_List ctx' port)" for port
  proof (cases "sc_List ctx port")
    case None
    then have "port \<notin> set ports'" using assms(1,3) by auto
    with ctx'(2) None show ?thesis by simp
  next
    case (Some px)
    then have "port \<in> set ports'" using assms(1,3) by auto
    with ctx'(3) Some show ?thesis by (fastforce simp: option_rel_Some1)
  qed
  with ctx'(1) show ?thesis by blast
qed

lemma snap_ctx_both:
  assumes "snap_ctx V kos ctx" "snap_ctx V kos' ctx" "sc_List ctx port = Some px"
  shows "snap_good (V port) px" "keys_ok (kos port) px" "keys_ok (kos' port) px"
  using assms by (simp_all add: snap_ctx_def)

lemma restoreFromSnap_snap:
  fixes ctx :: "'l StateContext" and env :: "('l, 'f) env"
  assumes "json_ok js" "distinct ports" "set ports = dom (sc_List ctx)" "distinct ports'" "set ports' = set ports"
    "snap_ctx V kos ctx" "snap_ctx V kos' ctx"
  shows "\<exists>ctx'. restoreFromSnap js env ports' kos' (snap_once js ports kos True True ctx file) NewStateContext = Inr ctx' \<and>
    (\<forall>port. rel_option (\<lambda>px px'. px_Available px' = px_Available px \<and> proxy_back (V port) px px')
      (sc_List ctx port) (sc_List ctx' port))"
proof -
  from UnMarshal_written[OF assms(1-3), of kos] obtain bs where
    bs: "Marshal js ports kos ctx = Some bs" "UnMarshal js bs NewStateContext = Some (ctx_to_doc ports kos ctx,
      (NewStateContext :: 'l StateContext)\<lparr>sc_List := (\<lambda>port. map_option (\<lambda>px. doc_to_proxy (proxy_to_doc (kos port) px)) (sc_List ctx port))\<rparr>)"
    by blast
  have written: "snap_once js ports kos True True ctx file = Some bs"
    by (simp add: snap_once_def bs(1) Let_def split: option.split)
  have "\<exists>px'. restore_logged env (kos' port) (doc_to_proxy (proxy_to_doc (kos port) px)) = Inr px' \<and>
      (px_Available px' = px_Available px \<and> proxy_back (V port) px px')" if "sc_List ctx port = Some px" for port px
    using Restore_decoded[OF snap_ctx_both[OF assms(6,7) that], of "env_rate env"] by (auto simp: restore_logged_def)
  from each_proxy_decoded[where kos = kos and body = "\<lambda>port. restore_logged env (kos' port)", OF assms(3-5) this] show ?thesis
    by (simp add: restoreFromSnap_def written bs(2))
qed

text \<open>
  C14: a node in stand mode whose prefixes are balanced round-robin and whose limiter records are usable
  (kind \<open>qps\<close>, no speed 0) that writes a snapshot and starts from it has the same ports, and each proxy has
  its hosts, static flags and availability, and turns away exactly the clients its recorded networks cover,
  in whatever order the maps are written and read.
\<close>

theorem stand_snapshot_round_trip:
  fixes ctx :: "'l StateContext" and env :: "('l, 'f) env"
  assumes "json_ok js" "distinct ports" "set ports = dom (sc_List ctx)" "distinct ports'" "set ports' = set ports"
    "snap_ctx V kos ctx" "snap_ctx V kos' ctx"
  shows "\<exists>ctx'. restoreFromSnap js env ports' kos' (snap_once js ports kos True True ctx file) NewStateContext = Inr ctx' \<and>
    dom (sc_List ctx') = dom (sc_List ctx) \<and>
    (\<forall>port px. sc_List ctx port = Some px \<longrightarrow> (\<exists>px'. sc_List ctx' port = Some px' \<and> px_Available px' = px_Available px \<and>
       shows_view px' (restored_view (V port)) \<and>
       (\<forall>addr. client_ok addr \<longrightarrow> AccessControl (px_Acl px') addr =
          Inr (\<exists>s \<in> dom (t_Record (px_Acl px)). covers s (client_word addr)))))"
proof -
  from restoreFromSnap_snap[OF assms] obtain ctx' where
    run: "restoreFromSnap js env ports' kos' (snap_once js ports kos True True ctx file) NewStateContext = Inr ctx'"
    and rel: "\<And>port. rel_option (\<lambda>px px'. px_Available px' = px_Available px \<and> proxy_back (V port) px px')
      (sc_List ctx port) (sc_List ctx' port)" by blast
  have "sc_List ctx' port = None \<longleftrightarrow> sc_List ctx port = None" for port
    using rel[of port] by (cases "sc_List ctx port"; cases "sc_List ctx' port") simp_all
  then have "dom (sc_List ctx') = dom (sc_List ctx)" by (simp add: dom_def)
  moreover have "\<exists>px'. sc_List ctx' port = Some px' \<and> px_Available px' = px_Available px \<and>
       shows_view px' (restored_view (V port)) \<and>
       (\<forall>addr. client_ok addr \<longrightarrow> AccessControl (px_Acl px') addr =
          Inr (\<exists>s \<in> dom (t_Record (px_Acl px)). covers s (client_word addr)))" if "sc_List ctx port = Some px" for port px
    using rel[of port] that by (auto simp: option_rel_Some1 proxy_back_def)
  ultimately show ?thesis using run by blast
qed

text \<open>
  What a raft snapshot restores, proxy by proxy: every one comes back and is available, or the state machine
  dereferences the nil root of a list it read, on every order of the ports.
\<close>

definition written_ctx :: "(int \<Rightarrow> key_orders) \<Rightarrow> 'l StateContext \<Rightarrow> 'l StateContext" where
  "written_ctx kos ctx = NewStateContext\<lparr>sc_List :=
     (\<lambda>port. map_option (\<lambda>px. doc_to_proxy (proxy_to_doc (kos port) px)) (sc_List ctx port))\<rparr>"

lemma ctx_Restore_written:
  fixes ctx :: "'l StateContext" and env :: "('l, 'f) env"
  assumes "json_ok js" "distinct ports" "set ports = dom (sc_List ctx)" "set ports' = set ports"
    "Persist js ports kos True True ctx = (True, [SinkWrite bs, SinkClose])"
  shows "ctx_Restore js env ports' kos' bs NewStateContext =
    go_bind (each_proxy (\<lambda>port. restore_and_start env (port \<in> set ports) (kos' port)) ports' (written_ctx kos ctx)) (\<lambda>c. Inr (None, c))"
proof -
  from UnMarshal_written[OF assms(1-3), of kos] assms(5) have
    "UnMarshal js bs NewStateContext = Some (ctx_to_doc ports kos ctx, written_ctx kos ctx)"
    by (auto simp: Persist_def written_ctx_def)
  then show ?thesis using ctx_round_trip(2)[OF assms(2,3), of kos] assms(3) by (simp add: ctx_Restore_def)
qed

lemma raft_restore_plain:
  fixes ctx :: "'l StateContext" and env :: "('l, 'f) env"
  assumes "json_ok js" "distinct ports" "set ports = dom (sc_List ctx)" "distinct ports'" "set ports' = set ports"
    "snap_ctx V kos ctx" "snap_ctx V kos' ctx" "Persist js ports kos True True ctx = (True, [SinkWrite bs, SinkClose])"
    "\<forall>port px. sc_List ctx port = Some px \<longrightarrow> dom (t_Record (px_Acl px)) = {}"
  shows "\<exists>ctx'. ctx_Restore js env ports' kos' bs NewStateContext = Inr (None, ctx') \<and> sc_mu ctx' = unlocked \<and>
    (\<forall>port. rel_option (\<lambda>px px'. px_Available px' \<and> proxy_back (V port) px px') (sc_List ctx port) (sc_List ctx' port))"
proof -
  let ?body = "\<lambda>port. restore_and_start env (port \<in> set ports) (kos' port)"
  have "\<exists>px'. ?body port (doc_to_proxy (proxy_to_doc (kos port) px)) = Inr px' \<and> (px_Available px' \<and> proxy_back (V port) px px')"
    if px: "sc_List ctx port = Some px" for port px
  proof -
    have "port \<in> set ports" using px assms(3) by auto
    with restore_and_start_decoded[OF snap_ctx_both[OF assms(6,7) px], of env] assms(9) px show ?thesis by simp
  qed
  from each_proxy_decoded[where body = ?body and kos = kos and c = NewStateContext, OF assms(3-5) this] obtain ctx' where
    ctx': "each_proxy ?body ports' (written_ctx kos ctx) = Inr ctx'"
    "\<forall>port. rel_option (\<lambda>px px'. px_Available px' \<and> proxy_back (V port) px px') (sc_List ctx port) (sc_List ctx' port)"
    unfolding written_ctx_def by blast
  have "sc_mu ctx' = sc_mu (written_ctx kos ctx)"
    by (rule go_fold_keeps[OF _ ctx'(1)[unfolded each_proxy_def]]) (auto simp: go_bind_eq_Inr_iff split: option.splits)
  then show ?thesis using ctx' unfolding ctx_Restore_written[OF assms(1-3,5,8)]
    by (simp add: written_ctx_def NewStateContext_def)
qed

lemma raft_restore_fails:
  fixes ctx :: "'l StateContext" and env :: "('l, 'f) env"
  assumes "json_ok js" "distinct ports" "set ports = dom (sc_List ctx)" "distinct ports'" "set ports' = set ports"
    "snap_ctx V kos ctx" "snap_ctx V kos' ctx" "Persist js ports kos True True ctx = (True, [SinkWrite bs, SinkClose])"
    "sc_List ctx port = Some px" "dom (t_Record (px_Acl px)) \<noteq> {}"
  shows "ctx_Restore js env ports' kos' bs NewStateContext = Inl NilDeref"
proof -
  let ?body = "\<lambda>port. restore_and_start env (port \<in> set ports) (kos' port)"
  have step: "if dom (t_Record (px_Acl px)) = {} then \<exists>px'. ?body port (doc_to_proxy (proxy_to_doc (kos port) px)) = Inr px'
    else ?body port (doc_to_proxy (proxy_to_doc (kos port) px)) = Inl NilDeref" if px: "sc_List ctx port = Some px" for port px
  proof -
    have "port \<in> set ports" using px assms(3) by auto
    with restore_and_start_decoded[OF snap_ctx_both[OF assms(6,7) px], of env] show ?thesis by (auto split: if_splits)
  qed
  have "each_proxy ?body ports' (written_ctx kos ctx) = Inl NilDeref"
  proof (rule each_proxy_fails[OF assms(4)])
    show "port \<in> set ports'" using assms(3,5,9) by auto
    show "sc_List (written_ctx kos ctx) port = Some (doc_to_proxy (proxy_to_doc (kos port) px))"
      using assms(9) by (simp add: written_ctx_def)
    show "?body port (doc_to_proxy (proxy_to_doc (kos port) px)) = Inl NilDeref" using step[OF assms(9)] assms(10) by simp
  next
    fix q h assume "sc_List (written_ctx kos ctx) q = Some h"
    then obtain p where p: "sc_List ctx q = Some p" "h = doc_to_proxy (proxy_to_doc (kos q) p)" by (auto simp: written_ctx_def)
    from step[OF p(1)] show "?body q h = Inl NilDeref \<or> (\<exists>h'. ?body q h = Inr h')" unfolding p(2) by (auto split: if_splits)
  qed
  then show ?thesis unfolding ctx_Restore_written[OF assms(1-3,5,8)] by simp
qed


section \<open>A restored proxy cannot be closed\<close>

lemma px_Run_view:
  assumes "shows_view px v"
  shows "px_Run ok px = Inr (\<not> ok, if ok then px\<lparr>px_serving := True\<rparr> else px)"
proof -
  have mu: "px_mu px = unlocked" by (rule shows_viewD(1)[OF assms])
  then have "px\<lparr>px_mu := unlocked\<rparr> = px" by (cases px) simp
  moreover from mu have "px\<lparr>px_mu := unlocked, px_serving := True\<rparr> = px\<lparr>px_serving := True\<rparr>" by (cases px) simp
  ultimately show ?thesis using mu by (simp add: px_Run_def)
qed

text \<open>
  Once a node in stand mode has started from a snapshot and run its proxies, closing any of them waits
  for ever: the channel of a proxy read from JSON is nil.
\<close>

theorem restored_proxy_cannot_close:
  fixes ctx :: "'l StateContext" and env :: "('l, 'f) env"
  assumes "json_ok js" "distinct ports" "set ports = dom (sc_List ctx)" "distinct ports'" "set ports' = set ports"
    "snap_ctx V kos ctx" "snap_ctx V kos' ctx"
  shows "\<exists>ctx1 ctx2. restoreFromSnap js env ports' kos' (snap_once js ports kos True True ctx file) NewStateContext = Inr ctx1 \<and>
    ctx_Run env ports' ctx1 = Inr ctx2 \<and> dom (sc_List ctx2) = dom (sc_List ctx) \<and>
    (\<forall>port \<in> dom (sc_List ctx). \<forall>state. state \<noteq> 1 \<longrightarrow> state \<noteq> 2 \<longrightarrow>
      command_run env Stand (CChangeState \<lparr>chs_Port = port, chs_State = state\<rparr>) ctx2 = Inl Deadlock)"
proof -
  from restoreFromSnap_snap[OF assms] obtain ctx1 where
    run1: "restoreFromSnap js env ports' kos' (snap_once js ports kos True True ctx file) NewStateContext = Inr ctx1"
    and rel1: "\<And>port. rel_option (\<lambda>px px'. px_Available px' = px_Available px \<and> proxy_back (V port) px px')
      (sc_List ctx port) (sc_List ctx1 port)" by blast
  let ?body = "\<lambda>port hp. go_bind (px_Run (env_listen env (px_Port hp)) hp) (\<lambda>(failed, hp'). Inr hp')"
  have "\<exists>hp'. ?body port hp = Inr hp' \<and> \<not> px_Shutdown hp'" if "sc_List ctx1 port = Some hp" for port hp
    using rel1[of port] that by (auto simp: option_rel_Some2 proxy_back_def px_Run_view)
  from each_proxy_all[OF assms(4), of ctx1 ?body "\<lambda>port hp hp'. \<not> px_Shutdown hp'"] this obtain ctx2 where
    run2: "ctx_Run env ports' ctx1 = Inr ctx2"
    "\<forall>port. port \<notin> set ports' \<longrightarrow> sc_List ctx2 port = sc_List ctx1 port"
    "\<forall>port \<in> set ports'. rel_option (\<lambda>hp hp'. \<not> px_Shutdown hp') (sc_List ctx1 port) (sc_List ctx2 port)"
    unfolding ctx_Run_def by blast
  have there: "\<exists>px'. sc_List ctx2 port = Some px' \<and> \<not> px_Shutdown px'" if port: "port \<in> dom (sc_List ctx)" for port
  proof -
    from port rel1[of port] obtain px1 where px1: "sc_List ctx1 port = Some px1" by (auto simp: option_rel_Some1)
    from port assms(3,5) have "port \<in> set ports'" by simp
    with run2(3) px1 show ?thesis by (auto simp: option_rel_Some1)
  qed
  have "sc_List ctx2 port = None" if "port \<notin> dom (sc_List ctx)" for port
    using run2(2) rel1[of port] that assms(3,5) by (auto simp: domIff)
  with there have "dom (sc_List ctx2) = dom (sc_List ctx)" by (intro set_eqI iffI) (metis domI domIff, metis domI)
  moreover have "command_run env Stand (CChangeState \<lparr>chs_Port = port, chs_State = state\<rparr>) ctx2 = Inl Deadlock"
    if "port \<in> dom (sc_List ctx)" "state \<noteq> 1" "state \<noteq> 2" for port state
  proof -
    from there[OF that(1)] obtain px' where "sc_List ctx2 port = Some px'" "\<not> px_Shutdown px'" by blast
    with that(2,3) show ?thesis
      by (simp add: changeProxyAvailable_def ctx_changeState_def ctx_Close_def on_proxy_def px_Close_def)
  qed
  ultimately show ?thesis using run1 run2(1) by blast
qed

section \<open>A JSON library\<close>

definition info_tuple :: "LimiterInfo \<Rightarrow> string \<times> string \<times> int \<times> int" where
  "info_tuple i = (li_Url i, li_Type i, li_Init i, li_Speed i)"

definition tuple_info :: "string \<times> string \<times> int \<times> int \<Rightarrow> LimiterInfo" where
  "tuple_info t = (case t of (u, y, i, s) \<Rightarrow> \<lparr>li_Url = u, li_Type = y, li_Init = i, li_Speed = s\<rparr>)"

definition pd_tuple where
  "pd_tuple d = (pd_Port d, pd_PrefixerType d, pd_Paths d, pd_BalancerType d,
     map (\<lambda>(k, vs). (k, map info_tuple vs)) (pd_RateLimiterType d), pd_StaticMapping d, pd_record d, pd_Available d)"

definition tuple_pd where
  "tuple_pd t = (case t of (a, b, c, d, e, f, g, h) \<Rightarrow> \<lparr>pd_Port = a, pd_PrefixerType = b, pd_Paths = c, pd_BalancerType = d,
     pd_RateLimiterType = map (\<lambda>(k, vs). (k, map tuple_info vs)) e, pd_StaticMapping = f, pd_record = g, pd_Available = h\<rparr>)"

lemma tuple_pd [simp]: "tuple_pd (pd_tuple d) = d"
proof -
  have i: "tuple_info (info_tuple i) = i" for i by (cases i) (simp add: info_tuple_def tuple_info_def)
  have "map (\<lambda>(k, vs). (k, map tuple_info vs)) (map (\<lambda>(k, vs). (k, map info_tuple vs)) xs) = xs" for xs :: "(string \<times> LimiterInfo list) list"
    by (induction xs) (auto simp: i comp_def)
  then show ?thesis by (cases d) (simp add: pd_tuple_def tuple_pd_def)
qed

definition example_json :: json where
  "example_json = \<lparr>js_write = (\<lambda>d. Some (unary (map (\<lambda>(port, p). (port, pd_tuple p)) d))),
     js_read = (\<lambda>bs. Some (map (\<lambda>(port, p). (port, tuple_pd p)) (from_unary bs)))\<rparr>"

lemma example_json_ok: "json_ok example_json"
proof -
  have "map (\<lambda>(port, p). (port, tuple_pd p)) (map (\<lambda>(port, p). (port, pd_tuple p)) d) = d" for d :: doc
    by (induction d) auto
  then show ?thesis by (simp add: json_ok_def example_json_def)
qed

text \<open>A context with one new proxy, with a blacklist or without.\<close>

definition example_orders :: "string list \<Rightarrow> int \<Rightarrow> key_orders" where
  "example_orders ips port = \<lparr>ko_Paths = [], ko_BalancerType = [], ko_RateLimiterType = [], ko_StaticMapping = [], ko_record = ips\<rparr>"

lemma example_snap_ctx:
  assumes "dom (t_Record t) = set ips" "distinct ips" "\<forall>s \<in> set ips. net_of s \<noteq> None"
  shows "snap_ctx (\<lambda>_. new_view) (example_orders ips)
    (NewStateContext\<lparr>sc_List := [9000 \<mapsto> fresh_proxy 9000\<lparr>px_Acl := t\<rparr>]\<rparr>)"
proof -
  have "shows_view (fresh_proxy 9000\<lparr>px_Acl := t\<rparr>) new_view"
    by (simp add: fresh_proxy_def shows_view_def new_view_def NewHashPrefixer_def)
  with assms show ?thesis
    by (auto simp: snap_ctx_def snap_good_def keys_ok_def example_orders_def fresh_proxy_def infos_of_def map_get_def)
qed

lemma example_blacklist:
  obtains t where "acl_add_all [''10.0.0.0/8''] NewRadixTree = Inr t" "dom (t_Record t) = {''10.0.0.0/8''}"
    "net_of ''10.0.0.0/8'' \<noteq> None"
proof -
  have net: "net_of ''10.0.0.0/8'' \<noteq> None" by code_simp
  then have parse: "\<forall>s \<in> set [''10.0.0.0/8'']. parsable (Split CHR ''/'' s ! 0)" by (simp only: list.set ball_simps net_of_parsable simp_thms)
  have new: "t_free NewRadixTree = None" "dom (t_Record NewRadixTree) = {}" by (simp_all add: NewRadixTree_def)
  obtain t where t: "acl_add_all [''10.0.0.0/8''] NewRadixTree = Inr t"
    "dom (t_Record t) = dom (t_Record NewRadixTree) \<union> {s \<in> set [''10.0.0.0/8'']. net_of s \<noteq> None}"
    using acl_add_all_correct[OF tree_inv_New new(1) parse] by (elim exE conjE)
  have "{s \<in> set [''10.0.0.0/8'']. net_of s \<noteq> None} = {''10.0.0.0/8''}" using net by auto
  with t new(2) have "dom (t_Record t) = {''10.0.0.0/8''}" by simp
  with t(1) show thesis using net by (rule that)
qed

theorem stand_snapshot_round_trip_witness:
  "\<exists>t ctx'. acl_add_all [''10.0.0.0/8''] NewRadixTree = Inr t \<and>
    restoreFromSnap example_json (example_env RaftApplied) [9000] (example_orders [''10.0.0.0/8''])
      (snap_once example_json [9000] (example_orders [''10.0.0.0/8'']) True True
        (NewStateContext\<lparr>sc_List := [9000 \<mapsto> fresh_proxy 9000\<lparr>px_Acl := t\<rparr>]\<rparr> :: bucket StateContext) None) NewStateContext = Inr ctx' \<and>
    dom (sc_List ctx') = {9000}"
proof -
  obtain t where t: "acl_add_all [''10.0.0.0/8''] NewRadixTree = Inr t" "dom (t_Record t) = {''10.0.0.0/8''}"
    "net_of ''10.0.0.0/8'' \<noteq> None" by (rule example_blacklist)
  let ?ctx = "NewStateContext\<lparr>sc_List := [9000 \<mapsto> fresh_proxy 9000\<lparr>px_Acl := t\<rparr>]\<rparr> :: bucket StateContext"
  have ctx: "snap_ctx (\<lambda>_. new_view) (example_orders [''10.0.0.0/8'']) ?ctx" using t(2,3) by (intro example_snap_ctx) simp_all
  have ports: "distinct [9000::int]" "set [9000] = dom (sc_List ?ctx)" "set [9000::int] = set [9000]" by simp_all
  from stand_snapshot_round_trip[OF example_json_ok ports(1,2,1,3) ctx ctx, of "example_env RaftApplied" None]
  obtain ctx' where run: "restoreFromSnap example_json (example_env RaftApplied) [9000] (example_orders [''10.0.0.0/8''])
      (snap_once example_json [9000] (example_orders [''10.0.0.0/8'']) True True ?ctx None) NewStateContext = Inr ctx'"
    "dom (sc_List ctx') = dom (sc_List ?ctx)" by (elim exE conjE)
  have "dom (sc_List ctx') = {9000}" unfolding run(2) by simp
  with t(1) run(1) show ?thesis by (intro exI[of _ t] exI[of _ ctx'] conjI)
qed


theorem restored_proxy_cannot_close_witness:
  "\<exists>ctx1 ctx2 :: bucket StateContext. restoreFromSnap example_json (example_env RaftApplied) [9000] (example_orders [])
      (snap_once example_json [9000] (example_orders []) True True
        (NewStateContext\<lparr>sc_List := [9000 \<mapsto> fresh_proxy 9000\<lparr>px_Acl := NewRadixTree\<rparr> :: bucket HttpReverseProxy]\<rparr>) None) NewStateContext = Inr ctx1 \<and>
    ctx_Run (example_env RaftApplied) [9000] ctx1 = Inr ctx2 \<and>
    command_run (example_env RaftApplied) Stand (CChangeState \<lparr>chs_Port = 9000, chs_State = 3\<rparr>) ctx2 = Inl Deadlock"
proof -
  let ?ctx = "NewStateContext\<lparr>sc_List := [9000 \<mapsto> fresh_proxy 9000\<lparr>px_Acl := NewRadixTree\<rparr>]\<rparr> :: bucket StateContext"
  have ctx: "snap_ctx (\<lambda>_. new_view) (example_orders []) ?ctx" by (intro example_snap_ctx) (simp_all add: NewRadixTree_def)
  have ports: "distinct [9000::int]" "set [9000] = dom (sc_List ?ctx)" "set [9000::int] = set [9000]" by simp_all
  have "9000 \<in> dom (sc_List ?ctx)" "(3::int) \<noteq> 1" "(3::int) \<noteq> 2" by simp_all
  with restored_proxy_cannot_close[OF example_json_ok ports(1,2,1,3) ctx ctx, of "example_env RaftApplied" None]
  show ?thesis by blast
qed

end
