(* ===== verification/HttpServer.thy ===== *)
theory HttpServer
  imports Replicas
begin

text \<open>
  The operator's HTTP server, \<open>src/vermouth/http_server.go\<close>: the handlers, their answers and what they
  do to the state. The JSON library is an argument: \<open>json_in\<close> decodes the body of a request into each
  body type and \<open>json_out\<close> encodes what a handler answers with. An answer that sets no status has 200. A panic of a handler is a
  fault here; \<open>net/http\<close> recovers it and closes the connection without an answer.
\<close>

definition InternalErrorMsg :: string where "InternalErrorMsg = ''Internal error please check log''"
definition ENABLE_WRITE_TRUE :: int where "ENABLE_WRITE_TRUE = 1"
definition ENABLE_WRITE_FALSE :: int where "ENABLE_WRITE_FALSE = 0"
definition NotLeader :: string where "NotLeader = ''Not Leader''"
definition Success :: string where "Success = ''success''"

definition StatusOK :: int where "StatusOK = 200"
definition StatusBadRequest :: int where "StatusBadRequest = 400"
definition StatusMethodNotAllowed :: int where "StatusMethodNotAllowed = 405"
definition StatusInternalServerError :: int where "StatusInternalServerError = 500"

lemmas http_statuses = StatusOK_def StatusBadRequest_def StatusMethodNotAllowed_def StatusInternalServerError_def

record HttpServer =
  hs_port :: int
  hs_enableWrite :: int

definition NewHttpServer :: "int \<Rightarrow> HttpServer" where
  "NewHttpServer port = \<lparr>hs_port = port, hs_enableWrite = ENABLE_WRITE_FALSE\<rparr>"

definition SetWriteFlag :: "bool \<Rightarrow> HttpServer \<Rightarrow> HttpServer" where
  "SetWriteFlag flag h = h\<lparr>hs_enableWrite := (if flag then ENABLE_WRITE_TRUE else ENABLE_WRITE_FALSE)\<rparr>"

definition checkWritePermission :: "HttpServer \<Rightarrow> bool" where
  "checkWritePermission h = (hs_enableWrite h = ENABLE_WRITE_TRUE)"

text \<open>\<open>Start\<close>: only stand mode opens the server for writes; a nil server does nothing.\<close>

definition hs_Start :: "string \<Rightarrow> HttpServer option \<Rightarrow> HttpServer option" where
  "hs_Start mode s = map_option (\<lambda>h. if mode = ''stand'' then SetWriteFlag True h else h) s"

section \<open>Requests and answers\<close>

record json_in =
  ji_addHttpProxy :: "bytes \<Rightarrow> addHttpProxyBody option"
  ji_changeState :: "bytes \<Rightarrow> changeHttpProxyStateBody option"
  ji_addPrefix :: "bytes \<Rightarrow> addHttpProxyPrefixBody option"
  ji_host :: "bytes \<Rightarrow> httpProxyHostBody option"
  ji_blackList :: "bytes \<Rightarrow> httpBlackListBody option"
  ji_removePrefix :: "bytes \<Rightarrow> removeHttpProxyPrefixBody option"
  ji_rateLimiter :: "bytes \<Rightarrow> httpRateLimiterBody option"
  ji_changeStatic :: "bytes \<Rightarrow> httpChangeStatic option"
  ji_changeLb :: "bytes \<Rightarrow> httpChangeLbBody option"

record 'l json_out =
  jo_proxy :: "'l HttpReverseProxy \<Rightarrow> string option"
  jo_proxies :: "(int \<Rightarrow> 'l HttpReverseProxy option) \<Rightarrow> string option"
  jo_types :: "string set \<Rightarrow> string option"

text \<open>A request of the operator; \<open>or_query\<close> is the parsed query string, \<open>''''\<close> where a key is missing.\<close>

record operator_request =
  or_method :: string
  or_path :: string
  or_query :: "string \<Rightarrow> string"
  or_body :: bytes

record answer =
  an_Status :: int
  an_Body :: string

definition status :: "int \<Rightarrow> answer" where
  "status s = \<lparr>an_Status = s, an_Body = ''''\<rparr>"

definition says :: "string \<Rightarrow> answer" where
  "says t = \<lparr>an_Status = StatusOK, an_Body = t\<rparr>"

type_synonym 'l answered = "(answer \<times> 'l StateContext) go"

section \<open>The handlers that write\<close>

text \<open>
  The steps all of them take: no \<open>GET\<close>, only with write permission, the body must decode, and the error
  of the command becomes the status \<open>failed\<close>.
\<close>

definition write_handler ::
  "int \<Rightarrow> HttpServer \<Rightarrow> string \<Rightarrow> 'b option \<Rightarrow> ('b \<Rightarrow> 'l StateContext \<Rightarrow> 'l handled) \<Rightarrow> 'l StateContext \<Rightarrow> 'l answered"
where
  "write_handler failed h meth body run ctx =
     (if meth = ''GET'' then Inr (status StatusMethodNotAllowed, ctx)
      else if \<not> checkWritePermission h then Inr (says NotLeader, ctx)
      else case body of
             None \<Rightarrow> Inr (status StatusBadRequest, ctx)
           | Some b \<Rightarrow> go_bind (run b ctx) (\<lambda>(err, ctx').
               Inr (case err of None \<Rightarrow> says Success | Some _ \<Rightarrow> status failed, ctx')))"

definition doAddProxy :: "('l, 'f) env \<Rightarrow> string \<Rightarrow> json_in \<Rightarrow> HttpServer \<Rightarrow> operator_request \<Rightarrow> 'l StateContext \<Rightarrow> 'l answered" where
  "doAddProxy env mode js h r = write_handler StatusInternalServerError h (or_method r) (ji_addHttpProxy js (or_body r))
     (addHttpProxy env mode)"

definition doChangeHttpProxyState :: "('l, 'f) env \<Rightarrow> string \<Rightarrow> json_in \<Rightarrow> HttpServer \<Rightarrow> operator_request \<Rightarrow> 'l StateContext \<Rightarrow> 'l answered" where
  "doChangeHttpProxyState env mode js h r = write_handler StatusInternalServerError h (or_method r) (ji_changeState js (or_body r))
     (changeProxyAvailable env mode)"

definition doAddProxyPrefix :: "('l, 'f) env \<Rightarrow> string \<Rightarrow> json_in \<Rightarrow> HttpServer \<Rightarrow> operator_request \<Rightarrow> 'l StateContext \<Rightarrow> 'l answered" where
  "doAddProxyPrefix env mode js h r = write_handler StatusInternalServerError h (or_method r) (ji_addPrefix js (or_body r))
     (addHttpProxyPrefix env mode)"

definition doRemoveProxyPrefix :: "('l, 'f) env \<Rightarrow> string \<Rightarrow> json_in \<Rightarrow> HttpServer \<Rightarrow> operator_request \<Rightarrow> 'l StateContext \<Rightarrow> 'l answered" where
  "doRemoveProxyPrefix env mode js h r = write_handler StatusInternalServerError h (or_method r) (ji_removePrefix js (or_body r))
     (removeHttpProxyPrefix env mode)"

definition doAddHost :: "('l, 'f) env \<Rightarrow> string \<Rightarrow> json_in \<Rightarrow> HttpServer \<Rightarrow> operator_request \<Rightarrow> 'l StateContext \<Rightarrow> 'l answered" where
  "doAddHost env mode js h r = write_handler StatusInternalServerError h (or_method r) (ji_host js (or_body r))
     (addHttpProxyHost env mode)"

definition doRemoveHost :: "('l, 'f) env \<Rightarrow> string \<Rightarrow> json_in \<Rightarrow> HttpServer \<Rightarrow> operator_request \<Rightarrow> 'l StateContext \<Rightarrow> 'l answered" where
  "doRemoveHost env mode js h r = write_handler StatusInternalServerError h (or_method r) (ji_host js (or_body r))
     (removeHttpProxyHost env mode)"

definition doAddBlackList :: "('l, 'f) env \<Rightarrow> string \<Rightarrow> json_in \<Rightarrow> HttpServer \<Rightarrow> operator_request \<Rightarrow> 'l StateContext \<Rightarrow> 'l answered" where
  "doAddBlackList env mode js h r = write_handler StatusInternalServerError h (or_method r) (ji_blackList js (or_body r))
     (addBlackList env mode)"

definition doRemoveBlackList :: "('l, 'f) env \<Rightarrow> string \<Rightarrow> json_in \<Rightarrow> HttpServer \<Rightarrow> operator_request \<Rightarrow> 'l StateContext \<Rightarrow> 'l answered" where
  "doRemoveBlackList env mode js h r = write_handler StatusInternalServerError h (or_method r) (ji_blackList js (or_body r))
     (removeBlackList env mode)"

text \<open>The only handler that answers 400 when its command fails.\<close>

definition doChangeStatic :: "('l, 'f) env \<Rightarrow> string \<Rightarrow> json_in \<Rightarrow> HttpServer \<Rightarrow> operator_request \<Rightarrow> 'l StateContext \<Rightarrow> 'l answered" where
  "doChangeStatic env mode js h r = write_handler StatusBadRequest h (or_method r) (ji_changeStatic js (or_body r))
     (sm_changeStatic env mode)"

definition doSetRateLimiter :: "('l, 'f) env \<Rightarrow> string \<Rightarrow> json_in \<Rightarrow> HttpServer \<Rightarrow> operator_request \<Rightarrow> 'l StateContext \<Rightarrow> 'l answered" where
  "doSetRateLimiter env mode js h r = write_handler StatusInternalServerError h (or_method r) (ji_rateLimiter js (or_body r))
     (setRateLimiter env mode)"

definition doChangeLb :: "('l, 'f) env \<Rightarrow> string \<Rightarrow> json_in \<Rightarrow> HttpServer \<Rightarrow> operator_request \<Rightarrow> 'l StateContext \<Rightarrow> 'l answered" where
  "doChangeLb env mode js h r = write_handler StatusInternalServerError h (or_method r) (ji_changeLb js (or_body r))
     (sm_changeLb env mode)"

section \<open>The other handlers\<close>

text \<open>
  \<open>AddVoter\<close> is raft's: the argument says with which text it fails, if it does. In stand mode no raft node is made,
  and the call on the nil pointer panics.
\<close>

definition doJoin :: "string \<Rightarrow> (string \<Rightarrow> string \<Rightarrow> string option) \<Rightarrow> operator_request \<Rightarrow> answer go" where
  "doJoin mode add_voter r =
     (let peerAddress = or_query r ''tcpAddress''; name = or_query r ''name''
      in if peerAddress = '''' then Inr (says ''doJoin: invaild peerAddress'')
         else if mode = Stand then Inl NilDeref
         else case add_voter name peerAddress of
                Some err \<Rightarrow> Inr (says (''Error joining peer to raft, peeraddress:'' @ peerAddress @ '', err:'' @ err @ '', code:500''))
              | None \<Rightarrow> Inr (says ''ok''))"

definition doGetHttpProxy :: "'l json_out \<Rightarrow> 'l StateContext \<Rightarrow> answer" where
  "doGetHttpProxy jo ctx = (case jo_proxies jo (sc_List ctx) of None \<Rightarrow> says InternalErrorMsg | Some data \<Rightarrow> says data)"

definition getHttpProxyInfo :: "'l json_out \<Rightarrow> operator_request \<Rightarrow> 'l StateContext \<Rightarrow> answer" where
  "getHttpProxyInfo jo r ctx =
     (case Atoi (or_query r ''port'') of
        None \<Rightarrow> status StatusBadRequest
      | Some port \<Rightarrow>
          (case sc_List ctx port of
             None \<Rightarrow> status StatusBadRequest
           | Some proxy \<Rightarrow>
               (case jo_proxy jo proxy of None \<Rightarrow> status StatusInternalServerError | Some data \<Rightarrow> says data)))"

definition doGetBalancerType :: "'l json_out \<Rightarrow> answer" where
  "doGetBalancerType jo = (case jo_types jo GetBalancerType of None \<Rightarrow> status StatusInternalServerError | Some data \<Rightarrow> says data)"

section \<open>Information pages\<close>

text \<open>
  What the pages print comes from libraries, which are arguments: the settings of viper, the leader and the
  role raft knows, the host and its memory (\<open>None\<close> when go-sysinfo fails), and the files of \<open>../static\<close>.
  The page of the settings is a map: the settings, and under three keys what the node adds.
\<close>

datatype 's info_value = Setting 's | Count nat | Text string

record ('s, 'm, 'i) pages =
  pg_AllSettings :: "string \<Rightarrow> 's option"
  pg_leaderId :: string
  pg_role :: string
  pg_Host :: "('i \<times> 'm option) option"
  pg_json_infos :: "(string \<Rightarrow> 's info_value option) \<Rightarrow> string option"
  pg_json_memory :: "'m \<Rightarrow> string option"
  pg_json_info :: "'i \<Rightarrow> string option"
  pg_file :: "string \<Rightarrow> answer"

definition node_infos :: "string \<Rightarrow> ('s, 'm, 'i) pages \<Rightarrow> 'l StateContext \<Rightarrow> string \<Rightarrow> 's info_value option" where
  "node_infos mode pg ctx =
     (let infos = (\<lambda>k. map_option Setting (pg_AllSettings pg k))(''http_proxy'' \<mapsto> Count (card (dom (sc_List ctx))))
      in if mode = ''cluster'' then infos(''leaderId'' \<mapsto> Text (pg_leaderId pg), ''role'' \<mapsto> Text (pg_role pg)) else infos)"

definition doGetInfo :: "string \<Rightarrow> ('s, 'm, 'i) pages \<Rightarrow> 'l StateContext \<Rightarrow> answer" where
  "doGetInfo mode pg ctx =
     (case pg_json_infos pg (node_infos mode pg ctx) of None \<Rightarrow> says InternalErrorMsg | Some data \<Rightarrow> says data)"

definition json_or_500 :: "string option \<Rightarrow> answer" where
  "json_or_500 data = (case data of None \<Rightarrow> status StatusInternalServerError | Some d \<Rightarrow> says d)"

definition getMeminfo :: "('s, 'm, 'i) pages \<Rightarrow> answer" where
  "getMeminfo pg =
     (case pg_Host pg of
        None \<Rightarrow> status StatusInternalServerError
      | Some (_, mem) \<Rightarrow> (case mem of None \<Rightarrow> status StatusInternalServerError | Some m \<Rightarrow> json_or_500 (pg_json_memory pg m)))"

definition getSysinfo :: "('s, 'm, 'i) pages \<Rightarrow> answer" where
  "getSysinfo pg =
     (case pg_Host pg of None \<Rightarrow> status StatusInternalServerError | Some (info, _) \<Rightarrow> json_or_500 (pg_json_info pg info))"

section \<open>Routes\<close>

text \<open>The mux: a path no handler is registered for goes to the file server.\<close>

definition serve_operator ::
  "('l, 'f) env \<Rightarrow> string \<Rightarrow> json_in \<Rightarrow> 'l json_out \<Rightarrow> ('s, 'm, 'i) pages \<Rightarrow> (string \<Rightarrow> string \<Rightarrow> string option) \<Rightarrow>
     HttpServer \<Rightarrow> operator_request \<Rightarrow> 'l StateContext \<Rightarrow> 'l answered" where
  "serve_operator env mode js jo pg add_voter h r ctx =
     (if or_path r = ''/join'' then go_bind (doJoin mode add_voter r) (\<lambda>a. Inr (a, ctx))
      else if or_path r = ''/http/add/proxy'' then doAddProxy env mode js h r ctx
      else if or_path r = ''/http_proxy_info'' then Inr (doGetHttpProxy jo ctx, ctx)
      else if or_path r = ''/http/change'' then doChangeHttpProxyState env mode js h r ctx
      else if or_path r = ''/http/add/prefix'' then doAddProxyPrefix env mode js h r ctx
      else if or_path r = ''/http/remove/prefix'' then doRemoveProxyPrefix env mode js h r ctx
      else if or_path r = ''/http/remove/host'' then doRemoveHost env mode js h r ctx
      else if or_path r = ''/http/add/host'' then doAddHost env mode js h r ctx
      else if or_path r = ''/http/add/black-list'' then doAddBlackList env mode js h r ctx
      else if or_path r = ''/http/remove/black-list'' then doRemoveBlackList env mode js h r ctx
      else if or_path r = ''/http/proxy'' then Inr (getHttpProxyInfo jo r ctx, ctx)
      else if or_path r = ''/http/set/rate'' then doSetRateLimiter env mode js h r ctx
      else if or_path r = ''/http/change/static'' then doChangeStatic env mode js h r ctx
      else if or_path r = ''/http/change/lb'' then doChangeLb env mode js h r ctx
      else if or_path r = ''/http/lb/list'' then Inr (doGetBalancerType jo, ctx)
      else if or_path r = ''/info'' then Inr (doGetInfo mode pg ctx, ctx)
      else if or_path r = ''/meminfo'' then Inr (getMeminfo pg, ctx)
      else if or_path r = ''/sysinfo'' then Inr (getSysinfo pg, ctx)
      else Inr (pg_file pg (or_path r), ctx))"

lemmas write_handlers =
  doAddProxy_def doChangeHttpProxyState_def doAddProxyPrefix_def doRemoveProxyPrefix_def doRemoveHost_def doAddHost_def
  doAddBlackList_def doRemoveBlackList_def doSetRateLimiter_def doChangeStatic_def doChangeLb_def

section \<open>What an operator can do\<close>

lemma write_handler_refused:
  "meth = ''GET'' \<or> \<not> checkWritePermission h \<Longrightarrow>
    write_handler failed h meth body run ctx = Inr (if meth = ''GET'' then status StatusMethodNotAllowed else says NotLeader, ctx)"
  by (auto simp: write_handler_def)

lemma refused_keeps:
  assumes "or_method r = ''GET'' \<or> \<not> checkWritePermission h"
    "serve_operator env mode js jo pg av h r ctx = Inr (a, ctx')"
  shows "ctx' = ctx"
  using assms(2) unfolding serve_operator_def write_handlers write_handler_refused[OF assms(1)]
  by (auto simp: go_bind_eq_Inr_iff split: if_splits)

lemma doJoin_returns: "mode \<noteq> Stand \<Longrightarrow> \<exists>a. doJoin mode av r = Inr a"
  by (simp add: doJoin_def Let_def split: option.split)

lemma refused_returns:
  assumes "or_method r = ''GET'' \<or> \<not> checkWritePermission h" "mode \<noteq> Stand \<or> or_path r \<noteq> ''/join''"
  shows "\<exists>a. serve_operator env mode js jo pg av h r ctx = Inr (a, ctx)"
proof (cases "or_path r = ''/join''")
  case True
  with assms(2) doJoin_returns[of mode av r] show ?thesis by (auto simp: serve_operator_def)
next
  case False
  then show ?thesis
    unfolding serve_operator_def write_handlers write_handler_refused[OF assms(1)] by (auto split: if_splits)
qed

text \<open>The command a path stands for, once the body of the request is decoded.\<close>

definition operator_command :: "json_in \<Rightarrow> operator_request \<Rightarrow> command option" where
  "operator_command js r =
     (let b = or_body r; p = or_path r
      in if p = ''/http/add/proxy'' then map_option CAddProxy (ji_addHttpProxy js b)
         else if p = ''/http/change'' then map_option CChangeState (ji_changeState js b)
         else if p = ''/http/add/prefix'' then map_option CAddPrefix (ji_addPrefix js b)
         else if p = ''/http/remove/prefix'' then map_option CRemovePrefix (ji_removePrefix js b)
         else if p = ''/http/add/host'' then map_option CAddHost (ji_host js b)
         else if p = ''/http/remove/host'' then map_option CRemoveHost (ji_host js b)
         else if p = ''/http/add/black-list'' then map_option CAddBlackList (ji_blackList js b)
         else if p = ''/http/remove/black-list'' then map_option CRemoveBlackList (ji_blackList js b)
         else if p = ''/http/set/rate'' then map_option CSetRate (ji_rateLimiter js b)
         else if p = ''/http/change/static'' then map_option CChangeStatic (ji_changeStatic js b)
         else if p = ''/http/change/lb'' then map_option CChangeLb (ji_changeLb js b)
         else None)"

text \<open>
  C19: a request that is not a GET, whose path stands for a command its body decodes to, runs exactly that
  command when the server is open for writes, and answers \<open>success\<close> or the status of a failure; when it
  is not, it answers \<open>Not Leader\<close> and nothing happens.
\<close>

theorem operator_request_runs_command:
  assumes "operator_command js r = Some c" "or_method r \<noteq> ''GET''"
  shows "serve_operator env mode js jo pg av h r ctx =
    (if \<not> checkWritePermission h then Inr (says NotLeader, ctx)
     else go_bind (command_run env mode c ctx) (\<lambda>(err, ctx').
       Inr (case err of None \<Rightarrow> says Success
            | Some _ \<Rightarrow> status (if or_path r = ''/http/change/static'' then StatusBadRequest else StatusInternalServerError), ctx')))"
  using assms
  by (auto simp: operator_command_def serve_operator_def write_handlers write_handler_def Let_def split: if_splits)

definition example_json_in :: json_in where
  "example_json_in = \<lparr>ji_addHttpProxy = gob_addHttpProxy example_gob, ji_changeState = gob_changeState example_gob,
     ji_addPrefix = gob_addPrefix example_gob, ji_host = gob_host example_gob, ji_blackList = gob_blackList example_gob,
     ji_removePrefix = gob_removePrefix example_gob, ji_rateLimiter = gob_rateLimiter example_gob,
     ji_changeStatic = gob_changeStatic example_gob, ji_changeLb = gob_changeLb example_gob\<rparr>"

definition example_operator :: "string \<Rightarrow> body \<Rightarrow> operator_request" where
  "example_operator path b = \<lparr>or_method = ''POST'', or_path = path, or_query = (\<lambda>_. ''''), or_body = unary_body b\<rparr>"

definition example_json_out :: "'l json_out" where
  "example_json_out = \<lparr>jo_proxy = (\<lambda>px. Some (Itoa (px_Port px))), jo_proxies = (\<lambda>_. None), jo_types = (\<lambda>_. None)\<rparr>"

definition example_pages :: "(string, nat, string) pages" where
  "example_pages = \<lparr>pg_AllSettings = [''mode'' \<mapsto> ''cluster''], pg_leaderId = ''node-1'', pg_role = ''Leader'',
     pg_Host = Some (''linux'', None), pg_json_infos = (\<lambda>m. map_option (\<lambda>_. ''infos'') (m ''mode'')), pg_json_memory = (\<lambda>_. None),
     pg_json_info = Some, pg_file = (\<lambda>_. status 404)\<rparr>"

theorem operator_request_runs_command_witness:
  "serve_operator (example_env RaftApplied) Cluster example_json_in example_json_out example_pages (\<lambda>_ _. None) (NewHttpServer 9001)
     (example_operator ''/http/change/static'' (BChangeStatic \<lparr>hcs_Port = 9000, hcs_Prefix = ''/api''\<rparr>)) NewStateContext =
     Inr (says NotLeader, NewStateContext) \<and>
   serve_operator (example_env RaftApplied) Cluster example_json_in example_json_out example_pages (\<lambda>_ _. None) (SetWriteFlag True (NewHttpServer 9001))
     (example_operator ''/http/change/static'' (BChangeStatic \<lparr>hcs_Port = 9000, hcs_Prefix = ''/api''\<rparr>)) NewStateContext =
     Inr (status StatusBadRequest, NewStateContext)"
proof -
  let ?r = "example_operator ''/http/change/static'' (BChangeStatic \<lparr>hcs_Port = 9000, hcs_Prefix = ''/api''\<rparr>)"
  have cmd: "operator_command example_json_in ?r = Some (CChangeStatic \<lparr>hcs_Port = 9000, hcs_Prefix = ''/api''\<rparr>)"
    by (simp add: operator_command_def example_operator_def example_json_in_def example_gob_def)
  have meth: "or_method ?r \<noteq> ''GET''" by (simp add: example_operator_def)
  show ?thesis
    unfolding operator_request_runs_command[OF cmd meth]
    by (simp add: checkWritePermission_def NewHttpServer_def SetWriteFlag_def ENABLE_WRITE_TRUE_def ENABLE_WRITE_FALSE_def
        sm_changeStatic_def NewStateContext_def example_operator_def)
qed

end
