(* ===== verification/Leadership.thy ===== *)
theory Leadership
  imports StateSnapshot HttpServer
begin

text \<open>
  The process around the state, \<open>src/vermouth/vermouth.go\<close> and \<open>start.go\<close>: what a change of leadership
  opens and closes. Raft sends on its notify channel when the node becomes the leader and when it stops
  being it, in turns. \<open>pe_loops\<close> are the ports of the service loops that run, \<open>pe_rpc\<close> counts the RPC
  servers that run; whether the RPC port can be listened on is an argument.
\<close>

record peer =
  pe_Leader :: bool
  pe_http :: "HttpServer option"
  pe_loops :: "int list"
  pe_rpc :: nat

definition NewPeer :: "bool \<Rightarrow> int \<Rightarrow> peer" where
  "NewPeer http_server http_port =
     \<lparr>pe_Leader = False, pe_http = (if http_server then Some (NewHttpServer http_port) else None), pe_loops = [], pe_rpc = 0\<rparr>"

datatype raft_state = Follower | Candidate | RaftLeader | RaftShutdown

definition Available :: "string \<Rightarrow> raft_state \<Rightarrow> bool" where
  "Available mode role = (mode = Stand \<or> role = Follower \<or> role = RaftLeader)"

section \<open>Notifications\<close>

text \<open>
  \<open>Start\<close> of \<open>rpc_server.go\<close>: without a listener it returns, otherwise it serves until it receives from
  the close channel.
\<close>

definition rpc_Start :: "bool \<Rightarrow> peer \<Rightarrow> peer" where
  "rpc_Start listen_ok p = (if listen_ok then p\<lparr>pe_rpc := pe_rpc p + 1\<rparr> else p)"

text \<open>The send on the close channel waits for a server that receives.\<close>

definition rpc_close :: "peer \<Rightarrow> peer go" where
  "rpc_close p = (if pe_rpc p = 0 then Inl Deadlock else Inr (p\<lparr>pe_rpc := pe_rpc p - 1\<rparr>))"

definition set_write :: "bool \<Rightarrow> peer \<Rightarrow> peer go" where
  "set_write flag p =
     (case pe_http p of None \<Rightarrow> Inl NilDeref | Some h \<Rightarrow> Inr (p\<lparr>pe_http := Some (SetWriteFlag flag h)\<rparr>))"

text \<open>One turn of the loop over \<open>leaderNotify\<close>.\<close>

definition on_notify ::
  "bool \<Rightarrow> bool \<Rightarrow> int list \<Rightarrow> 'l StateContext \<Rightarrow> bool \<Rightarrow> peer \<Rightarrow> peer go" where
  "on_notify rpc listen_ok ports ctx leader p =
     (if leader then
        go_bind (startDiscovery ports ctx) (\<lambda>(loops, _).
        go_bind (set_write True (p\<lparr>pe_Leader := True, pe_loops := loops @ pe_loops p\<rparr>)) (\<lambda>p1.
          Inr (if rpc then rpc_Start listen_ok p1 else p1)))
      else
        go_bind (set_write False (p\<lparr>pe_Leader := False\<rparr>)) (\<lambda>p1.
          if rpc then rpc_close p1 else Inr p1))"

definition notify_all :: "bool \<Rightarrow> bool \<Rightarrow> int list \<Rightarrow> 'l StateContext \<Rightarrow> bool list \<Rightarrow> peer \<Rightarrow> peer go" where
  "notify_all rpc listen_ok ports ctx = go_fold (on_notify rpc listen_ok ports ctx)"

text \<open>The first \<open>n\<close> notifications: the node becomes the leader, loses it, and so on.\<close>

definition changes :: "nat \<Rightarrow> bool list" where
  "changes n = map even [0..<n]"

section \<open>The flags follow the notifications\<close>

definition peer_after :: "bool \<Rightarrow> nat \<Rightarrow> int list \<Rightarrow> HttpServer \<Rightarrow> peer \<Rightarrow> bool" where
  "peer_after rpc n loops h p \<longleftrightarrow>
     pe_Leader p = odd n \<and> (n = 0 \<and> pe_http p = Some h \<or> n > 0 \<and> pe_http p = Some (SetWriteFlag (odd n) h)) \<and>
     pe_loops p = concat (replicate ((n + 1) div 2) loops) \<and> pe_rpc p = (if rpc \<and> odd n then 1 else 0)"

lemma SetWriteFlag_twice [simp]: "SetWriteFlag a (SetWriteFlag b h) = SetWriteFlag a h"
  by (simp add: SetWriteFlag_def)

lemma SetWriteFlag_permission [simp]: "checkWritePermission (SetWriteFlag a h) = a"
  by (simp add: SetWriteFlag_def checkWritePermission_def ENABLE_WRITE_TRUE_def ENABLE_WRITE_FALSE_def)

lemma on_notify_step:
  assumes "peer_after rpc n loops h p" "startDiscovery ports ctx = Inr (loops, ns)" "rpc \<longrightarrow> listen_ok"
  shows "\<exists>p'. on_notify rpc listen_ok ports ctx (even n) p = Inr p' \<and> peer_after rpc (Suc n) loops h p'"
proof -
  have http: "\<exists>h'. pe_http p = Some h' \<and> SetWriteFlag a h' = SetWriteFlag a h" for a
    using assms(1) by (auto simp: peer_after_def)
  show ?thesis
  proof (cases "even n")
    case True
    then have "(Suc n + 1) div 2 = Suc ((n + 1) div 2)" by presburger
    with True http[of True] assms show ?thesis
      by (auto simp: on_notify_def set_write_def rpc_Start_def peer_after_def)
  next
    case False
    then have "(Suc n + 1) div 2 = (n + 1) div 2" by presburger
    with False http[of False] assms show ?thesis
      by (auto simp: on_notify_def set_write_def rpc_close_def peer_after_def)
  qed
qed

lemma notify_changes:
  assumes "startDiscovery ports ctx = Inr (loops, ns)" "rpc \<longrightarrow> listen_ok"
  shows "\<exists>p. notify_all rpc listen_ok ports ctx (changes n) (NewPeer True http_port) = Inr p \<and>
    peer_after rpc n loops (NewHttpServer http_port) p"
proof (induction n)
  case 0
  then show ?case by (simp add: changes_def notify_all_def NewPeer_def peer_after_def)
next
  case (Suc n)
  then obtain p where p: "notify_all rpc listen_ok ports ctx (changes n) (NewPeer True http_port) = Inr p"
    "peer_after rpc n loops (NewHttpServer http_port) p" by blast
  from on_notify_step[OF p(2) assms] obtain p' where
    p': "on_notify rpc listen_ok ports ctx (even n) p = Inr p'" "peer_after rpc (Suc n) loops (NewHttpServer http_port) p'" by blast
  have "changes (Suc n) = changes n @ [even n]" by (simp add: changes_def)
  then have "notify_all rpc listen_ok ports ctx (changes (Suc n)) (NewPeer True http_port) = Inr p'"
    using p(1) p'(1) by (simp add: notify_all_def go_fold_append)
  with p'(2) show ?case by blast
qed

text \<open>
  C20: after any number of changes of leadership the node is open for writes exactly while it is the
  leader, one RPC server runs exactly then, and a node that is not the leader changes nothing for any
  request of an operator (\<open>/join\<close> panics in stand mode, where there is no leadership). But the service loops
  are never stopped: each election starts all of them once more.
\<close>

theorem leadership_opens_writes:
  assumes "startDiscovery ports ctx = Inr (loops, ns)" "rpc \<longrightarrow> listen_ok"
  shows "\<exists>p h. notify_all rpc listen_ok ports ctx (changes n) (NewPeer True http_port) = Inr p \<and>
    pe_http p = Some h \<and> pe_Leader p = odd n \<and> checkWritePermission h = odd n \<and> pe_rpc p = (if rpc \<and> odd n then 1 else 0) \<and>
    pe_loops p = concat (replicate ((n + 1) div 2) loops) \<and>
    (even n \<longrightarrow> (\<forall>env mode js jo pg av r c. mode = Stand \<and> or_path r = ''/join'' \<or>
      (\<exists>a. serve_operator env mode js jo pg av h r c = Inr (a, c))))"
proof -
  from notify_changes[OF assms] obtain p where
    p: "notify_all rpc listen_ok ports ctx (changes n) (NewPeer True http_port) = Inr p"
    "peer_after rpc n loops (NewHttpServer http_port) p" by blast
  then obtain h where h: "pe_http p = Some h" "checkWritePermission h = odd n"
    by (auto simp: peer_after_def NewHttpServer_def checkWritePermission_def SetWriteFlag_def ENABLE_WRITE_TRUE_def ENABLE_WRITE_FALSE_def)
  have "mode = Stand \<and> or_path r = ''/join'' \<or> (\<exists>a. serve_operator env mode js jo pg av h r c = Inr (a, c))" if "even n"
    for env :: "('b, 'c) env" and mode js jo and pg :: "('d, 'e, 'f) pages" and av r c
  proof -
    have "\<not> checkWritePermission h" using h(2) that by simp
    then show ?thesis using refused_returns by blast
  qed
  with p h show ?thesis by (intro exI[of _ p] exI[of _ h]) (simp add: peer_after_def)
qed

theorem leadership_opens_writes_witness:
  "\<exists>p h. notify_all True True [9000] (build_one (\<lambda>_ _. True) \<lparr>dc_Port = 9000, dc_Namespace = ''zookeeper'', dc_Address = [], dc_ConnectTimeout = 5\<rparr>
      (NewStateContext :: bucket StateContext)) (changes 3) (NewPeer True 9001) = Inr p \<and>
    pe_http p = Some h \<and> checkWritePermission h \<and> pe_rpc p = 1 \<and> pe_loops p = [9000, 9000]"
proof -
  let ?ctx = "build_one (\<lambda>_ _. True) \<lparr>dc_Port = 9000, dc_Namespace = ''zookeeper'', dc_Address = [], dc_ConnectTimeout = 5\<rparr>
      (NewStateContext :: bucket StateContext)"
  have "startDiscovery [9000] ?ctx = Inr ([9000], [9000])"
    by (simp add: startDiscovery_def build_one_def Discovery_Build_def NewZookeeperDiscovery_def NewStateContext_def)
  from leadership_opens_writes[OF this, of True True 3 9001] obtain p h where
    "notify_all True True [9000] ?ctx (changes 3) (NewPeer True 9001) = Inr p"
    "pe_http p = Some h" "checkWritePermission h" "pe_rpc p = 1" "pe_loops p = concat (replicate 2 [9000])" by auto
  moreover have "replicate 2 [9000::int] = [[9000], [9000]]" by (simp add: numeral_2_eq_2)
  ultimately show ?thesis by simp
qed

end
