(* ===== verification/GatewayState.thy ===== *)
theory GatewayState
  imports RpcServer Leadership
begin

text \<open>
  The well-formed states of a gateway: which they are, and that every operation that returns keeps
  them: the commands of operators, registrations, cancellations, questions of services, the events of
  discovery and requests.
\<close>

section \<open>What a command names\<close>

text \<open>Commands that put no prefix on a consistent-hash ring; a slice is shorter than \<open>2 ^ 63\<close>.\<close>

fun rr_command :: "command \<Rightarrow> bool" where
  "rr_command (CAddPrefix b) = (app_BalanceType b \<noteq> TypeConsistenceHash \<and> length (app_ProxyPass b) < 2 ^ 63)"
| "rr_command (CChangeLb b) = (hcl_Lb b \<noteq> TypeConsistenceHash)"
| "rr_command _ = True"

text \<open>The hosts a command names.\<close>

fun command_hosts :: "command \<Rightarrow> string set" where
  "command_hosts (CAddPrefix b) = set (app_ProxyPass b)"
| "command_hosts (CAddHost b) = {hph_Host b}"
| "command_hosts _ = {}"

section \<open>Well-formed states\<close>

text \<open>A proxy stands under its own port, its locks are free, its tables say the same, and its hosts are of \<open>H\<close>.\<close>

definition hosts_of :: "'l HttpReverseProxy \<Rightarrow> string set" where
  "hosts_of px = (\<Union>hs \<in> ran (px_Paths px). set hs)"

definition proxy_wf :: "string set \<Rightarrow> int \<Rightarrow> 'l HttpReverseProxy \<Rightarrow> bool" where
  "proxy_wf H port px \<longleftrightarrow> px_Port px = port \<and> px_PrefixerType px = TypeHashPrefixer \<and> (\<exists>v. shows_view px v) \<and>
     hosts_of px \<subseteq> H"

definition ctx_wf :: "string set \<Rightarrow> 'l StateContext \<Rightarrow> bool" where
  "ctx_wf H ctx \<longleftrightarrow> sc_mu ctx = unlocked \<and> (\<forall>port px. sc_List ctx port = Some px \<longrightarrow> proxy_wf H port px)"

definition keeps_wf :: "string set \<Rightarrow> ('l StateContext \<Rightarrow> 'l StateContext go) \<Rightarrow> bool" where
  "keeps_wf H f \<longleftrightarrow> (\<forall>ctx ctx'. ctx_wf H ctx \<longrightarrow> f ctx = Inr ctx' \<longrightarrow> ctx_wf H ctx')"

lemma ctx_wf_view:
  assumes "ctx_wf H ctx" "sc_List ctx port = Some px"
  obtains v where "proxy_wf H port px" "shows_view px v" "hosts_of px \<subseteq> H"
proof -
  have wf: "proxy_wf H port px" using assms by (simp add: ctx_wf_def)
  then obtain v where "shows_view px v" unfolding proxy_wf_def by blast
  with wf show thesis by (intro that) (simp_all add: proxy_wf_def)
qed

lemma ctx_wf_closing [simp]: "ctx_wf H (ctx\<lparr>sc_closing := xs\<rparr>) = ctx_wf H ctx"
  by (simp add: ctx_wf_def)

lemma keeps_wfD: "keeps_wf H f \<Longrightarrow> ctx_wf H ctx \<Longrightarrow> f ctx = Inr ctx' \<Longrightarrow> ctx_wf H ctx'"
  by (simp add: keeps_wf_def)

lemma on_proxy_wf:
  assumes "\<And>px px'. proxy_wf H port px \<Longrightarrow> f px = Inr px' \<Longrightarrow> proxy_wf H port px'"
  shows "keeps_wf H (on_proxy port f)"
  unfolding keeps_wf_def
proof (intro allI impI)
  fix ctx ctx' :: "'a StateContext" assume wf: "ctx_wf H ctx" and run: "on_proxy port f ctx = Inr ctx'"
  from run obtain px px' where px: "sc_List ctx port = Some px" "f px = Inr px'"
    "ctx' = ctx\<lparr>sc_List := (sc_List ctx)(port \<mapsto> px')\<rparr>"
    by (auto simp: on_proxy_def go_bind_eq_Inr_iff split: option.splits)
  from wf px(1) have "proxy_wf H port px" by (simp add: ctx_wf_def)
  from assms[OF this px(2)] wf show "ctx_wf H ctx'" by (simp add: ctx_wf_def px(3))
qed

text \<open>The hosts an edit names, and that it brings in no others.\<close>

fun edit_hosts :: "edit \<Rightarrow> string set" where
  "edit_hosts (EAddPrefix p algo hosts static) = set hosts"
| "edit_hosts (EAddHost p h) = {h}"
| "edit_hosts _ = {}"

lemma hosts_of_view: "shows_view px v \<Longrightarrow> h \<in> hosts_of px \<longleftrightarrow> (\<exists>p hs. v_hosts v p = Some hs \<and> h \<in> set hs)"
  by (auto simp: hosts_of_def ran_def shows_view_Paths)

lemma view_edit_hosts:
  assumes "view_edit e v = Some v'" "v_hosts v' p = Some hs'" "h \<in> set hs'"
  shows "h \<in> edit_hosts e \<or> (\<exists>q hs. v_hosts v q = Some hs \<and> h \<in> set hs)"
  using assms by (cases "(e, v)" rule: view_edit.cases) (fastforce split: if_splits option.splits dest: notin_set_remove1)+

lemma edit_hosts_of:
  assumes "shows_view px v" "view_edit e v = Some v'" "shows_view px' v'"
  shows "hosts_of px' \<subseteq> edit_hosts e \<union> hosts_of px"
  using view_edit_hosts[OF assms(2)] hosts_of_view[OF assms(1)] hosts_of_view[OF assms(3)] by blast

lemma edit_wf:
  assumes "proxy_wf H port px" "rr_edit e" "edit_hosts e \<subseteq> H" "edit_apply e px = Inr px'"
  shows "proxy_wf H port px'"
proof -
  from assms(1) obtain v where v: "shows_view px v" unfolding proxy_wf_def by blast
  have "\<exists>v'. view_edit e v = Some v' \<and> shows_view px' v'"
    using edit_simulates[OF v assms(2)] assms(4) by (auto split: option.splits)
  then have "(\<exists>v'. shows_view px' v') \<and> hosts_of px' \<subseteq> H" using edit_hosts_of[OF v] assms(1,3) unfolding proxy_wf_def by blast
  with edit_kept[OF assms(4)] assms(1) show ?thesis by (auto simp: proxy_wf_def kept_def)
qed

lemma edit_keeps: "rr_edit e \<Longrightarrow> edit_hosts e \<subseteq> H \<Longrightarrow> keeps_wf H (on_proxy port (edit_apply e))"
  by (rule on_proxy_wf) (rule edit_wf)

text \<open>Operations that leave the tables alone and free the lock.\<close>

lemma untouched_wf:
  assumes "proxy_wf H port px" "px_mu px' = unlocked" "px_Port px' = px_Port px" "px_PrefixerType px' = px_PrefixerType px"
    "px_prefixMapping px' = px_prefixMapping px" "px_StaticMapping px' = px_StaticMapping px" "px_Paths px' = px_Paths px"
    "px_BalancerType px' = px_BalancerType px"
  shows "proxy_wf H port px'"
  using assms by (auto simp: proxy_wf_def shows_view_def hosts_of_def)

lemma proxy_wf_mu: "proxy_wf H port px \<Longrightarrow> px_mu px = unlocked"
  by (auto simp: proxy_wf_def dest: shows_viewD(1))

lemma blacklist_wf:
  assumes "proxy_wf H port px"
  shows "AddBlackList ips px = Inr px' \<Longrightarrow> proxy_wf H port px'" "RemoveBlackList ips px = Inr px' \<Longrightarrow> proxy_wf H port px'"
  using proxy_wf_mu[OF assms]
  by (auto simp: AddBlackList_def RemoveBlackList_def go_bind_eq_Inr_iff intro!: untouched_wf[OF assms])

lemma state_wf:
  assumes "proxy_wf H port px"
  shows "px_Start px = Inr px' \<Longrightarrow> proxy_wf H port px'" "px_Stop px = Inr px' \<Longrightarrow> proxy_wf H port px'"
    "px_Close px = Inr px' \<Longrightarrow> proxy_wf H port px'"
  using proxy_wf_mu[OF assms]
  by (auto simp: px_Start_def px_Stop_def px_Close_def split: if_splits intro!: untouched_wf[OF assms])

text \<open>Setting a rate limit returns only where the limiter is there.\<close>

lemma SetRateLimit_wf:
  assumes "proxy_wf H port px" "SetRateLimit lib prefix path ty ini speed px = Inr px'"
  shows "proxy_wf H port px'"
proof (cases "px_rateLimiters px (compelete_url prefix path)")
  case None
  from SetRateLimit_cases(1)[OF proxy_wf_mu[OF assms(1)] None, of lib] assms(2) show ?thesis by simp
next
  case (Some l)
  with assms(2) proxy_wf_mu[OF assms(1)] show ?thesis
    by (auto simp: SetRateLimit_eq go_bind_eq_Inr_iff Let_def intro!: untouched_wf[OF assms(1)])
qed

lemma create_wf: "keeps_wf H (create_proxy env \<lparr>ha_Port = port, ha_PrefixerType = ty, ha_Paths = []\<rparr>)"
proof (cases "ty = TypeHashPrefixer")
  case True
  have "proxy_wf H port (fresh_proxy port\<lparr>px_serving := b\<rparr>)" for b
    unfolding proxy_wf_def by (intro conjI exI[of _ new_view] fresh_proxy_view) (simp_all add: fresh_proxy_def hosts_of_def)
  with True show ?thesis
    by (auto simp: keeps_wf_def create_fresh ctx_wf_def split: option.splits if_splits)
next
  case False
  then show ?thesis by (simp add: keeps_wf_def create_proxy_def NewHttpReverseProxy_def Prefixer_Build_def)
qed

lemma changeState_wf: "keeps_wf H (ctx_changeState port state)"
proof -
  have close: "keeps_wf H (on_proxy port px_Close)" by (intro on_proxy_wf) (rule state_wf(3))
  then have "keeps_wf H (ctx_Close port)" by (auto simp: keeps_wf_def ctx_Close_def go_bind_eq_Inr_iff)
  moreover have "keeps_wf H (on_proxy port (px_changeState state))" if "state = 1 \<or> state = 2"
    using that state_wf by (intro on_proxy_wf) (auto simp: px_changeState_def split: if_splits)
  ultimately show ?thesis by (auto simp: ctx_changeState_def keeps_wf_def)
qed

section \<open>Every step keeps the state well-formed\<close>

definition handled_wf :: "string set \<Rightarrow> ('l StateContext \<Rightarrow> 'l handled) \<Rightarrow> bool" where
  "handled_wf H h \<longleftrightarrow> (\<forall>ctx e ctx'. ctx_wf H ctx \<longrightarrow> h ctx = Inr (e, ctx') \<longrightarrow> ctx_wf H ctx')"

lemma handled_wfD: "handled_wf H h \<Longrightarrow> ctx_wf H ctx \<Longrightarrow> h ctx = Inr (e, ctx') \<Longrightarrow> ctx_wf H ctx'"
  by (auto simp: handled_wf_def)

lemma done_wf: "keeps_wf H f \<Longrightarrow> ctx_wf H ctx \<Longrightarrow> go_bind (f ctx) (\<lambda>c. Inr (None, c)) = Inr (e, ctx') \<Longrightarrow> ctx_wf H ctx'"
  by (auto simp: go_bind_eq_Inr_iff dest: keeps_wfD)

text \<open>A command that looks the proxy up, checks something and then acts.\<close>

lemma operations_keep:
  "algo \<noteq> TypeConsistenceHash \<Longrightarrow> length hosts < 2 ^ 63 \<Longrightarrow> set hosts \<subseteq> H \<Longrightarrow> keeps_wf H (on_proxy port (AddPrefix p algo hosts static))"
  "keeps_wf H (on_proxy port (RemovePrefix p))"
  "h \<in> H \<Longrightarrow> keeps_wf H (on_proxy port (AddHost p h))"
  "keeps_wf H (on_proxy port (RemoveHost p h))"
  "keeps_wf H (on_proxy port (changeStatic p))"
  "lb \<noteq> TypeConsistenceHash \<Longrightarrow> keeps_wf H (on_proxy port (changeLb p lb))"
  "keeps_wf H (on_proxy port (AddBlackList ips))"
  "keeps_wf H (on_proxy port (RemoveBlackList ips))"
  "keeps_wf H (on_proxy port (SetRateLimit lib p url ty ini speed))"
  unfolding proxy_ops_are_edits
  by (intro edit_keeps, simp, simp | intro on_proxy_wf, erule (1) blacklist_wf SetRateLimit_wf)+

lemma stand_command_wf:
  assumes "rr_command c" "command_hosts c \<subseteq> H" "ctx_wf H ctx" "command_run env Stand c ctx = Inr (e, ctx')"
  shows "ctx_wf H ctx'"
proof -
  note op = done_wf[OF _ assms(3)]
  show ?thesis
  proof (cases c)
    case (CAddProxy b)
    with assms(3,4) op[OF create_wf] show ?thesis by (auto simp: addHttpProxy_def split: option.splits)
  next
    case (CChangeState b)
    with assms(3,4) op[OF changeState_wf] show ?thesis by (auto simp: changeProxyAvailable_def split: option.splits)
  next
    case (CAddPrefix b)
    with assms op[OF operations_keep(1)] show ?thesis by (auto simp: addHttpProxyPrefix_def split: option.splits if_splits)
  next
    case (CRemovePrefix b)
    with assms op[OF operations_keep(2)] show ?thesis by (auto simp: removeHttpProxyPrefix_def split: option.splits if_splits)
  next
    case (CAddHost b)
    with assms op[OF operations_keep(3)] show ?thesis by (auto simp: addHttpProxyHost_def split: option.splits if_splits)
  next
    case (CRemoveHost b)
    with assms op[OF operations_keep(4)] show ?thesis by (auto simp: removeHttpProxyHost_def split: option.splits if_splits)
  next
    case (CAddBlackList b)
    with assms op[OF operations_keep(7)] show ?thesis by (auto simp: addBlackList_def split: option.splits)
  next
    case (CRemoveBlackList b)
    with assms op[OF operations_keep(8)] show ?thesis by (auto simp: removeBlackList_def split: option.splits)
  next
    case (CSetRate b)
    with assms op[OF operations_keep(9)] show ?thesis by (auto simp: setRateLimiter_def split: option.splits)
  next
    case (CChangeStatic b)
    with assms op[OF operations_keep(5)] show ?thesis by (auto simp: sm_changeStatic_def split: option.splits)
  next
    case (CChangeLb b)
    with assms op[OF operations_keep(6), of "hcl_Lb b" "hcl_Port b" "hcl_Prefix b"] show ?thesis
      by (auto simp: sm_changeLb_def go_bind_eq_Inr_iff[where m = "hp_GetBalancer _ _"] split: option.splits if_splits)
  qed
qed

lemma command_wf:
  assumes "commits env mode" "rr_command c" "command_hosts c \<subseteq> H"
  shows "handled_wf H (command_run env mode c)"
  unfolding handled_wf_def
proof (intro allI impI)
  fix ctx ctx' :: "'a StateContext" and e assume wf: "ctx_wf H ctx" and run: "command_run env mode c ctx = Inr (e, ctx')"
  show "ctx_wf H ctx'"
  proof (cases "\<forall>p. blacklist_port c = Some p \<longrightarrow> sc_List ctx p \<noteq> None")
    case True
    then have "command_run env mode c ctx = command_run env Stand c ctx"
      using cluster_commit[of env c ctx] assms(1) by (auto simp: commits_def)
    with stand_command_wf[OF assms(2,3) wf] run show ?thesis by simp
  next
    case False
    then obtain p where p: "blacklist_port c = Some p" "sc_List ctx p = None" by blast
    show ?thesis
    proof (cases "mode = Stand")
      case True
      with stand_command_wf[OF assms(2,3) wf] run show ?thesis by simp
    next
      case mode: False
      with assms(1) have m: "mode = Cluster" "gob_ok (env_gob env)" "env_raft env = RaftApplied" by (auto simp: commits_def)
      from blacklist_missing(1)[OF m(2,3) p] run m(1) show ?thesis by simp
    qed
  qed
qed

lemma drop_error_wf: "handled_wf H h \<Longrightarrow> ctx_wf H ctx \<Longrightarrow> drop_error (h ctx) = Inr ctx' \<Longrightarrow> ctx_wf H ctx'"
  by (auto simp: drop_error_def go_bind_eq_Inr_iff dest: handled_wfD)

lemma set_same_wf:
  assumes "ctx_wf H ctx" "sc_List ctx port = Some px" "GetHosts p px = Inr (hs, px')"
  shows "ctx_wf H (ctx\<lparr>sc_List := (sc_List ctx)(port \<mapsto> px')\<rparr>)"
proof -
  have wf: "proxy_wf H port px" using assms(1,2) by (simp add: ctx_wf_def)
  from assms(3) proxy_wf_mu[OF wf] have "proxy_wf H port px'" by (auto simp: GetHosts_def intro!: untouched_wf[OF wf])
  with assms(1) show ?thesis by (simp add: ctx_wf_def)
qed

lemma command_instances:
  assumes "commits env mode"
  shows "handled_wf H (removeHttpProxyHost env mode b)" "hph_Host b \<in> H \<Longrightarrow> handled_wf H (addHttpProxyHost env mode b)"
    "handled_wf H (removeHttpProxyPrefix env mode pb)" "handled_wf H (addHttpProxy env mode ab)"
    "app_BalanceType apb \<noteq> TypeConsistenceHash \<Longrightarrow> length (app_ProxyPass apb) < 2 ^ 63 \<Longrightarrow> set (app_ProxyPass apb) \<subseteq> H \<Longrightarrow>
      handled_wf H (addHttpProxyPrefix env mode apb)"
  using command_wf[OF assms, of "CRemoveHost b"] command_wf[OF assms, of "CAddHost b"]
    command_wf[OF assms, of "CRemovePrefix pb"] command_wf[OF assms, of "CAddProxy ab"] command_wf[OF assms, of "CAddPrefix apb"]
  by simp_all

lemma stale_wf:
  assumes "commits env mode" "ctx_wf H ctx" "remove_stale env mode port e hs ctx = Inr ctx'"
  shows "ctx_wf H ctx'"
  using assms(2,3)
proof (induction hs arbitrary: ctx)
  case (Cons h hs)
  from Cons.prems(2) obtain c where c: "(if h \<in> set (ev_Children e) then Inr ctx
      else drop_error (removeHttpProxyHost env mode (host_body port e h) ctx)) = Inr c" "remove_stale env mode port e hs c = Inr ctx'"
    by (auto simp: remove_stale_def go_bind_eq_Inr_iff)
  from c(1) Cons.prems(1) have "ctx_wf H c"
    by (auto split: if_splits dest: drop_error_wf[OF command_instances(1)[OF assms(1)]])
  with Cons.IH c(2) show ?case by blast
qed (simp add: remove_stale_def)

lemma drop_event_wf:
  assumes "commits env mode" "ctx_wf H ctx"
  shows "drop_error (removeHttpProxyHost env mode b ctx) = Inr ctx' \<Longrightarrow> ctx_wf H ctx'"
    "hph_Host b \<in> H \<Longrightarrow> drop_error (addHttpProxyHost env mode b ctx) = Inr ctx' \<Longrightarrow> ctx_wf H ctx'"
    "drop_error (removeHttpProxyPrefix env mode pb ctx) = Inr ctx' \<Longrightarrow> ctx_wf H ctx'"
    "app_BalanceType apb \<noteq> TypeConsistenceHash \<Longrightarrow> app_ProxyPass apb = [] \<Longrightarrow>
      drop_error (addHttpProxyPrefix env mode apb ctx) = Inr ctx' \<Longrightarrow> ctx_wf H ctx'"
  using drop_error_wf[OF command_instances(1)[OF assms(1)] assms(2)] drop_error_wf[OF command_instances(2)[OF assms(1)] assms(2)]
    drop_error_wf[OF command_instances(3)[OF assms(1)] assms(2)] drop_error_wf[OF command_instances(5)[OF assms(1)] assms(2)]
  by simp_all

lemma go_bind_InrE:
  assumes "go_bind m f = Inr y"
  obtains x where "m = Inr x" "f x = Inr y"
  using assms by (auto simp: go_bind_eq_Inr_iff)

lemma event_wf:
  assumes "commits env mode" "ctx_wf H ctx" "ev_Opt e = ADD_HOST \<longrightarrow> ev_Host e \<in> H" "handle_event env mode port e ctx = Inr ctx'"
  shows "ctx_wf H ctx'"
proof -
  note wf = drop_event_wf[OF assms(1,2)]
  have rr: "''round-robin'' \<noteq> TypeConsistenceHash" by (simp add: TypeConsistenceHash_def)
  show ?thesis
    using assms(2-4) unfolding handle_event_def
    by (auto split: if_splits option.splits elim!: go_bind_InrE intro: wf(1,3) wf(2)[rotated] wf(4)[rotated 2]
        stale_wf[OF assms(1) set_same_wf[OF assms(2)]] simp: rr host_body_def)
qed

lemma request_wf: "ctx_wf H ctx \<Longrightarrow> ctx_wf H (node_request env port av now r ctx)"
proof -
  assume wf: "ctx_wf H ctx"
  have "keeps_wf H (on_proxy port (\<lambda>px. go_bind (ServeHTTP (env_rate env) av now r px) (\<lambda>(res, px'). Inr px')))"
  proof (rule on_proxy_wf)
    fix px px' :: "'a HttpReverseProxy"
    assume px: "proxy_wf H port px" and "go_bind (ServeHTTP (env_rate env) av now r px) (\<lambda>(res, px'). Inr px') = Inr px'"
    then obtain res where "ServeHTTP (env_rate env) av now r px = Inr (res, px')" by (auto simp: go_bind_eq_Inr_iff)
    moreover from px obtain v where sv: "shows_view px v" unfolding proxy_wf_def by blast
    ultimately have "kept px px' \<and> shows_view px' v" by (intro ServeHTTP_keeps)
    moreover from this have "hosts_of px' = hosts_of px"
      using shows_view_Paths[of px v] shows_view_Paths[of px' v] sv by (simp add: hosts_of_def)
    ultimately show "proxy_wf H port px'" using px unfolding proxy_wf_def kept_def by auto
  qed
  from keeps_wfD[OF this wf] wf show "ctx_wf H (node_request env port av now r ctx)"
    by (auto simp: node_request_def split: sum.split)
qed

lemma ensure_wf:
  assumes "commits env mode" "ctx_wf H ctx" "ensure_proxy env mode port ctx = Inr (ok, ctx')"
  shows "ctx_wf H ctx'"
  using assms(3,2) handled_wfD[OF command_instances(4)[OF assms(1)] assms(2)]
  by (auto simp: ensure_proxy_def go_bind_eq_Inr_iff split: option.splits)

lemma register_wf:
  assumes "commits env mode" "rg_BalanceMode req \<noteq> TypeConsistenceHash" "rg_LocalAddr req \<in> H" "ctx_wf H ctx" "RegisterToProxy env mode req ctx = Inr (res, ctx')"
  shows "ctx_wf H ctx'"
proof -
  from assms(5) obtain ok ctx1 where ensure: "ensure_proxy env mode (rg_Port req) ctx = Inr (ok, ctx1)"
    and rest: "\<not> ok \<and> ctx' = ctx1 \<or> (\<exists>err. register_host env mode req ctx1 = Inr (err, ctx'))"
    by (auto simp: RegisterToProxy_def go_bind_eq_Inr_iff split: if_splits)
  have wf1: "ctx_wf H ctx1" by (rule ensure_wf[OF assms(1,4) ensure])
  have "ctx_wf H ctx'" if host: "register_host env mode req ctx1 = Inr (err, ctx')" for err
  proof -
    from host obtain ex ctx2 where ex: "prefix_exists (rg_Port req) (rg_Prefix req) ctx1 = Inr (ex, ctx2)"
      and act: "on_proxy (rg_Port req) (edit_apply (if \<not> ex
          then EAddPrefix (rg_Prefix req) (rg_BalanceMode req) [rg_LocalAddr req] (rg_Static req)
          else EAddHost (rg_Prefix req) (rg_LocalAddr req))) ctx2 = Inr ctx'"
      unfolding register_host_modes[OF assms(1)]
      by (auto simp: register_host_def go_bind_eq_Inr_iff proxy_ops_are_edits split: if_splits)
    from ex obtain px where px: "sc_List ctx1 (rg_Port req) = Some px" by (auto simp: prefix_exists_def split: option.splits)
    then obtain v where "shows_view px v" by (rule ctx_wf_view[OF wf1])
    from prefix_exists_view[OF px this] ex have "ctx2 = ctx1" by simp
    moreover have "rr_edit (if \<not> ex then EAddPrefix (rg_Prefix req) (rg_BalanceMode req) [rg_LocalAddr req] (rg_Static req)
          else EAddHost (rg_Prefix req) (rg_LocalAddr req))" "edit_hosts (if \<not> ex
          then EAddPrefix (rg_Prefix req) (rg_BalanceMode req) [rg_LocalAddr req] (rg_Static req)
          else EAddHost (rg_Prefix req) (rg_LocalAddr req)) \<subseteq> H" using assms(2,3) by simp_all
    ultimately show ?thesis using keeps_wfD[OF edit_keeps wf1] act by blast
  qed
  with rest wf1 show ?thesis by blast
qed

lemma cancel_wf:
  assumes "commits env mode" "ctx_wf H ctx" "rpc_Cancel env mode req ctx = Inr (res, ctx')"
  shows "ctx_wf H ctx'"
proof -
  from assms(3) obtain err ctx1 where
    1: "removeHttpProxyHost env mode \<lparr>hph_Port = cn_Port req, hph_Prefix = cn_Prefix req, hph_Host = cn_LocalAddr req\<rparr> ctx =
      Inr (err, ctx1)"
    and rest: "err \<noteq> None \<and> ctx' = ctx1 \<or> (\<exists>px hs px'. sc_List ctx1 (cn_Port req) = Some px \<and> GetHosts (cn_Prefix req) px = Inr (hs, px') \<and>
      (let ctx2 = ctx1\<lparr>sc_List := (sc_List ctx1)(cn_Port req \<mapsto> px')\<rparr>
       in ctx' = ctx2 \<or> (\<exists>e. removeHttpProxyPrefix env mode \<lparr>rpp_Port = cn_Port req, rpp_Prefix = cn_Prefix req\<rparr> ctx2 = Inr (e, ctx'))))"
    by (auto simp: rpc_Cancel_def go_bind_eq_Inr_iff Let_def split: option.splits if_splits)
  have wf1: "ctx_wf H ctx1" by (rule handled_wfD[OF command_instances(1)[OF assms(1)] assms(2) 1])
  from rest show ?thesis
  proof (elim disjE exE conjE)
    fix px hs px' assume px: "sc_List ctx1 (cn_Port req) = Some px" "GetHosts (cn_Prefix req) px = Inr (hs, px')"
      and r: "let ctx2 = ctx1\<lparr>sc_List := (sc_List ctx1)(cn_Port req \<mapsto> px')\<rparr>
       in ctx' = ctx2 \<or> (\<exists>e. removeHttpProxyPrefix env mode \<lparr>rpp_Port = cn_Port req, rpp_Prefix = cn_Prefix req\<rparr> ctx2 = Inr (e, ctx'))"
    from set_same_wf[OF wf1 px] r show ?thesis
      unfolding Let_def by (elim disjE exE) (simp, rule handled_wfD[OF command_instances(3)[OF assms(1)]])
  qed (use wf1 in simp)
qed

lemma balance_wf:
  assumes "ctx_wf H ctx" "rpc_LoadBalance req ctx = Inr (res, ctx')"
  shows "ctx_wf H ctx'"
proof (cases "sc_List ctx (lq_Port req)")
  case (Some px)
  with assms(2) obtain addr px' where px': "LoadBalance (lq_Prefix req) (lq_Fact req) px = Inr (addr, px')"
    "ctx' = ctx\<lparr>sc_List := (sc_List ctx)(lq_Port req \<mapsto> px')\<rparr>"
    by (auto simp: rpc_LoadBalance_def go_bind_eq_Inr_iff)
  obtain v where v: "proxy_wf H (lq_Port req) px" "shows_view px v" by (rule ctx_wf_view[OF assms(1) Some])
  from LoadBalance_simulates[OF v(2), of "lq_Prefix req" "lq_Fact req"] px'(1) have "shows_view px' v" by auto
  then have "shows_view px' v" "hosts_of px' = hosts_of px"
    using shows_view_Paths[OF v(2)] shows_view_Paths[of px' v] by (simp_all add: hosts_of_def)
  with LoadBalance_kept[OF px'(1)] v(1) have "proxy_wf H (lq_Port req) px'" by (auto simp: proxy_wf_def kept_def)
  with assms(1) px'(2) show ?thesis by (simp add: ctx_wf_def)
qed (use assms in \<open>simp add: rpc_LoadBalance_def\<close>)

end
