(* ===== verification/GatewayCalls.thy ===== *)
theory GatewayCalls
  imports GatewayState
begin

text \<open>
  What is done to a gateway from outside, call by call, and which calls return: exactly those that ask
  for something the tables of their proxy have. The others panic or wait for ever.
\<close>

section \<open>Calls\<close>

datatype gateway_call =
    GCommand command
  | GEvent int Event
  | GRegister RegisterToProxyReq
  | GCancel CancalReq
  | GBalance LoadBalanceReq
  | GRequest int bool int request
  | GDrained int

text \<open>The state a call leaves. A request that a proxy does not answer leaves the state it found.\<close>

fun gateway_run :: "('l, 'f) env \<Rightarrow> string \<Rightarrow> gateway_call \<Rightarrow> 'l StateContext \<Rightarrow> 'l StateContext go" where
  "gateway_run env mode (GCommand c) ctx = drop_error (command_run env mode c ctx)"
| "gateway_run env mode (GEvent port e) ctx = handle_event env mode port e ctx"
| "gateway_run env mode (GRegister req) ctx = go_bind (RegisterToProxy env mode req ctx) (\<lambda>(res, ctx'). Inr ctx')"
| "gateway_run env mode (GCancel req) ctx = go_bind (rpc_Cancel env mode req ctx) (\<lambda>(res, ctx'). Inr ctx')"
| "gateway_run env mode (GBalance req) ctx = go_bind (rpc_LoadBalance req ctx) (\<lambda>(res, ctx'). Inr ctx')"
| "gateway_run env mode (GRequest port peer_available now r) ctx = Inr (node_request env port peer_available now r ctx)"
| "gateway_run env mode (GDrained port) ctx = Inr (finish_shutdown port ctx)"

text \<open>The calls in view: no prefix is put on a consistent-hash ring, and only connections that were closing end.\<close>

fun rr_call :: "gateway_call \<Rightarrow> 'l StateContext \<Rightarrow> bool" where
  "rr_call (GCommand c) ctx = rr_command c"
| "rr_call (GRegister req) ctx = (rg_BalanceMode req \<noteq> TypeConsistenceHash)"
| "rr_call (GDrained port) ctx = (port \<in> set (sc_closing ctx))"
| "rr_call _ ctx = True"

fun call_hosts :: "gateway_call \<Rightarrow> string set" where
  "call_hosts (GCommand c) = command_hosts c"
| "call_hosts (GEvent port e) = (if ev_Opt e = ADD_HOST then {ev_Host e} else {})"
| "call_hosts (GRegister req) = {rg_LocalAddr req}"
| "call_hosts _ = {}"

section \<open>The calls that return\<close>

definition at_proxy :: "'l StateContext \<Rightarrow> int \<Rightarrow> ('l HttpReverseProxy \<Rightarrow> bool) \<Rightarrow> bool" where
  "at_proxy ctx port P = (case sc_List ctx port of None \<Rightarrow> True | Some px \<Rightarrow> P px)"

text \<open>
  A command needs: for a new proxy, the one kind of prefixer; for a new prefix, the algorithm
  round-robin; for a host, a prefix that is there; for black lists, a proxy (unless the node is alone)
  and a tree that takes the list; for a rate, a limiter made by a request before, and a speed; for a state
  other than 1 and 2, a proxy that serves.
\<close>

fun takes_command :: "string \<Rightarrow> command \<Rightarrow> 'l StateContext \<Rightarrow> bool" where
  "takes_command mode (CAddProxy b) ctx = (sc_List ctx (ahp_Port b) \<noteq> None \<or> ahp_PrefixType b = TypeHashPrefixer)"
| "takes_command mode (CChangeState b) ctx = at_proxy ctx (chs_Port b) (\<lambda>px.
     chs_State b = 1 \<or> chs_State b = 2 \<or> px_Shutdown px \<and> px_serving px)"
| "takes_command mode (CAddPrefix b) ctx = at_proxy ctx (app_Port b) (\<lambda>px.
     PrefixExists (app_Prefix b) px \<or> app_BalanceType b = TypeRoundRobin)"
| "takes_command mode (CRemovePrefix b) ctx = True"
| "takes_command mode (CAddHost b) ctx = at_proxy ctx (hph_Port b) (PrefixExists (hph_Prefix b))"
| "takes_command mode (CRemoveHost b) ctx = at_proxy ctx (hph_Port b) (PrefixExists (hph_Prefix b))"
| "takes_command mode (CAddBlackList b) ctx = (case sc_List ctx (hbl_Port b) of
     None \<Rightarrow> mode = Stand | Some px \<Rightarrow> \<not> isl (acl_add_all (hbl_Ips b) (px_Acl px)))"
| "takes_command mode (CRemoveBlackList b) ctx = (case sc_List ctx (hbl_Port b) of
     None \<Rightarrow> mode = Stand | Some px \<Rightarrow> \<not> isl (acl_remove_all (hbl_Ips b) (px_Acl px)))"
| "takes_command mode (CSetRate b) ctx = at_proxy ctx (hrl_Port b) (\<lambda>px.
     px_rateLimiters px (compelete_url (hrl_Prefix b) (hrl_Url b)) \<noteq> None \<and> hrl_Speed b \<noteq> 0)"
| "takes_command mode (CChangeStatic b) ctx = True"
| "takes_command mode (CChangeLb b) ctx = at_proxy ctx (hcl_Port b) (\<lambda>px.
     PrefixExists (hcl_Prefix b) px \<longrightarrow> hcl_Lb b = TypeRoundRobin)"

fun takes_call :: "string \<Rightarrow> gateway_call \<Rightarrow> 'l StateContext \<Rightarrow> bool" where
  "takes_call mode (GCommand c) ctx = takes_command mode c ctx"
| "takes_call mode (GEvent port e) ctx =
     (if ev_Opt e = ADD_HOST \<or> ev_Opt e = REMOVE_HOST then at_proxy ctx port (PrefixExists (service_prefix e))
      else if ev_Opt e = REMOVE_HOSTS then sc_List ctx port \<noteq> None
      else True)"
| "takes_call mode (GRegister req) ctx = (rg_BalanceMode req = TypeRoundRobin \<or>
     (\<exists>px. sc_List ctx (rg_Port req) = Some px \<and> PrefixExists (rg_Prefix req) px))"
| "takes_call mode (GCancel req) ctx = at_proxy ctx (cn_Port req) (PrefixExists (cn_Prefix req))"
| "takes_call mode _ ctx = True"

lemma at_proxy_simps [simp]:
  "sc_List ctx port = None \<Longrightarrow> at_proxy ctx port P"
  "sc_List ctx port = Some px \<Longrightarrow> at_proxy ctx port P = P px"
  by (simp_all add: at_proxy_def)


lemma isl_bind_Inr [simp]: "isl (go_bind m (\<lambda>x. Inr (f x))) = isl m"
  by (cases m) simp_all

lemma isl_bind_pair [simp]: "isl (go_bind m (\<lambda>(x, y). Inr (f x y))) = isl m"
  by (cases m) (simp_all add: split_beta)

lemma isl_drop_error [simp]: "isl (drop_error h) = isl h"
  by (simp add: drop_error_def)

lemma isl_on_proxy:
  "isl (on_proxy port f ctx) = (case sc_List ctx port of None \<Rightarrow> True | Some px \<Rightarrow> isl (f px))"
  by (auto simp: on_proxy_def split: option.split sum.split)


section \<open>Edits that return\<close>

fun takes_edit :: "edit \<Rightarrow> 'l HttpReverseProxy \<Rightarrow> bool" where
  "takes_edit (EAddPrefix p algo hosts static) px = (PrefixExists p px \<or> algo = TypeRoundRobin)"
| "takes_edit (EAddHost p h) px = PrefixExists p px"
| "takes_edit (ERemoveHost p h) px = PrefixExists p px"
| "takes_edit (EChangeLb p lb) px = (PrefixExists p px \<and> lb = TypeRoundRobin)"
| "takes_edit _ px = True"

lemma edit_returns:
  assumes "proxy_wf H port px" "rr_edit e"
  shows "isl (edit_apply e px) = (\<not> takes_edit e px)"
proof -
  from assms(1) obtain v where v: "shows_view px v" unfolding proxy_wf_def by blast
  have "(view_edit e v = None) = (\<not> takes_edit e px)"
    by (cases e) (simp_all add: PrefixExists_def shows_view_Paths[OF v] split: option.split)
  with edit_simulates[OF v assms(2)] show ?thesis by (cases "view_edit e v") auto
qed

lemma ctx_wfD: "ctx_wf H ctx \<Longrightarrow> sc_List ctx port = Some px \<Longrightarrow> proxy_wf H port px"
  by (simp add: ctx_wf_def)

lemma on_edit_returns:
  assumes "ctx_wf H ctx" "sc_List ctx port = Some px" "rr_edit e"
  shows "isl (on_proxy port (edit_apply e) ctx) = (\<not> takes_edit e px)"
  by (simp add: isl_on_proxy assms(2) edit_returns[OF ctx_wfD[OF assms(1,2)] assms(3)])

section \<open>Commands that return\<close>

lemma SetRate_returns:
  assumes "px_mu px = unlocked"
  shows "isl (SetRateLimit lib p url ty ini speed px) = (px_rateLimiters px (compelete_url p url) = None \<or> speed = 0)"
proof (cases "px_rateLimiters px (compelete_url p url)")
  case None
  with SetRateLimit_cases(1)[OF assms None, of lib] show ?thesis by simp
next
  case (Some l)
  with assms show ?thesis by (simp add: SetRateLimit_eq SetRate_def go_div_def Let_def)
qed

lemma changeState_returns:
  assumes "ctx_wf H ctx" "sc_List ctx port = Some px"
  shows "isl (ctx_changeState port state ctx) = (\<not> (state = 1 \<or> state = 2 \<or> px_Shutdown px \<and> px_serving px))"
  using proxy_wf_mu[OF ctx_wfD[OF assms]] assms(2)
  by (auto simp: ctx_changeState_def ctx_Close_def isl_on_proxy px_changeState_def px_Start_def px_Stop_def px_Close_def
      on_proxy_def)

lemma create_returns:
  assumes "ctx_wf H ctx"
  shows "isl (create_proxy env \<lparr>ha_Port = port, ha_PrefixerType = ty, ha_Paths = []\<rparr> ctx) = (ty \<noteq> TypeHashPrefixer)"
proof (cases "ty = TypeHashPrefixer")
  case True
  with create_fresh[of "\<lparr>ha_Port = port, ha_PrefixerType = ty, ha_Paths = []\<rparr>" ctx env] assms
  show ?thesis by (simp add: ctx_wf_def)
qed (simp add: create_proxy_def NewHttpReverseProxy_def Prefixer_Build_def)

lemma changeLb_returns:
  assumes "ctx_wf H ctx" "hcl_Lb b \<noteq> TypeConsistenceHash"
  shows "isl (sm_changeLb env Stand b ctx) = (\<not> takes_command Stand (CChangeLb b) ctx)"
proof (cases "sc_List ctx (hcl_Port b)")
  case None
  then show ?thesis by (simp add: sm_changeLb_def)
next
  case (Some px)
  then obtain v where v: "shows_view px v" by (rule ctx_wf_view[OF assms(1)])
  have edit: "isl (on_proxy (hcl_Port b) (changeLb (hcl_Prefix b) (hcl_Lb b)) ctx) =
      (\<not> (PrefixExists (hcl_Prefix b) px \<and> hcl_Lb b = TypeRoundRobin))"
    using on_edit_returns[OF assms(1) Some, of "EChangeLb (hcl_Prefix b) (hcl_Lb b)"] assms(2)
    unfolding proxy_ops_are_edits by simp
  show ?thesis
  proof (cases "v_hosts v (hcl_Prefix b)")
    case None
    with Some shows_viewD(2)[OF v] shows_view_mapping_None[OF v, of "hcl_Prefix b"] show ?thesis
      by (simp add: sm_changeLb_def hp_GetBalancer_def PrefixExists_def shows_view_Paths[OF v])
  next
    case hs: (Some hs)
    from shows_view_balancer[OF v hs] obtain r where r: "hp_Mapping (px_prefixMapping px) (hcl_Prefix b) = Some (RR r)" .
    have there: "PrefixExists (hcl_Prefix b) px" by (simp add: PrefixExists_def shows_view_Paths[OF v] hs)
    show ?thesis
      using Some r shows_viewD(2)[OF v] edit there by (simp add: sm_changeLb_def hp_GetBalancer_def rr_Mode_def TypeRoundRobin_def)
  qed
qed

lemma blacklists_return:
  assumes "ctx_wf H ctx" "sc_List ctx port = Some px"
  shows "isl (on_proxy port (AddBlackList ips) ctx) = isl (acl_add_all ips (px_Acl px))"
    "isl (on_proxy port (RemoveBlackList ips) ctx) = isl (acl_remove_all ips (px_Acl px))"
  using proxy_wf_mu[OF ctx_wfD[OF assms]] by (simp_all add: isl_on_proxy assms(2) AddBlackList_def RemoveBlackList_def)

lemma HostExists_prefix: "HostExists p h px \<Longrightarrow> PrefixExists p px"
  by (cases "px_Paths px p") (simp_all add: HostExists_def PrefixExists_def map_get_def)

lemma stand_command_returns:
  assumes "ctx_wf H ctx" "rr_command c"
  shows "isl (command_run env Stand c ctx) = (\<not> takes_command Stand c ctx)"
proof (cases c)
  case (CChangeLb b)
  with changeLb_returns[OF assms(1)] assms(2) show ?thesis by simp
next
  case (CAddProxy b)
  with create_returns[OF assms(1), of env] show ?thesis by (simp add: addHttpProxy_def split: option.split)
next
  case (CChangeState b)
  with changeState_returns[OF assms(1)] show ?thesis by (simp add: changeProxyAvailable_def split: option.split)
next
  case (CSetRate b)
  with SetRate_returns[OF proxy_wf_mu[OF ctx_wfD[OF assms(1)]], of _ _ "env_rate env"] show ?thesis
    by (auto simp: setRateLimiter_def isl_on_proxy split: option.split)
next
  case (CAddBlackList b)
  with blacklists_return(1)[OF assms(1)] show ?thesis by (simp add: addBlackList_def split: option.split)
next
  case (CRemoveBlackList b)
  with blacklists_return(2)[OF assms(1)] show ?thesis by (simp add: removeBlackList_def split: option.split)
next
  case (CAddPrefix b)
  with on_edit_returns[OF assms(1), of _ _ "EAddPrefix (app_Prefix b) (app_BalanceType b) (app_ProxyPass b) (app_Static b)"] assms(2)
  show ?thesis by (auto simp: addHttpProxyPrefix_def proxy_ops_are_edits split: option.split)
next
  case (CRemovePrefix b)
  with on_edit_returns[OF assms(1), of _ _ "ERemovePrefix (rpp_Prefix b)"] show ?thesis
    by (auto simp: removeHttpProxyPrefix_def proxy_ops_are_edits split: option.split)
next
  case (CAddHost b)
  with on_edit_returns[OF assms(1), of _ _ "EAddHost (hph_Prefix b) (hph_Host b)"] show ?thesis
    by (auto simp: addHttpProxyHost_def proxy_ops_are_edits dest: HostExists_prefix split: option.split)
next
  case (CRemoveHost b)
  with on_edit_returns[OF assms(1), of _ _ "ERemoveHost (hph_Prefix b) (hph_Host b)"] show ?thesis
    by (auto simp: removeHttpProxyHost_def proxy_ops_are_edits dest: HostExists_prefix split: option.split)
next
  case (CChangeStatic b)
  with on_edit_returns[OF assms(1), of _ _ "EChangeStatic (hcs_Prefix b)"] show ?thesis
    by (auto simp: sm_changeStatic_def proxy_ops_are_edits split: option.split)
qed

lemma command_returns:
  assumes "commits env mode" "ctx_wf H ctx" "rr_command c"
  shows "isl (command_run env mode c ctx) = (\<not> takes_command mode c ctx)"
proof (cases "mode = Stand")
  case True
  with stand_command_returns[OF assms(2,3)] show ?thesis by simp
next
  case False
  with assms(1) have m: "mode = Cluster" "gob_ok (env_gob env)" "env_raft env = RaftApplied" by (auto simp: commits_def)
  show ?thesis
  proof (cases "\<forall>p. blacklist_port c = Some p \<longrightarrow> sc_List ctx p \<noteq> None")
    case True
    then have "takes_command mode c ctx = takes_command Stand c ctx" by (cases c) (auto split: option.split)
    with stand_command_returns[OF assms(2,3), of env] cluster_commit[OF m(2,3) True] m(1) show ?thesis by simp
  next
    case False
    then obtain p where p: "blacklist_port c = Some p" "sc_List ctx p = None" by blast
    then have "\<not> takes_command mode c ctx" using m(1) by (cases c) simp_all
    with blacklist_missing(1)[OF m(2,3) p] m(1) show ?thesis by simp
  qed
qed

section \<open>The other calls that return\<close>

lemma event_returns:
  assumes "commits env mode" "ctx_wf H ctx"
  shows "isl (handle_event env mode port e ctx) = (\<not> takes_call mode (GEvent port e) ctx)"
proof (cases "sc_List ctx port")
  case None
  then show ?thesis by (simp add: discovery_needs_proxy event_opts)
next
  case (Some px)
  then obtain v where v: "shows_view px v" by (rule ctx_wf_view[OF assms(2)])
  have "(view_event e v = None) = (\<not> takes_call mode (GEvent port e) ctx)"
    by (simp add: Some view_event_def event_opts Let_def PrefixExists_def shows_view_Paths[OF v] split: option.split)
  with handle_event_simulates[OF assms(1) Some v, of e] show ?thesis by (cases "view_event e v") (auto simp: event_done_def)
qed

lemma register_returns:
  assumes "commits env mode" "ctx_wf H ctx" "rg_BalanceMode req \<noteq> TypeConsistenceHash"
  shows "isl (RegisterToProxy env mode req ctx) = (\<not> takes_call mode (GRegister req) ctx)"
proof -
  obtain v where v: "port_shows ctx (rg_Port req) v"
    by (cases "sc_List ctx (rg_Port req)") (auto simp: port_shows_def elim: ctx_wf_view[OF assms(2)])
  have mu: "sc_mu ctx = unlocked" using assms(2) by (simp add: ctx_wf_def)
  from ensure_proxy_ok[OF assms(1) mu v] obtain ctx1 px where
    1: "ensure_proxy env mode (rg_Port req) ctx = Inr (True, ctx1)" "sc_List ctx1 (rg_Port req) = Some px" "shows_view px v" by blast
  let ?new = "v_hosts v (rg_Prefix req) = None"
  let ?e = "if ?new then EAddPrefix (rg_Prefix req) (rg_BalanceMode req) [rg_LocalAddr req] (rg_Static req)
    else EAddHost (rg_Prefix req) (rg_LocalAddr req)"
  have "rr_edit ?e" using assms(3) by simp
  note sim = edit_simulates[OF 1(3) this]
  have "isl (RegisterToProxy env mode req ctx) = isl (register_host env Stand req ctx1)"
    unfolding register_host_modes[OF assms(1), symmetric] by (simp add: RegisterToProxy_def 1(1))
  also have "\<dots> = isl (on_proxy (rg_Port req) (edit_apply ?e) ctx1)"
    unfolding register_host_def prefix_exists_view[OF 1(2,3)] proxy_ops_are_edits by simp
  also have "\<dots> = (view_edit ?e v = None)"
    using sim by (cases "view_edit ?e v") (auto simp: isl_on_proxy 1(2))
  also have "\<dots> = (?new \<and> rg_BalanceMode req \<noteq> TypeRoundRobin)" by (simp split: option.split)
  also have "\<dots> = (\<not> takes_call mode (GRegister req) ctx)"
    using v by (cases "sc_List ctx (rg_Port req)")
      (auto simp: port_shows_def new_view_def PrefixExists_def shows_view_Paths)
  finally show ?thesis .
qed

lemma cancel_returns:
  assumes "commits env mode" "ctx_wf H ctx"
  shows "isl (rpc_Cancel env mode req ctx) = (\<not> takes_call mode (GCancel req) ctx)"
proof (cases "sc_List ctx (cn_Port req)")
  case None
  then show ?thesis by (simp add: rpc_Cancel_def removeHttpProxyHost_def)
next
  case (Some px)
  then obtain v where v: "shows_view px v" by (rule ctx_wf_view[OF assms(2)])
  with Some registered_service_cannot_cancel[OF assms(1) Some v] show ?thesis
    by (cases "v_hosts v (cn_Prefix req)") (auto simp: PrefixExists_def shows_view_Paths[OF v] split: if_splits)
qed

lemma balance_returns:
  assumes "ctx_wf H ctx"
  shows "\<not> isl (rpc_LoadBalance req ctx)"
proof (cases "sc_List ctx (lq_Port req)")
  case (Some px)
  then obtain v where "shows_view px v" by (rule ctx_wf_view[OF assms])
  from LoadBalance_simulates[OF this, of "lq_Prefix req" "lq_Fact req"] Some show ?thesis by (auto simp: rpc_LoadBalance_def)
qed (simp add: rpc_LoadBalance_def)


text \<open>A call returns exactly when the gateway can take it.\<close>

lemma call_returns:
  assumes "commits env mode" "ctx_wf H ctx" "rr_call call ctx"
  shows "isl (gateway_run env mode call ctx) = (\<not> takes_call mode call ctx)"
  using assms command_returns[OF assms(1,2)] event_returns[OF assms(1,2)] register_returns[OF assms(1,2)]
    cancel_returns[OF assms(1,2)] balance_returns[OF assms(2)]
  by (cases call) simp_all

end
