(* ===== verification/Gateway.thy ===== *)
theory Gateway
  imports GatewayCalls
begin

text \<open>
  The gateway as a whole: the state is changed by the commands of operators, by services that register,
  cancel and ask, by the events of discovery, by requests and by the ends of old connections, in any
  order. What holds of every state that is reached so, with prefixes balanced round-robin and by calls the
  gateway can take. What the other calls leave, \<open>AddPrefix_leaves\<close> and \<open>SetRateLimit_leaves\<close> show.
\<close>

section \<open>Steps\<close>

text \<open>The steps in which operators, services and discovery bring in hosts of \<open>H\<close> only.\<close>

inductive gateway_step :: "('l, 'f) env \<Rightarrow> string \<Rightarrow> string set \<Rightarrow> 'l StateContext \<Rightarrow> 'l StateContext \<Rightarrow> bool" for env mode H where
  Call: "rr_call call ctx \<Longrightarrow> takes_call mode call ctx \<Longrightarrow> call_hosts call \<subseteq> H \<Longrightarrow> gateway_run env mode call ctx = Inr ctx' \<Longrightarrow>
    gateway_step env mode H ctx ctx'"

inductive gateway_reachable :: "('l, 'f) env \<Rightarrow> string \<Rightarrow> string set \<Rightarrow> 'l StateContext \<Rightarrow> bool" for env mode H where
  Start: "gateway_reachable env mode H NewStateContext"
| Step: "gateway_reachable env mode H ctx \<Longrightarrow> gateway_step env mode H ctx ctx' \<Longrightarrow> gateway_reachable env mode H ctx'"

inductive_cases gateway_stepE: "gateway_step env mode H ctx ctx'"

section \<open>Preservation and progress\<close>

lemma gateway_run_wf:
  assumes "commits env mode" "ctx_wf H ctx" "rr_call call ctx" "call_hosts call \<subseteq> H" "gateway_run env mode call ctx = Inr ctx'"
  shows "ctx_wf H ctx'"
proof (cases call)
  case (GCommand c)
  with assms(3-5) drop_error_wf[OF command_wf[OF assms(1)] assms(2)] show ?thesis by simp
next
  case (GEvent port e)
  with assms(4,5) have "ev_Opt e = ADD_HOST \<longrightarrow> ev_Host e \<in> H" "handle_event env mode port e ctx = Inr ctx'" by auto
  from event_wf[OF assms(1,2) this] show ?thesis .
next
  case (GRegister req)
  with assms(3-5) register_wf[OF assms(1)] assms(2) show ?thesis by (auto simp: go_bind_eq_Inr_iff)
next
  case (GCancel req)
  with assms(5) cancel_wf[OF assms(1,2)] show ?thesis by (auto simp: go_bind_eq_Inr_iff)
next
  case (GBalance req)
  with assms(5) balance_wf[OF assms(2)] show ?thesis by (auto simp: go_bind_eq_Inr_iff)
next
  case (GRequest port av now r)
  with assms(5) request_wf[OF assms(2)] show ?thesis by auto
next
  case (GDrained port)
  with assms(5) have "ctx' = finish_shutdown port ctx" by simp
  with assms(2) show ?thesis by (simp add: finish_shutdown_def ctx_wf_def)
qed

lemma reachable_wf: "gateway_reachable env mode H ctx \<Longrightarrow> commits env mode \<Longrightarrow> ctx_wf H ctx"
proof (induction rule: gateway_reachable.induct)
  case Start
  show ?case by (simp add: ctx_wf_def NewStateContext_def)
next
  case (Step ctx ctx')
  then show ?case by (auto elim!: gateway_stepE intro: gateway_run_wf)
qed

lemma reachable_call:
  assumes "gateway_reachable env mode H ctx" "rr_call call ctx" "takes_call mode call ctx" "call_hosts call \<subseteq> H"
    "gateway_run env mode call ctx = Inr ctx'"
  shows "gateway_reachable env mode H ctx'"
  using assms(1) gateway_step.Call[OF assms(2-5)] by (rule gateway_reachable.Step)

section \<open>What holds in every reachable state\<close>

text \<open>
  C5: in every state that calls the gateway can take lead to from the empty gateway, as long as commands
  are committed and no prefix is put on a consistent-hash ring: no lock is left held, every proxy stands
  under its own port, its tables of balancers, hosts and algorithms agree, and its hosts are ones that
  were named. There a call returns exactly when it is one the gateway can take (\<open>takes_call\<close>: no algorithm
  or prefixer nobody knows, hosts for prefixes that are there, rates for paths that were asked for, no speed
  0, black lists the tree takes), and then the next state is such a state again.
\<close>

theorem reachable_states_wf:
  assumes "gateway_reachable env mode H ctx" "commits env mode"
  shows "ctx_wf H ctx \<and>
    (\<forall>call. rr_call call ctx \<and> call_hosts call \<subseteq> H \<longrightarrow>
      (case gateway_run env mode call ctx of
         Inl fault \<Rightarrow> \<not> takes_call mode call ctx
       | Inr ctx' \<Rightarrow> takes_call mode call ctx \<and> gateway_reachable env mode H ctx'))"
proof (intro conjI allI impI)
  show wf: "ctx_wf H ctx" using assms by (rule reachable_wf)
  fix call assume call: "rr_call call ctx \<and> call_hosts call \<subseteq> H"
  then have "isl (gateway_run env mode call ctx) = (\<not> takes_call mode call ctx)" using call_returns[OF assms(2) wf] by blast
  then show "case gateway_run env mode call ctx of
         Inl fault \<Rightarrow> \<not> takes_call mode call ctx
       | Inr ctx' \<Rightarrow> takes_call mode call ctx \<and> gateway_reachable env mode H ctx'"
    using reachable_call[OF assms(1) _ _ conjunct2[OF call]] conjunct1[OF call]
    by (cases "gateway_run env mode call ctx") auto
qed

theorem reachable_states_wf_witness:
  "\<exists>ctx :: bucket StateContext. gateway_reachable (example_env RaftApplied) Cluster {''10.0.0.1:80''} ctx \<and>
    sc_List ctx 9000 \<noteq> None \<and> ctx_wf {''10.0.0.1:80''} ctx \<and>
    (\<exists>ctx'. gateway_run (example_env RaftApplied) Cluster (GRegister example_register) ctx = Inr ctx' \<and>
      gateway_reachable (example_env RaftApplied) Cluster {''10.0.0.1:80''} ctx')"
proof -
  let ?run = "gateway_run (example_env RaftApplied) Cluster (GRegister example_register) :: bucket StateContext \<Rightarrow> _"
    and ?reach = "gateway_reachable (example_env RaftApplied) Cluster {''10.0.0.1:80''}"
  from example_registered obtain ctx and px :: "bucket HttpReverseProxy" where
    reg: "RegisterToProxy (example_env RaftApplied) Cluster example_register NewStateContext = Inr (Success_Res, ctx)"
    "sc_List ctx 9000 = Some px" by blast
  have call: "rr_call (GRegister example_register) c" "takes_call Cluster (GRegister example_register) c"
    "call_hosts (GRegister example_register) \<subseteq> {''10.0.0.1:80''}" for c :: "bucket StateContext"
    by (simp_all add: TypeRoundRobin_def TypeConsistenceHash_def)
  have "?run NewStateContext = Inr ctx" using reg(1) by simp
  then have r: "?reach ctx" by (rule reachable_call[OF gateway_reachable.Start call])
  from reachable_states_wf[OF r example_commits] have wf: "ctx_wf {''10.0.0.1:80''} ctx"
    and again: "case ?run ctx of Inl fault \<Rightarrow> \<not> takes_call Cluster (GRegister example_register) ctx
      | Inr ctx' \<Rightarrow> takes_call Cluster (GRegister example_register) ctx \<and> ?reach ctx'"
    using call by blast+
  from again call(2)[of ctx] obtain ctx' where "?run ctx = Inr ctx'" "?reach ctx'" by (cases "?run ctx") auto
  with r wf reg(2) show ?thesis by blast
qed

text \<open>The round robin picks a host of its slice, whatever its counter is and however long the slice.\<close>

lemma rr_index_bound: "0 < n \<Longrightarrow> unat (i mod of_nat n :: 64 word) < n"
proof (cases "(of_nat n :: 64 word) = 0")
  case True
  assume "0 < n"
  with True have "2 ^ 64 \<le> n" by (auto simp: word_of_nat_eq_0_iff dvd_imp_le)
  moreover have "unat i < 2 ^ LENGTH(64)" by (rule unsigned_less)
  ultimately show ?thesis using True by simp
next
  case False
  then have "unat (i mod of_nat n) < unat (of_nat n :: 64 word)" by (simp add: unat_mod unat_gt_0)
  also have "\<dots> \<le> n" by (simp add: unat_of_nat)
  finally show ?thesis .
qed

lemma view_mapping_picks:
  assumes "shows_view px v" "hp_match (hp_Mapping (px_prefixMapping px)) path = (q, n)" "v_hosts v q = Some hs" "hs \<noteq> []"
  obtains host pm where "MappingPath path r (px_prefixMapping px) = Inr (Inr (q, drop n path, host @ drop n path), pm)"
    "host \<in> set hs"
proof -
  from shows_view_balancer[OF assms(1,3)] obtain rr where
    rr: "hp_Mapping (px_prefixMapping px) q = Some (RR rr)" "rr_mu rr = unlocked" "rr_hosts rr = hs" .
  let ?host = "hs ! unat (rr_idx rr mod of_nat (length hs))"
  have "?host \<in> set hs" using rr_index_bound[of "length hs"] assms(4) by simp
  moreover obtain rr' where "rr_Balance rr '''' r = Inr (Inr ?host, rr')"
    using rr(2,3) assms(4) by (simp add: rr_Balance_def Let_def)
  ultimately show thesis
    using that hp_match_bound[OF assms(2)] assms(2) rr(1) shows_viewD(2)[OF assms(1)]
    by (simp add: MappingPath_def Let_def)
qed

lemma view_mapping_returns:
  assumes "shows_view px v" "hp_match (hp_Mapping (px_prefixMapping px)) path = (q, n)"
  shows "\<exists>res pm. MappingPath path r (px_prefixMapping px) = Inr (res, pm) \<and>
    (\<forall>p rest real. res = Inr (p, rest, real) \<longrightarrow> (\<exists>hs host. v_hosts v q = Some hs \<and> host \<in> set hs \<and>
       rest = drop n path \<and> real = host @ rest))"
proof (cases "v_hosts v q")
  case None
  with shows_view_mapping_None[OF assms(1), of q] have "hp_Mapping (px_prefixMapping px) q = None" by simp
  with assms(2) shows_viewD(2)[OF assms(1)] show ?thesis by (simp add: MappingPath_def)
next
  case (Some hs)
  from shows_view_balancer[OF assms(1) Some] obtain rr where
    rr: "hp_Mapping (px_prefixMapping px) q = Some (RR rr)" "rr_mu rr = unlocked" "rr_hosts rr = hs" .
  show ?thesis
  proof (cases "hs = []")
    case True
    with assms(2) rr shows_viewD(2)[OF assms(1)] show ?thesis by (simp add: MappingPath_def Let_def rr_Balance_def)
  next
    case False
    from view_mapping_picks[OF assms Some False, of r] Some show ?thesis by fastforce
  qed
qed

lemma check_rate_returns:
  assumes "px_mu px = unlocked"
  shows "\<exists>err px'. check_rate lib now prefix path px = Inr (err, px')"
proof (cases "px_rateLimiters px (compelete_url prefix path)")
  case None
  with assms show ?thesis by (simp add: check_rate_def createRateLimiter_default Let_def split_beta)
next
  case (Some l)
  then show ?thesis by (simp add: check_rate_def Let_def split_beta)
qed

text \<open>What a proxy answers to a request the access list lets through.\<close>

definition routed :: "response \<Rightarrow> bool" where
  "routed res \<longleftrightarrow> (case res of Response code text \<Rightarrow> code = 200 | Proxied fw \<Rightarrow> True)"

lemma forward_routed: "routed (forwardToSpecficPath r path)"
  by (simp add: routed_def forwardToSpecficPath_def Let_def split: option.split)

lemma forward_method: "forwardToSpecficPath r raw = Proxied fw \<Longrightarrow> fw_Method fw = r_method r"
  by (auto simp: forwardToSpecficPath_def Let_def split: option.splits)

lemma proxied_came_from:
  assumes "ServeHTTP lib av now r px = Inr (Proxied fw, px')"
  obtains p rest real pm where "MappingPath (r_path r) (Some r) (px_prefixMapping px) = Inr (Inr (p, rest, real), pm)"
    "forwardToSpecficPath r real = Proxied fw"
proof -
  from assms obtain mres pm where
    mp: "MappingPath (r_path r) (Some r) (px_prefixMapping px) = Inr (mres, pm)"
    and rest: "(case mres of Inl err \<Rightarrow> Inr (Response 200 (prefix_error_text err), px\<lparr>px_prefixMapping := pm\<rparr>)
      | Inr (prefix, apiPath, realPath) \<Rightarrow>
          go_bind (check_rate lib now prefix apiPath (px\<lparr>px_prefixMapping := pm\<rparr>)) (\<lambda>(err, proxy2).
            case err of Some e \<Rightarrow> Inr (Response 200 (limiter_error_text e), proxy2)
            | None \<Rightarrow> Inr (forwardToSpecficPath r realPath, proxy2))) = Inr (Proxied fw, px')"
    by (auto simp: ServeHTTP_def go_bind_eq_Inr_iff Let_def split: if_splits)
  from rest obtain y where y: "mres = Inr y" by (cases mres) auto
  obtain p apiPath real where "y = (p, apiPath, real)" by (cases y)
  with y mp rest show thesis by (intro that[of p apiPath real pm]) (auto simp: go_bind_eq_Inr_iff split: option.splits)
qed

lemma view_serves:
  assumes "shows_view px v" "px_Available px" "AccessControl (px_Acl px) (RemoteIp r) = Inr False"
  shows "\<exists>res px'. ServeHTTP lib True now r px = Inr (res, px') \<and> routed res"
proof -
  obtain mres pm where mp: "MappingPath (r_path r) (Some r) (px_prefixMapping px) = Inr (mres, pm)"
    using view_mapping_returns[OF assms(1)] by (metis surj_pair)
  show ?thesis
  proof (cases mres)
    case (Inl e)
    with mp assms(2,3) show ?thesis by (simp add: ServeHTTP_def routed_def)
  next
    case (Inr y)
    obtain prefix path real where y: "y = (prefix, path, real)" by (cases y)
    have "px_mu (px\<lparr>px_prefixMapping := pm\<rparr>) = unlocked" using shows_viewD(1)[OF assms(1)] by simp
    from check_rate_returns[OF this] obtain err px' where
      "check_rate lib now prefix path (px\<lparr>px_prefixMapping := pm\<rparr>) = Inr (err, px')" by blast
    with mp Inr y assms(2,3) show ?thesis
      by (cases err) (simp_all add: ServeHTTP_def forward_routed, simp add: routed_def)
  qed
qed

text \<open>
  C6: in every state that calls the gateway can take lead to (committed, prefixes round-robin, no rate for
  a path nobody asked for), every request to a proxy is answered once the access list has looked at the
  client: 404 when the proxy or the node is not available, 403 when the client is forbidden, and otherwise
  a text with status 200 or the request passed on to a host. There no request waits for a lock for ever.
\<close>

theorem reachable_request_answered:
  assumes "gateway_reachable env mode H ctx" "commits env mode" "sc_List ctx port = Some px"
    "AccessControl (px_Acl px) (RemoteIp r) = Inr forbidden"
  shows "\<exists>res px'. ServeHTTP (env_rate env) peer_available now r px = Inr (res, px') \<and>
    (if \<not> px_Available px \<or> \<not> peer_available then res = Response 404 ''''
     else if forbidden then res = Response 403 ForbiddenAccessSystem
     else routed res)"
proof -
  obtain v where v: "shows_view px v" by (rule ctx_wf_view[OF reachable_wf[OF assms(1,2)] assms(3)])
  show ?thesis
  proof (cases "px_Available px \<and> peer_available \<and> \<not> forbidden")
    case True
    with view_serves[OF v, of r "env_rate env" now] assms(4) show ?thesis by auto
  next
    case False
    with assms(4) show ?thesis by (auto simp: ServeHTTP_def)
  qed
qed

text \<open>Where a request that is passed on goes to.\<close>

lemma view_forwards:
  assumes "shows_view px v" "\<forall>h \<in> hosts_of px. backend h" "r_path r = CHR ''/'' # s"
    "ServeHTTP lib av now r px = Inr (Proxied fw, px')"
  shows "\<exists>p hs. v_hosts v p = Some hs \<and> fw_Host fw \<in> set hs \<and> (\<exists>q. r_path r = q @ fw_Path fw) \<and>
    fw_Method fw = r_method r"
proof -
  obtain q n where qn: "hp_match (hp_Mapping (px_prefixMapping px)) (r_path r) = (q, n)" by (meson surj_pair)
  from view_mapping_returns[OF assms(1) qn, of "Some r"] obtain mres pm where
    mp: "MappingPath (r_path r) (Some r) (px_prefixMapping px) = Inr (mres, pm)"
    and picked: "\<And>p rest real. mres = Inr (p, rest, real) \<Longrightarrow> \<exists>hs host. v_hosts v q = Some hs \<and> host \<in> set hs \<and>
       rest = drop n (r_path r) \<and> real = host @ rest" by blast
  from proxied_came_from[OF assms(4)] mp obtain p rest real where
    m: "mres = Inr (p, rest, real)" and fw: "forwardToSpecficPath r real = Proxied fw" by (metis Inr_inject prod.inject)
  from picked[OF m] obtain hs host where h: "v_hosts v q = Some hs" "host \<in> set hs" "rest = drop n (r_path r)" "real = host @ rest"
    by blast
  then have "backend host" using assms(2) hosts_of_view[OF assms(1)] by blast
  moreover have "rest = [] \<or> (\<exists>t. rest = CHR ''/'' # t)" unfolding h(3) by (rule match_route(2)[OF assms(3) qn])
  ultimately have "fw_Host fw = host" "fw_Path fw = rest" using forward_backend[of host rest r] fw h(4) by auto
  with h forward_method[OF fw] show ?thesis by (metis append_take_drop_id)
qed

text \<open>
  C7: the gateway passes requests on to nobody else: after any calls it can take, with prefixes balanced
  round-robin, commands committed and hosts that are texts of a host and a port, a request that is passed on
  goes to a host that an operator, a service or discovery has named, with the end of its own path and its
  method.
\<close>

theorem requests_go_to_named_hosts:
  assumes "gateway_reachable env mode H ctx" "commits env mode" "\<forall>h \<in> H. backend h" "sc_List ctx port = Some px"
    "r_path r = CHR ''/'' # s" "ServeHTTP (env_rate env) peer_available now r px = Inr (Proxied fw, px')"
  shows "fw_Host fw \<in> H \<and> (\<exists>q. r_path r = q @ fw_Path fw) \<and> fw_Method fw = r_method r"
proof -
  obtain v where v: "shows_view px v" "hosts_of px \<subseteq> H" by (rule ctx_wf_view[OF reachable_wf[OF assms(1,2)] assms(4)])
  with assms(3) have "\<forall>h \<in> hosts_of px. backend h" by blast
  from view_forwards[OF v(1) this assms(5,6)] v hosts_of_view[OF v(1)] show ?thesis by blast
qed

text \<open>A cluster whose only command so far made the proxy of port 9000.\<close>

definition one_proxy :: "bucket StateContext" where
  "one_proxy = NewStateContext\<lparr>sc_List := [9000 \<mapsto> fresh_proxy 9000\<lparr>px_serving := env_listen (example_env RaftApplied) 9000\<rparr>]\<rparr>"

lemma one_proxy_reachable: "gateway_reachable (example_env RaftApplied) Cluster H one_proxy"
proof -
  let ?b = "\<lparr>ahp_Port = 9000, ahp_PrefixType = ''hash-prefixer''\<rparr>"
  have "command_run (example_env RaftApplied) Cluster (CAddProxy ?b) NewStateContext =
      command_run (example_env RaftApplied) Stand (CAddProxy ?b) NewStateContext"
    by (rule commits_stand[OF example_commits]) simp
  also have "\<dots> = Inr (None, one_proxy)"
    using create_fresh[of "\<lparr>ha_Port = 9000, ha_PrefixerType = ''hash-prefixer'', ha_Paths = []\<rparr>" NewStateContext "example_env RaftApplied"]
    by (simp add: addHttpProxy_def TypeHashPrefixer_def NewStateContext_def one_proxy_def)
  finally have "gateway_run (example_env RaftApplied) Cluster (GCommand (CAddProxy ?b)) NewStateContext = Inr one_proxy"
    by (simp add: drop_error_def)
  then show ?thesis
    by (rule reachable_call[OF gateway_reachable.Start, rotated 3]) (simp_all add: TypeHashPrefixer_def)
qed

theorem reachable_request_answered_witness:
  "\<exists>px res px'. sc_List one_proxy 9000 = Some px \<and> px_Available px \<and>
    ServeHTTP (env_rate (example_env RaftApplied)) True 0 (example_request ''10.0.0.1'' ''/api'') px = Inr (res, px') \<and> routed res"
proof -
  let ?px = "fresh_proxy 9000\<lparr>px_serving := env_listen (example_env RaftApplied) 9000\<rparr>"
  have px: "sc_List one_proxy 9000 = Some ?px" by (simp add: one_proxy_def)
  have ip: "RemoteIp (example_request ''10.0.0.1'' ''/api'') = ''10.0.0.1''" by (rule example_RemoteIp) simp
  have acl: "AccessControl (px_Acl ?px) (RemoteIp (example_request ''10.0.0.1'' ''/api'')) = Inr False"
    unfolding ip by (simp add: fresh_proxy_def) code_simp
  have "px_Available ?px" by (simp add: fresh_proxy_def)
  with reachable_request_answered[OF one_proxy_reachable example_commits px acl, of True 0] px show ?thesis by auto
qed

theorem requests_go_to_named_hosts_witness:
  "\<exists>ctx px fw px'. gateway_reachable (example_env RaftApplied) Cluster {''a:1''} ctx \<and> sc_List ctx 9000 = Some px \<and>
    ServeHTTP (env_rate (example_env RaftApplied)) True 0 (example_request ''127.0.0.1:9'' ''/api/x'') px = Inr (Proxied fw, px') \<and>
    fw_Host fw \<in> {''a:1''}"
proof -
  let ?env = "example_env RaftApplied" and ?H = "{''a:1''}" and ?r = "example_request ''127.0.0.1:9'' ''/api/x''"
  let ?px0 = "fresh_proxy 9000\<lparr>px_serving := True\<rparr> :: bucket HttpReverseProxy"
  let ?b = "\<lparr>app_Port = 9000, app_Static = False, app_Prefix = ''/api'', app_BalanceType = ''round-robin'',
    app_ProxyPass = [''a:1'']\<rparr>"
  have "(case go_bind (AddPrefix ''/api'' ''round-robin'' [''a:1''] False ?px0) (ServeHTTP bucket_lib True 0 ?r) of
      Inr (Proxied fw, _) \<Rightarrow> True | _ \<Rightarrow> False)" by code_simp
  then obtain px fw px' where px: "AddPrefix ''/api'' ''round-robin'' [''a:1''] False ?px0 = Inr px"
    "ServeHTTP bucket_lib True 0 ?r px = Inr (Proxied fw, px')"
    by (auto simp: go_bind_def split: sum.splits response.splits)
  let ?ctx = "one_proxy\<lparr>sc_List := (sc_List one_proxy)(9000 \<mapsto> px)\<rparr>"
  have "command_run ?env Cluster (CAddPrefix ?b) one_proxy = command_run ?env Stand (CAddPrefix ?b) one_proxy"
    by (rule commits_stand[OF example_commits]) simp
  also have "\<dots> = Inr (None, ?ctx)"
    using px(1) by (simp add: addHttpProxyPrefix_def one_proxy_def on_proxy_def PrefixExists_def fresh_proxy_def)
  finally have "gateway_run ?env Cluster (GCommand (CAddPrefix ?b)) one_proxy = Inr ?ctx" by (simp add: drop_error_def)
  then have reach: "gateway_reachable ?env Cluster ?H ?ctx"
    by (rule reachable_call[OF one_proxy_reachable, rotated 3])
      (simp_all add: one_proxy_def TypeConsistenceHash_def TypeRoundRobin_def)
  have hosts: "\<forall>h \<in> ?H. backend h" using backend_examples by simp
  have serve: "ServeHTTP (env_rate ?env) True 0 ?r px = Inr (Proxied fw, px')" using px(2) by simp
  have path: "r_path ?r = CHR ''/'' # ''api/x''" by (simp add: example_request_def)
  have "sc_List ?ctx 9000 = Some px" by simp
  with requests_go_to_named_hosts[OF reach example_commits hosts this path serve] reach serve show ?thesis by blast
qed

end
