(* ===== verification/DiscoveredService.thy ===== *)
theory DiscoveredService
  imports Gateway
begin

text \<open>
  A service found by discovery, from its nodes in ZooKeeper to its clients: what an iteration of
  \<open>watchNode\<close> sends, what the handling of it makes of the prefix of the service, and where a request on
  that prefix goes then.
\<close>

section \<open>The addresses of the nodes\<close>

definition node_addresses :: "(string \<Rightarrow> string list option) \<Rightarrow> ZookeeperServiceInfo \<Rightarrow> string list" where
  "node_addresses lookup info =
     (let ip = si_Address info; cls = ValidIPAddress ip
      in if cls = ''IPv4'' then [host_port ip (si_Port info)]
         else if cls = ''IPv6'' then []
         else case lookup ip of None \<Rightarrow> [] | Some addrs \<Rightarrow> map (\<lambda>addr. host_port addr (si_Port info)) addrs)"

definition announced ::
  "(string \<Rightarrow> string list option) \<Rightarrow> (string \<Rightarrow> ZookeeperServiceInfo option) \<Rightarrow> string list \<Rightarrow> string list" where
  "announced lookup get nodes = concat (map (\<lambda>n. node_addresses lookup (node_info get n)) nodes)"

definition found_host :: "string \<Rightarrow> string \<Rightarrow> Event" where
  "found_host s h = \<lparr>ev_Opt = ADD_HOST, ev_ServiceName = s, ev_Host = h, ev_Children = []\<rparr>"

lemma node_events_found: "node_events lookup s info = map (found_host s) (node_addresses lookup info)"
  by (simp add: node_events_def node_addresses_def host_event_def found_host_def Let_def split: option.split)

text \<open>What an iteration sends: one removal of the hosts that went, and an addition for every address.\<close>

lemma watchNode_sent:
  "\<exists>cs. drop (length (zk_sent zk)) (zk_sent (watchNode lookup s (Some nodes) get keys zk)) =
    \<lparr>ev_Opt = REMOVE_HOSTS, ev_ServiceName = s, ev_Host = '''', ev_Children = cs\<rparr> #
      map (found_host s) (announced lookup get nodes)"
  by (simp add: watchNode_def Let_def announced_def node_events_found map_concat comp_def node_info_def cong: map_cong)

section \<open>What becomes of the prefix\<close>

lemma found_hosts_view:
  assumes "v_hosts v (prefix_of s) = Some hs"
  shows "\<exists>hs'. view_events (map (found_host s) as) v = Some (v\<lparr>v_hosts := (v_hosts v)(prefix_of s \<mapsto> hs')\<rparr>) \<and>
    set hs' = set hs \<union> set as \<and> (distinct hs \<longrightarrow> distinct hs')"
  using assms
proof (induction as arbitrary: v hs)
  case Nil
  then have "v\<lparr>v_hosts := (v_hosts v)(prefix_of s \<mapsto> hs)\<rparr> = v" by (cases v) (simp add: fun_upd_idem)
  then show ?case by (intro exI[of _ hs]) (simp del: fun_upd_apply)
next
  case (Cons a as)
  let ?hs = "if a \<in> set hs then hs else hs @ [a]" and ?p = "prefix_of s"
  let ?v = "v\<lparr>v_hosts := (v_hosts v)(?p \<mapsto> ?hs)\<rparr>"
  have step: "view_event (found_host s a) v = Some ?v"
    using Cons.prems by (simp add: view_event_def found_host_def service_prefix_def prefix_of_def)
  have "v_hosts ?v ?p = Some ?hs" by simp
  from Cons.IH[OF this] obtain hs' where hs': "set hs' = set ?hs \<union> set as" "distinct ?hs \<longrightarrow> distinct hs'"
    "view_events (map (found_host s) as) ?v = Some (?v\<lparr>v_hosts := (v_hosts ?v)(?p \<mapsto> hs')\<rparr>)" by blast
  have "set hs' = set hs \<union> set (a # as)" "distinct hs \<longrightarrow> distinct hs'" using hs'(1,2) by auto
  moreover have "?v\<lparr>v_hosts := (v_hosts ?v)(?p \<mapsto> hs')\<rparr> = v\<lparr>v_hosts := (v_hosts v)(?p \<mapsto> hs')\<rparr>" by simp
  ultimately show ?case using step hs'(3) by (intro exI[of _ hs']) (simp del: fun_upd_apply)
qed

lemma watched_hosts_view:
  assumes "v_hosts v (prefix_of s) = Some hs"
  shows "\<exists>hs'. view_events (drop (length (zk_sent zk)) (zk_sent (watchNode lookup s (Some nodes) get keys zk))) v =
      Some (v\<lparr>v_hosts := (v_hosts v)(prefix_of s \<mapsto> hs')\<rparr>) \<and>
    set hs' = set hs \<union> set (announced lookup get nodes) \<and> (distinct hs \<longrightarrow> distinct hs')"
proof -
  obtain cs where sent: "drop (length (zk_sent zk)) (zk_sent (watchNode lookup s (Some nodes) get keys zk)) =
    \<lparr>ev_Opt = REMOVE_HOSTS, ev_ServiceName = s, ev_Host = '''', ev_Children = cs\<rparr> #
      map (found_host s) (announced lookup get nodes)" using watchNode_sent by blast
  have "view_event \<lparr>ev_Opt = REMOVE_HOSTS, ev_ServiceName = s, ev_Host = '''', ev_Children = cs\<rparr> v = Some v"
    by (simp add: view_event_def event_opts)
  with found_hosts_view[OF assms, of "announced lookup get nodes"] show ?thesis by (simp add: sent)
qed

section \<open>Where a request goes\<close>

lemma prefix_routes:
  assumes "path = p @ rest" "p \<noteq> []" "rest = [] \<or> (\<exists>u. rest = CHR ''/'' # u)" "M p \<noteq> None"
    "\<forall>q. seg_prefix q path \<longrightarrow> M q \<noteq> None \<longrightarrow> length q \<le> length p"
  shows "routes_to M path p rest"
proof -
  have "seg_prefix p path" using assms(2,3) unfolding assms(1) seg_prefix_def by (auto simp: nth_append)
  with assms(1,4,5) show ?thesis unfolding routes_to_def by blast
qed

lemma view_forwards_prefix:
  assumes "shows_view px v" "v_hosts v p = Some hs" "hs \<noteq> []" "\<forall>h \<in> set hs. backend h"
    "px_Available px" "AccessControl (px_Acl px) (RemoteIp r) = Inr False" "lib_unlimited lib" "rate_free lib now px p rest"
    "r_path r = CHR ''/'' # s" "routes_to (v_hosts v) (r_path r) p rest"
  shows "\<exists>fw px'. ServeHTTP lib True now r px = Inr (Proxied fw, px') \<and> fw_Host fw \<in> set hs \<and> fw_Path fw = rest \<and>
    fw_Method fw = r_method r"
proof -
  have "routes_to (hp_Mapping (px_prefixMapping px)) (r_path r) p rest"
    using assms(10) by (simp add: routes_to_def shows_view_mapping_None[OF assms(1)])
  from routes_to_match[OF assms(9) this] obtain n where
    qn: "hp_match (hp_Mapping (px_prefixMapping px)) (r_path r) = (p, n)" "drop n (r_path r) = rest"
    and rest: "rest = [] \<or> (\<exists>t. rest = CHR ''/'' # t)" .
  from view_mapping_picks[OF assms(1) qn(1) assms(2,3)] qn(2) obtain host pm where
    mp: "MappingPath (r_path r) (Some r) (px_prefixMapping px) = Inr (Inr (p, rest, host @ rest), pm)" and host: "host \<in> set hs"
    by metis
  with assms(4) mapped_is_forwarded[OF mp _ rest assms(5) shows_viewD(1)[OF assms(1)] assms(6-8)] show ?thesis by blast
qed

lemma edited_rate_free:
  assumes "edited px px'" "px_StaticMapping px' p = px_StaticMapping px p" "rate_free lib now px p rest"
  shows "rate_free lib now px' p rest"
proof -
  have "px_rateLimiters px (compelete_url p rest) = Some l" if "px_rateLimiters px' (compelete_url p rest) = Some l" for l
    using assms(1) that by (auto simp: edited_def map_le_def dom_def)
  with assms(2,3) show ?thesis by (auto simp: rate_free_def isStaticResource_def)
qed


text \<open>The proxy with the prefix of a service that was just found, and a node of it.\<close>

lemma example_found_proxy:
  "\<exists>px v. AddPrefix ''/users'' ''round-robin'' [] False (fresh_proxy 9000 :: bucket HttpReverseProxy) = Inr px \<and>
    shows_view px v \<and> v_hosts v = [''/users'' \<mapsto> []] \<and> px_Available px \<and> px_Acl px = NewRadixTree \<and>
    px_rateLimiters px = (\<lambda>_. None)"
proof -
  let ?px = "fresh_proxy 9000 :: bucket HttpReverseProxy"
  let ?v = "new_view\<lparr>v_hosts := [''/users'' \<mapsto> []], v_static := (v_static new_view)(''/users'' \<mapsto> False)\<rparr>"
  have fresh: "shows_view ?px new_view" by (simp add: fresh_proxy_def shows_view_def new_view_def NewHashPrefixer_def)
  have "''round-robin'' \<noteq> TypeConsistenceHash" by (simp add: TypeConsistenceHash_def)
  from AddPrefix_simulates[OF fresh this, of "''/users''" "[]" False] obtain px where
    px: "AddPrefix ''/users'' ''round-robin'' [] False ?px = Inr px" "shows_view px ?v"
    by (auto simp: TypeRoundRobin_def new_view_def)
  with AddPrefix_kept[OF px(1)] AddPrefix_limiters[OF px(1)] show ?thesis
    by (intro exI[of _ px] exI[of _ ?v]) (simp add: kept_def fresh_proxy_def)
qed


end
