(* ===== verification/RpcClient.thy ===== *)
theory RpcClient
  imports RpcServer
begin

text \<open>
  The client library of the services, \<open>src/client/client.go\<close>, run against the RPC server. The connection
  is gRPC's: whether a call and its answer arrive is a parameter. A call whose answer is an error or does
  not arrive, or on a connection that was closed, gives \<open>GrpcError\<close>. The HTTP client is Go's: a function
  from method, URL and data to the body of the answer.
\<close>

type_synonym http_client = "string \<Rightarrow> string \<Rightarrow> bytes \<Rightarrow> bytes option"

record RpcClient =
  rc_addr :: string
  rc_port :: int
  rc_prefix :: string
  rc_localAddr :: string
  rc_httpClient :: http_client
  rc_open :: bool

text \<open>\<open>grpc.Dial\<close> may fail, and the client panics then.\<close>

definition NewVermouthRpcClient :: "http_client \<Rightarrow> bool \<Rightarrow> string \<Rightarrow> RpcClient go" where
  "NewVermouthRpcClient hc dialed remoteAddr =
     (if \<not> dialed then Inl (Panicked ''grpc.Dial'')
      else Inr \<lparr>rc_addr = remoteAddr, rc_port = 0, rc_prefix = '''', rc_localAddr = '''',
        rc_httpClient = hc, rc_open = True\<rparr>)"

definition SetHttpClient :: "http_client \<Rightarrow> RpcClient \<Rightarrow> RpcClient" where
  "SetHttpClient hc client = client\<lparr>rc_httpClient := hc\<rparr>"

definition client_Close :: "RpcClient \<Rightarrow> RpcClient" where
  "client_Close client = client\<lparr>rc_open := False\<rparr>"

datatype delivery = Delivered | CallLost | AnswerLost
datatype client_error = GrpcError | ServerError | NoHostFound

type_synonym ('a, 'l) client_call = "((client_error + 'a) \<times> 'l StateContext) go"

definition grpc_call ::
  "delivery \<Rightarrow> RpcClient \<Rightarrow> ('l StateContext \<Rightarrow> 'l called) \<Rightarrow> 'l StateContext \<Rightarrow> (Res, 'l) client_call" where
  "grpc_call link client f ctx =
     (if link = CallLost \<or> \<not> rc_open client then Inr (Inl GrpcError, ctx)
      else go_bind (f ctx) (\<lambda>(res, ctx1).
        Inr (if link = AnswerLost \<or> res_error res then Inl GrpcError else Inr res, ctx1)))"

text \<open>The answer of a call that only reports success.\<close>

definition check_success :: "client_error + Res \<Rightarrow> client_error option" where
  "check_success r =
     (case r of Inl err \<Rightarrow> Some err
      | Inr res \<Rightarrow> if res_Message res \<noteq> ''success'' then Some ServerError else None)"

definition client_RegisterToProxy ::
  "('l, 'f) env \<Rightarrow> string \<Rightarrow> delivery \<Rightarrow> int \<Rightarrow> string \<Rightarrow> string \<Rightarrow> string list \<Rightarrow> RpcClient \<Rightarrow> 'l StateContext \<Rightarrow>
     (client_error option \<times> RpcClient \<times> 'l StateContext) go" where
  "client_RegisterToProxy env mode link port prefix addr opt client ctx =
     (let req = \<lparr>rg_Port = port, rg_Prefix = prefix, rg_LocalAddr = addr, rg_BalanceMode = ''round-robin'', rg_Static = False\<rparr>;
          req = (if length opt > 0 then req\<lparr>rg_BalanceMode := opt ! 0\<rparr> else req)
      in go_bind (grpc_call link client (RegisterToProxy env mode req) ctx) (\<lambda>(r, ctx1).
        case check_success r of
          Some err \<Rightarrow> Inr (Some err, client, ctx1)
        | None \<Rightarrow> Inr (None, client\<lparr>rc_port := port, rc_prefix := prefix, rc_localAddr := addr\<rparr>, ctx1)))"

definition client_Cancel ::
  "('l, 'f) env \<Rightarrow> string \<Rightarrow> delivery \<Rightarrow> RpcClient \<Rightarrow> 'l StateContext \<Rightarrow> (client_error option \<times> 'l StateContext) go" where
  "client_Cancel env mode link client ctx =
     (let req = \<lparr>cn_Port = rc_port client, cn_Prefix = rc_prefix client, cn_LocalAddr = rc_localAddr client\<rparr>
      in go_bind (grpc_call link client (rpc_Cancel env mode req) ctx) (\<lambda>(r, ctx1). Inr (check_success r, ctx1)))"

text \<open>The goroutine a registration leaves behind: the exit status of the process on an interrupt.\<close>

definition client_interrupt ::
  "('l, 'f) env \<Rightarrow> string \<Rightarrow> delivery \<Rightarrow> RpcClient \<Rightarrow> 'l StateContext \<Rightarrow> (int \<times> 'l StateContext) go" where
  "client_interrupt env mode link client ctx =
     go_bind (client_Cancel env mode link client ctx) (\<lambda>(err, ctx1).
       Inr (case err of Some _ \<Rightarrow> 1 | None \<Rightarrow> 0, ctx1))"

definition client_JoinCluster ::
  "string \<Rightarrow> (string \<Rightarrow> string \<Rightarrow> bool) \<Rightarrow> delivery \<Rightarrow> RpcClient \<Rightarrow> string \<Rightarrow> string \<Rightarrow> 'l StateContext \<Rightarrow>
     (client_error option \<times> 'l StateContext) go" where
  "client_JoinCluster mode add_voter link client tcpAddress name ctx =
     go_bind (grpc_call link client (\<lambda>ctx. Inr (rpc_JoinCluster mode add_voter tcpAddress name, ctx)) ctx)
       (\<lambda>(r, ctx1). Inr (check_success r, ctx1))"

definition client_loadBalance ::
  "delivery \<Rightarrow> RpcClient \<Rightarrow> int \<Rightarrow> string \<Rightarrow> string \<Rightarrow> 'l StateContext \<Rightarrow> (string, 'l) client_call" where
  "client_loadBalance link client port prefix addr ctx =
     go_bind (grpc_call link client (rpc_LoadBalance \<lparr>lq_Port = port, lq_Prefix = prefix, lq_Fact = addr\<rparr>) ctx) (\<lambda>(r, ctx1).
       Inr (case r of Inl err \<Rightarrow> Inl err
            | Inr res \<Rightarrow> if res_Message res = '''' then Inl NoHostFound else Inr (res_Message res), ctx1))"

definition sendHttpRequest :: "string \<Rightarrow> string \<Rightarrow> bytes \<Rightarrow> RpcClient \<Rightarrow> bytes option" where
  "sendHttpRequest meth url data client = rc_httpClient client meth url data"

text \<open>\<open>encode\<close> is the JSON encoder; \<open>None\<close> is the \<open>nil\<close> the caller gets on any error.\<close>

definition InvokeMethod ::
  "('b \<Rightarrow> bytes option) \<Rightarrow> delivery \<Rightarrow> int \<Rightarrow> string \<Rightarrow> string \<Rightarrow> string \<Rightarrow> 'b \<Rightarrow> RpcClient \<Rightarrow> 'l StateContext \<Rightarrow>
     (bytes option \<times> 'l StateContext) go" where
  "InvokeMethod encode link port prefix url meth body client ctx =
     go_bind (client_loadBalance link client port prefix (rc_localAddr client) ctx) (\<lambda>(r, ctx1).
       Inr (case r of Inl _ \<Rightarrow> None
            | Inr host \<Rightarrow>
                (let reqUrl = ''http://'' @ host @ url
                 in case encode body of None \<Rightarrow> None | Some data \<Rightarrow> sendHttpRequest meth reqUrl data client), ctx1))"

section \<open>A service and the gateway\<close>

lemma InvokeMethod_single:
  assumes "sc_List ctx port = Some px" "shows_view px v" "v_hosts v prefix = Some [addr]" "addr \<noteq> ''''" "encode body = Some data" "rc_open client"
  shows "\<exists>ctx'. InvokeMethod encode Delivered port prefix url meth body client ctx =
    Inr (sendHttpRequest meth (''http://'' @ addr @ url) data client, ctx')"
proof -
  from rpc_LoadBalance_single[OF assms(1-3), of "rc_localAddr client"] obtain ctx' where
    "rpc_LoadBalance \<lparr>lq_Port = port, lq_Prefix = prefix, lq_Fact = rc_localAddr client\<rparr> ctx =
      Inr (\<lparr>res_Message = addr, res_error = False\<rparr>, ctx')" by blast
  with assms(4-6) have "InvokeMethod encode Delivered port prefix url meth body client ctx =
    Inr (sendHttpRequest meth (''http://'' @ addr @ url) data client, ctx')"
    by (simp add: InvokeMethod_def client_loadBalance_def grpc_call_def)
  then show ?thesis ..
qed

text \<open>
  C33: a service that registers under the default algorithm is told so and remembers what it registered.
  When it is interrupted it tries to cancel, is refused, exits with status 1, and leaves its address in the
  table: requests go on to it. A second service that invokes a method under a prefix nobody else serves is
  sent to the dead address.
\<close>

theorem interrupted_service_stays:
  assumes "commits env mode" "sc_mu ctx = unlocked" "port_shows ctx port v" "rc_open client"
  shows "\<exists>client' ctx' px v'. client_RegisterToProxy env mode Delivered port prefix addr [] client ctx = Inr (None, client', ctx') \<and>
    client_interrupt env mode Delivered client' ctx' = Inr (1, ctx') \<and>
    sc_List ctx' port = Some px \<and> shows_view px v' \<and> addr \<in> set (map_get [] (v_hosts v') prefix) \<and>
    (v_hosts v prefix = None \<and> addr \<noteq> '''' \<longrightarrow>
      (\<forall>(encode :: 'd \<Rightarrow> bytes option) url meth body data other. encode body = Some data \<longrightarrow> rc_open other \<longrightarrow>
        (\<exists>ctx''. InvokeMethod encode Delivered port prefix url meth body other ctx' =
          Inr (sendHttpRequest meth (''http://'' @ addr @ url) data other, ctx''))))"
proof -
  let ?req = "\<lparr>rg_Port = port, rg_Prefix = prefix, rg_LocalAddr = addr, rg_BalanceMode = ''round-robin'', rg_Static = False\<rparr>"
  let ?client = "client\<lparr>rc_port := port, rc_prefix := prefix, rc_localAddr := addr\<rparr>"
  from register_shows[OF assms(1,2), of ?req v] assms(3) obtain ctx' px' v' where
    *: "RegisterToProxy env mode ?req ctx = Inr (Success_Res, ctx')" "sc_List ctx' port = Some px'" "shows_view px' v'"
    "v_hosts v' = (v_hosts v)(prefix \<mapsto> registered ?req v)" by (auto simp: TypeRoundRobin_def)
  have mem: "addr \<in> set (registered ?req v)" by (simp add: registered_def split: option.split)
  have reg: "client_RegisterToProxy env mode Delivered port prefix addr [] client ctx = Inr (None, ?client, ctx')"
    by (simp add: client_RegisterToProxy_def grpc_call_def check_success_def *(1) Success_Res_def assms(4))
  have "rpc_Cancel env mode \<lparr>cn_Port = port, cn_Prefix = prefix, cn_LocalAddr = addr\<rparr> ctx' = Inr (failed_Res, ctx')"
    using cancel_refused[OF assms(1), of ctx' "\<lparr>cn_Port = port, cn_Prefix = prefix, cn_LocalAddr = addr\<rparr>" px' v'] * mem by simp
  then have int: "client_interrupt env mode Delivered ?client ctx' = Inr (1, ctx')"
    by (simp add: client_interrupt_def client_Cancel_def grpc_call_def check_success_def failed_Res_def assms(4))
  have single: "v_hosts v' prefix = Some [addr]" if "v_hosts v prefix = None"
    using that by (simp add: *(4) registered_def)
  have at: "addr \<in> set (map_get [] (v_hosts v') prefix)" using mem by (simp add: *(4) map_get_def)
  show ?thesis
  proof (rule exI[of _ ?client], rule exI[of _ ctx'], rule exI[of _ px'], rule exI[of _ v'], intro conjI impI allI)
    fix encode :: "'d \<Rightarrow> bytes option" and url meth and body :: 'd and data and other :: RpcClient
    assume "v_hosts v prefix = None \<and> addr \<noteq> ''''" "encode body = Some data" "rc_open other"
    then show "\<exists>ctx''. InvokeMethod encode Delivered port prefix url meth body other ctx' =
        Inr (sendHttpRequest meth (''http://'' @ addr @ url) data other, ctx'')"
      using InvokeMethod_single[OF *(2,3) single, where encode = encode and body = body] by blast
  qed (fact reg int *(2) *(3) at)+
qed

definition example_client :: RpcClient where
  "example_client = \<lparr>rc_addr = ''gateway:9001'', rc_port = 0, rc_prefix = '''', rc_localAddr = '''',
     rc_httpClient = (\<lambda>_ _ _. None), rc_open = True\<rparr>"

theorem interrupted_service_stays_witness:
  "\<exists>client' ctx'. client_RegisterToProxy (example_env RaftApplied) Cluster Delivered 9000 ''/api'' ''10.0.0.1:80'' []
      example_client NewStateContext = Inr (None, client', ctx') \<and>
    client_interrupt (example_env RaftApplied) Cluster Delivered client' ctx' = Inr (1, ctx')"
proof -
  have "sc_mu (NewStateContext :: bucket StateContext) = unlocked" "port_shows (NewStateContext :: bucket StateContext) 9000 new_view" "rc_open example_client"
    by (simp_all add: NewStateContext_def port_shows_def example_client_def)
  from interrupted_service_stays[OF example_commits this, of "''/api''" "''10.0.0.1:80''"]
  show ?thesis by (elim exE conjE) (intro exI conjI)
qed

end
