(* ===== verification/Config.thy ===== *)
theory Config
  imports HttpProxy ZkDiscovery
begin

text \<open>
  The configuration and its check, \<open>src/config/config.go\<close>. The check walks over the fields of a value by
  reflection: \<open>rvalue\<close> is what \<open>reflect.ValueOf\<close> shows of a value, as far as the check looks at it. The
  file is read by viper, and whether a path can be created is the file system's.
\<close>

section \<open>The configuration\<close>

record ServerArgs =
  sa_HttpServer :: bool
  sa_HttpPort :: int
  sa_RpcServer :: bool
  sa_RpcPort :: int
  sa_Name :: string
  sa_Mode :: string
  sa_RootLevel :: string
  sa_DataDir :: string

record RaftArgs =
  ra_TcpAddress :: string
  ra_Leader :: bool
  ra_Method :: string
  ra_LeaderAddress :: string
  ra_SnapshotInterval :: int
  ra_SnapshotThreshold :: int
  ra_HeartbeatTimeout :: int
  ra_ElectionTimeout :: int

record LogArgs =
  la_Name :: string
  la_Type :: string
  la_Level :: string
  la_Color :: bool
  la_Format :: string
  la_FileName :: string
  la_MaxSize :: int
  la_MaxLine :: int
  la_DateSlice :: string

record VermouthConfig =
  vc_Server :: ServerArgs
  vc_HttpProxy :: "HttpProxyArgs list"
  vc_Discovery :: "DiscoveryArgs list"
  vc_Raft :: RaftArgs
  vc_Log :: "LogArgs list"

datatype config_error =
    ErrorUnknownTag
  | ErrorIllegalConfigFile
  | ErrorEnumFieldsTooShort
  | ErrorCannotCatchAnyEnum

definition REQUIRED :: string where "REQUIRED = ''required''"
definition FILEPATH :: string where "FILEPATH = ''filePath''"
definition ENUM :: string where "ENUM = ''enum''"

section \<open>Reflection\<close>

text \<open>A field has its name, the text of its \<open>vaild\<close> tag (empty when it has none) and its value.\<close>

datatype rvalue = RString string | RInt int | ROther | RStruct "(string \<times> string \<times> rvalue) list"

text \<open>
  \<open>reflect.ValueOf(field)\<close> of a \<open>reflect.StructField\<close>: a struct with the description of the field, not with
  its value.
\<close>

definition StructField_value :: "string \<Rightarrow> string \<Rightarrow> rvalue" where
  "StructField_value name tag = RStruct [(''Name'', '''', RString name), (''PkgPath'', '''', RString ''''),
     (''Type'', '''', ROther), (''Tag'', '''', RString tag), (''Offset'', '''', ROther), (''Index'', '''', ROther),
     (''Anonymous'', '''', ROther)]"

definition server_value :: "ServerArgs \<Rightarrow> rvalue" where
  "server_value s = RStruct [(''HttpServer'', '''', ROther), (''HttpPort'', ''required'', RInt (sa_HttpPort s)),
     (''RpcServer'', '''', ROther), (''RpcPort'', ''required'', RInt (sa_RpcPort s)), (''Name'', ''required'', RString (sa_Name s)),
     (''Mode'', ''required, enum:stand_cluster'', RString (sa_Mode s)), (''RootLevel'', '''', RString (sa_RootLevel s)),
     (''DataDir'', ''required, filePath'', RString (sa_DataDir s))]"

text \<open>The tag of \<open>Method\<close> has the key \<open>enum\<close>, not \<open>vaild\<close>.\<close>

definition raft_value :: "RaftArgs \<Rightarrow> rvalue" where
  "raft_value r = RStruct [(''TcpAddress'', '''', RString (ra_TcpAddress r)), (''Leader'', '''', ROther),
     (''Method'', '''', RString (ra_Method r)), (''LeaderAddress'', '''', RString (ra_LeaderAddress r)),
     (''SnapshotInterval'', '''', RInt (ra_SnapshotInterval r)), (''SnapshotThreshold'', '''', RInt (ra_SnapshotThreshold r)),
     (''HeartbeatTimeout'', '''', RInt (ra_HeartbeatTimeout r)), (''ElectionTimeout'', '''', RInt (ra_ElectionTimeout r))]"

definition config_value :: "VermouthConfig \<Rightarrow> rvalue" where
  "config_value c = RStruct [(''Server'', '''', server_value (vc_Server c)), (''HttpProxy'', '''', ROther),
     (''Discovery'', '''', ROther), (''Raft'', '''', raft_value (vc_Raft c)), (''Log'', '''', ROther)]"

section \<open>The check\<close>

type_synonym checked = "config_error + bool"

definition checkString :: "(string \<Rightarrow> bool) \<Rightarrow> string \<Rightarrow> string \<Rightarrow> checked" where
  "checkString path_valid val rule =
     (if rule = REQUIRED then Inr (val \<noteq> '''')
      else if rule = FILEPATH then Inr (path_valid val)
      else if Contains rule ENUM then
        (let splits = Split CHR '':'' rule
         in if length splits < 2 then Inl ErrorEnumFieldsTooShort
            else if val \<in> set (Split CHR ''_'' (splits ! 1)) then Inr True
            else Inl ErrorCannotCatchAnyEnum)
      else Inl ErrorUnknownTag)"

definition checkInt :: "int \<Rightarrow> string \<Rightarrow> checked" where
  "checkInt val rule = (if rule = REQUIRED then Inr (val \<noteq> 0) else Inl ErrorUnknownTag)"

definition checkSingleTag :: "(string \<Rightarrow> bool) \<Rightarrow> rvalue \<Rightarrow> string \<Rightarrow> checked" where
  "checkSingleTag path_valid val rule =
     (case val of
        RString s \<Rightarrow> checkString path_valid s rule
      | RInt i \<Rightarrow> checkInt i rule
      | _ \<Rightarrow> Inr True)"

text \<open>The rules of one field, and one after the other the fields: the first error or refusal is the result.\<close>

fun check_all :: "('x \<Rightarrow> checked) \<Rightarrow> 'x list \<Rightarrow> checked" where
  "check_all f [] = Inr True"
| "check_all f (x # xs) =
     (case f x of Inl err \<Rightarrow> Inl err | Inr ok \<Rightarrow> if ok then check_all f xs else Inr False)"

lemma check_all_cong [fundef_cong]:
  "xs = ys \<Longrightarrow> (\<And>x. x \<in> set ys \<Longrightarrow> f x = g x) \<Longrightarrow> check_all f xs = check_all g ys"
  by (induction xs arbitrary: ys) (auto split: sum.split)

definition is_struct :: "rvalue \<Rightarrow> bool" where
  "is_struct v = (case v of RStruct _ \<Rightarrow> True | _ \<Rightarrow> False)"

definition has_structs :: "rvalue \<Rightarrow> bool" where
  "has_structs v = (case v of RStruct fs \<Rightarrow> \<exists>f \<in> set fs. is_struct (snd (snd f)) | _ \<Rightarrow> False)"

text \<open>\<open>checkArg\<close> is only called on structs.\<close>

function checkArg :: "(string \<Rightarrow> bool) \<Rightarrow> rvalue \<Rightarrow> checked" where
  "checkArg path_valid arg =
     (case arg of
        RStruct fs \<Rightarrow> check_all (\<lambda>(name, tag, val).
          if is_struct val then checkArg path_valid (StructField_value name tag)
          else if tag = '''' then Inr True
          else check_all (checkSingleTag path_valid val) (ParseTag tag)) fs
      | _ \<Rightarrow> Inr True)"
  by pat_completeness auto
termination
  by (relation "measure (\<lambda>(pv, v). if has_structs v then 1 else 0)")
    (force simp: has_structs_def StructField_value_def is_struct_def split: rvalue.splits)+

declare checkArg.simps [simp del]

text \<open>The result is the error, if there is one.\<close>

definition VaildConfig :: "(string \<Rightarrow> bool) \<Rightarrow> VermouthConfig \<Rightarrow> config_error option" where
  "VaildConfig path_valid c =
     (case checkArg path_valid (config_value c) of
        Inl err \<Rightarrow> Some err
      | Inr ok \<Rightarrow> if \<not> ok then Some ErrorIllegalConfigFile else None)"

section \<open>What is checked\<close>

lemma checkArg_StructField: "checkArg path_valid (StructField_value name tag) = Inr True"
  by (simp add: checkArg.simps StructField_value_def is_struct_def)

lemma ParseTag_examples:
  "ParseTag ''required'' = [REQUIRED]" "ParseTag ''required, filePath'' = [REQUIRED, FILEPATH]"
  "ParseTag ''required, enum:stand_cluster'' = [REQUIRED, ''enum:stand_cluster'']"
  unfolding REQUIRED_def FILEPATH_def by code_simp+

lemma mode_enum:
  "checkString pv s ''enum:stand_cluster'' = (if s = ''stand'' \<or> s = ''cluster'' then Inr True else Inl ErrorCannotCatchAnyEnum)"
proof -
  have c: "Contains ''enum:stand_cluster'' ENUM" unfolding ENUM_def by code_simp
  have s: "Split CHR '':'' ''enum:stand_cluster'' = [''enum'', ''stand_cluster'']"
    "Split CHR ''_'' ''stand_cluster'' = [''stand'', ''cluster'']" by code_simp+
  show ?thesis using c by (auto simp: checkString_def REQUIRED_def FILEPATH_def s)
qed

text \<open>
  The server section of \<open>test_config.toml\<close>, which has no \<open>rpcPort\<close>: its rules refuse it, where \<open>TestCheckArg\<close>
  expects them to accept it.
\<close>

definition test_server :: ServerArgs where
  "test_server = \<lparr>sa_HttpServer = True, sa_HttpPort = 9119, sa_RpcServer = False, sa_RpcPort = 0,
     sa_Name = ''vermouth_node_1'', sa_Mode = ''cluster'', sa_RootLevel = ''Info'', sa_DataDir = ''./data''\<rparr>"

lemma test_section_refused: "checkArg path_valid (server_value test_server) = Inr False"
  by (simp add: checkArg.simps server_value_def test_server_def is_struct_def ParseTag_examples checkSingleTag_def checkInt_def)

text \<open>
  C40: the rules of the server section, checked on its values, accept exactly a server whose two ports are not
  0, with a name, a mode of \<open>stand\<close> or \<open>cluster\<close> and a data directory that is named and usable. But the check of a whole configuration
  accepts every configuration: it descends into the description of a field instead of its value.
\<close>

theorem config_check_is_void:
  "(checkArg path_valid (server_value s) = Inr True \<longleftrightarrow>
      sa_HttpPort s \<noteq> 0 \<and> sa_RpcPort s \<noteq> 0 \<and> sa_Name s \<noteq> '''' \<and> (sa_Mode s = ''stand'' \<or> sa_Mode s = ''cluster'') \<and>
      sa_DataDir s \<noteq> '''' \<and> path_valid (sa_DataDir s)) \<and>
   VaildConfig path_valid c = None"
proof
  have tags: "checkString path_valid t FILEPATH = Inr (path_valid t)" "checkString path_valid t REQUIRED = Inr (t \<noteq> '''')" for t
    by (simp_all add: checkString_def REQUIRED_def FILEPATH_def)
  show "checkArg path_valid (server_value s) = Inr True \<longleftrightarrow>
      sa_HttpPort s \<noteq> 0 \<and> sa_RpcPort s \<noteq> 0 \<and> sa_Name s \<noteq> '''' \<and> (sa_Mode s = ''stand'' \<or> sa_Mode s = ''cluster'') \<and>
      sa_DataDir s \<noteq> '''' \<and> path_valid (sa_DataDir s)"
    by (auto simp: checkArg.simps server_value_def is_struct_def ParseTag_examples checkSingleTag_def checkInt_def tags mode_enum
        split: if_splits)
  show "VaildConfig path_valid c = None"
    by (simp add: VaildConfig_def config_value_def checkArg.simps[of _ "RStruct _"] is_struct_def server_value_def raft_value_def
        checkArg_StructField)
qed

end
