(* ===== verification/NodeStart.thy ===== *)
theory NodeStart
  imports Leadership RpcClient Config
begin

text \<open>
  Starting a node: \<open>NewVermouth\<close> and \<open>Start\<close> of \<open>src/vermouth/vermouth.go\<close>, \<open>runStand\<close> and
  \<open>runCluster\<close> of \<open>start.go\<close>, and how a follower joins, of \<open>cluster.go\<close>. The lists \<open>ports\<close>, \<open>run_ports\<close> and \<open>dis_ports\<close> are the orders in which the
  ranges over the table of proxies and over the discoveries visit the ports. \<open>raft_lib\<close> is
  hashicorp/raft with its stores, and \<open>joined\<close> whether the leader let a follower join. The timer of the snapshots and the final wait on \<open>Shutdown\<close> are
  left out.
\<close>

type_synonym 'l node = "'l StateContext \<times> peer"

definition NewVermouth :: "(string list \<Rightarrow> int \<Rightarrow> bool) \<Rightarrow> VermouthConfig \<Rightarrow> 'l node" where
  "NewVermouth connect conf = (buildDiscovery connect (vc_Discovery conf) NewStateContext,
     NewPeer (sa_HttpServer (vc_Server conf)) (sa_HttpPort (vc_Server conf)))"

definition add_configured :: "VermouthConfig \<Rightarrow> 'l StateContext \<Rightarrow> 'l StateContext go" where
  "add_configured args ctx =
     go_bind (BuildHttpReverseProxyFromConfig (vc_HttpProxy args)) (\<lambda>httpProxys. AddHttpReverseProxy httpProxys ctx)"

text \<open>\<open>snapshot\<close> is the content of the snapshot file, when there is one, and \<open>open_ok\<close> whether it can be opened.\<close>

definition runStand ::
  "json \<Rightarrow> ('l, 'f) env \<Rightarrow> bool \<Rightarrow> bytes option \<Rightarrow> bool \<Rightarrow> int list \<Rightarrow> (int \<Rightarrow> key_orders) \<Rightarrow> int list \<Rightarrow> int list \<Rightarrow>
     VermouthConfig \<Rightarrow> 'l node \<Rightarrow> 'l node go" where
  "runStand js env open_ok snapshot rpc_listen ports kos run_ports dis_ports args node =
     (let (ctx, p) = node in
      go_bind (case snapshot of
          Some bs \<Rightarrow> restoreFromSnap js env ports kos (if open_ok then Some bs else None) ctx
        | None \<Rightarrow> add_configured args ctx) (\<lambda>ctx1.
      go_bind (ctx_Run env run_ports ctx1) (\<lambda>ctx2.
        let p1 = (if sa_RpcServer (vc_Server args) then rpc_Start rpc_listen p else p)
        in go_bind (startDiscovery dis_ports ctx2) (\<lambda>(loops, _).
             Inr (ctx2, p1\<lparr>pe_loops := loops @ pe_loops p1\<rparr>)))))"

section \<open>The raft node\<close>

text \<open>\<open>time.Duration (n) * time.Second\<close>, in nanoseconds, in 64 bits.\<close>

definition seconds :: "int \<Rightarrow> int" where
  "seconds n = sint (word_of_int (n * 10 ^ 9) :: 64 word)"

record raft_config =
  rc_LocalID :: string
  rc_SnapshotInterval :: int
  rc_SnapshotThreshold :: "64 word"
  rc_HeartbeatTimeout :: int
  rc_ElectionTimeout :: int

text \<open>
  Which of the library's calls succeed: \<open>rl_transport\<close> gives the local address; \<open>rl_NewRaft\<close> makes the node, and restores a snapshot and entries
  into the context.
\<close>

record 'l raft_lib =
  rl_transport :: "string \<Rightarrow> string option"
  rl_mkdir :: bool
  rl_snapshots :: bool
  rl_log_store :: bool
  rl_stable_store :: bool
  rl_NewRaft :: "raft_config \<Rightarrow> 'l StateContext \<Rightarrow> 'l StateContext go option"

text \<open>What \<open>createRaftNode\<close> makes on disk, and the one server a leader bootstraps a cluster with.\<close>

datatype raft_call =
    NewTCPTransport string
  | MkdirAll string string
  | NewFileSnapshotStore string string
  | NewBoltStore string string string
  | NewRaft raft_config
  | BootstrapCluster string string

text \<open>The first call that fails ends it. A leader bootstraps at every start; the library's refusal is dropped.\<close>

definition createRaftNode ::
  "'l raft_lib \<Rightarrow> RaftArgs \<Rightarrow> string \<Rightarrow> string \<Rightarrow> 'l StateContext \<Rightarrow> 'l StateContext go option \<times> raft_call list" where
  "createRaftNode lib args serverName dataDir ctx =
     (let cfg = \<lparr>rc_LocalID = serverName, rc_SnapshotInterval = seconds (ra_SnapshotInterval args),
            rc_SnapshotThreshold = word_of_int (ra_SnapshotThreshold args),
            rc_HeartbeatTimeout = seconds (ra_HeartbeatTimeout args), rc_ElectionTimeout = seconds (ra_ElectionTimeout args)\<rparr>;
          c1 = [NewTCPTransport (ra_TcpAddress args)];
          c2 = c1 @ [MkdirAll dataDir serverName];
          c3 = c2 @ [NewFileSnapshotStore dataDir serverName];
          c4 = c3 @ [NewBoltStore dataDir serverName ''raft-log.bolt''];
          c5 = c4 @ [NewBoltStore dataDir serverName ''raft-stable.bolt''];
          c6 = c5 @ [NewRaft cfg]
      in case rl_transport lib (ra_TcpAddress args) of
           None \<Rightarrow> (None, c1)
         | Some localAddr \<Rightarrow>
             if \<not> rl_mkdir lib then (None, c2)
             else if \<not> rl_snapshots lib then (None, c3)
             else if \<not> rl_log_store lib then (None, c4)
             else if \<not> rl_stable_store lib then (None, c5)
             else case rl_NewRaft lib cfg ctx of
                    None \<Rightarrow> (None, c6)
                  | Some ctx1 \<Rightarrow> (Some ctx1, c6 @ (if ra_Leader args then [BootstrapCluster serverName localAddr] else [])))"

text \<open>Only the leader of the configuration makes a cluster of its own, and only with itself.\<close>

lemma createRaftNode_bootstraps:
  "BootstrapCluster server addr \<in> set (snd (createRaftNode lib args serverName dataDir ctx)) \<Longrightarrow>
    ra_Leader args \<and> server = serverName \<and> rl_transport lib (ra_TcpAddress args) = Some addr \<and>
    fst (createRaftNode lib args serverName dataDir ctx) \<noteq> None"
  by (auto simp: createRaftNode_def Let_def split: if_splits option.splits)

text \<open>The deferred \<open>Run\<close> of a start that panics is not looked at.\<close>

definition runCluster ::
  "('l, 'f) env \<Rightarrow> 'l raft_lib \<Rightarrow> bool \<Rightarrow> bool \<Rightarrow> int list \<Rightarrow> VermouthConfig \<Rightarrow> 'l node \<Rightarrow> 'l node go" where
  "runCluster env lib bootstrap joined run_ports args node =
     (let (ctx, p) = node in
      case fst (createRaftNode lib (vc_Raft args) (sa_Name (vc_Server args)) (sa_DataDir (vc_Server args)) ctx) of
        None \<Rightarrow> Inl (Panicked ''create raft node failed!'')
      | Some started \<Rightarrow> go_bind started (\<lambda>ctx1.
          if \<not> ra_Leader (vc_Raft args) \<and> ra_Method (vc_Raft args) \<in> {''http'', ''rpc''} \<and> \<not> joined
          then Inl (Panicked ''join raft cluster failed!'')
          else
            go_bind (if \<not> bootstrap then add_configured args ctx1 else Inr ctx1) (\<lambda>ctx2.
            go_bind (ctx_Run env run_ports ctx2) (\<lambda>ctx3. Inr (ctx3, p)))))"

text \<open>\<open>Start\<close>, given what \<open>runCluster\<close> and \<open>runStand\<close> do.\<close>

definition vermouth_Start ::
  "('l node \<Rightarrow> 'l node go) \<Rightarrow> ('l node \<Rightarrow> 'l node go) \<Rightarrow> string \<Rightarrow> 'l node \<Rightarrow> 'l node go" where
  "vermouth_Start run_cluster run_stand mode node =
     go_bind (if mode = ''cluster'' then run_cluster node
              else if mode = ''stand'' then run_stand node
              else Inl (Panicked ''Unknow execute mode'')) (\<lambda>(ctx, p).
       Inr (ctx, p\<lparr>pe_http := hs_Start mode (pe_http p)\<rparr>))"

text \<open>\<open>main\<close> looks for the configuration in two places, and ends when neither can be read.\<close>

definition main_config :: "(string \<Rightarrow> VermouthConfig option) \<Rightarrow> VermouthConfig option" where
  "main_config ReadConfig =
     (case ReadConfig ''./conf/conf.toml'' of Some args \<Rightarrow> Some args | None \<Rightarrow> ReadConfig ''../conf/conf.toml'')"

section \<open>Joining a cluster\<close>

definition JOIN_SUCCESS :: string where "JOIN_SUCCESS = ''ok''"

text \<open>\<open>http_get\<close> is Go's \<open>http.Get\<close> and the reading of the body. The addresses are not escaped.\<close>

definition joinRaftClusterUseHttp :: "(string \<Rightarrow> string option) \<Rightarrow> string \<Rightarrow> string \<Rightarrow> string \<Rightarrow> bool" where
  "joinRaftClusterUseHttp http_get leaderAddress tcpAddress name =
     (let url = ''http://'' @ leaderAddress @ ''/join?tcpAddress='' @ tcpAddress @ ''&name='' @ name
      in case http_get url of None \<Rightarrow> False | Some body \<Rightarrow> body = JOIN_SUCCESS)"

definition joinRaftClusterUseRpc ::
  "bool \<Rightarrow> string \<Rightarrow> (string \<Rightarrow> string \<Rightarrow> bool) \<Rightarrow> delivery \<Rightarrow> string \<Rightarrow> string \<Rightarrow> string \<Rightarrow> bool go" where
  "joinRaftClusterUseRpc dialed leader_mode add_voter link leaderAddress tcpAddress name =
     go_bind (NewVermouthRpcClient (\<lambda>_ _ _. None) dialed leaderAddress) (\<lambda>c.
     go_bind (client_JoinCluster leader_mode add_voter link c tcpAddress name (NewStateContext :: unit StateContext)) (\<lambda>(err, _).
       Inr (err = None)))"

text \<open>
  When the leader reads the query the follower sent, the follower has joined exactly when raft took it as a
  voter: over RPC the leader must run in cluster mode, over HTTP a node in stand mode panics.
\<close>

lemma join_http:
  assumes "doJoin Cluster add_voter r = Inr a" "\<And>url. http_get url = Some (an_Body a)" "or_query r ''tcpAddress'' = tcpAddress" "or_query r ''name'' = name"
  shows "joinRaftClusterUseHttp http_get leaderAddress tcpAddress name \<longleftrightarrow> tcpAddress \<noteq> '''' \<and> add_voter name tcpAddress = None"
  using assms
  by (auto simp: joinRaftClusterUseHttp_def JOIN_SUCCESS_def doJoin_def says_def Let_def Stand_def Cluster_def
      split: option.splits if_splits)

lemma join_rpc:
  "joinRaftClusterUseRpc True leader_mode add_voter Delivered leaderAddress tcpAddress name =
    Inr (leader_mode \<noteq> Stand \<and> add_voter name tcpAddress)"
  by (simp add: joinRaftClusterUseRpc_def NewVermouthRpcClient_def client_JoinCluster_def grpc_call_def rpc_JoinCluster_def
      check_success_def Success_Res_def)

section \<open>The tables a configuration describes\<close>

text \<open>Of two entries with the same pattern the first counts.\<close>

definition config_view :: "HttpProxyArgs \<Rightarrow> view" where
  "config_view a = \<lparr>v_hosts = map_of (map (\<lambda>p. (pa_Pattern p, pa_Hosts p)) (ha_Paths a)),
     v_static = map_of (map (\<lambda>p. (pa_Pattern p, pa_Static p)) (ha_Paths a))\<rparr>"

text \<open>A proxy of the configuration: the default prefixer, and round-robin on every pattern.\<close>

definition config_ok :: "HttpProxyArgs \<Rightarrow> bool" where
  "config_ok a \<longleftrightarrow> ha_PrefixerType a = TypeHashPrefixer \<and> (\<forall>p \<in> set (ha_Paths a). pa_BalanceMode p = TypeRoundRobin)"

text \<open>What a new proxy and its tables keep while the patterns are added.\<close>

definition filled :: "int \<Rightarrow> view \<Rightarrow> 'l HttpReverseProxy \<Rightarrow> bool" where
  "filled port v px \<longleftrightarrow> shows_view px v \<and> dom (v_static v) = dom (v_hosts v) \<and> px_Port px = port \<and> px_Available px \<and>
     px_Acl px = NewRadixTree \<and> \<not> px_serving px \<and> px_Shutdown px"

lemma AddPrefix_identity:
  "AddPrefix p algo hosts static px = Inr px' \<Longrightarrow> px_serving px' = px_serving px \<and> px_Shutdown px' = px_Shutdown px"
  by (auto simp: AddPrefix_eq go_bind_eq_Inr_iff split: if_splits)

lemma add_config_path_filled:
  assumes "filled port v px" "pa_BalanceMode path = TypeRoundRobin"
  shows "\<exists>px'. add_config_path path px = Inr px' \<and>
    filled port (if v_hosts v (pa_Pattern path) \<noteq> None then v
      else v\<lparr>v_hosts := (v_hosts v)(pa_Pattern path \<mapsto> pa_Hosts path), v_static := (v_static v)(pa_Pattern path \<mapsto> pa_Static path)\<rparr>) px'"
proof -
  let ?v = "if v_hosts v (pa_Pattern path) \<noteq> None then v
      else v\<lparr>v_hosts := (v_hosts v)(pa_Pattern path \<mapsto> pa_Hosts path), v_static := (v_static v)(pa_Pattern path \<mapsto> pa_Static path)\<rparr>"
  have rr: "TypeRoundRobin \<noteq> TypeConsistenceHash" by (simp add: TypeRoundRobin_def TypeConsistenceHash_def)
  have sv: "shows_view px v" using assms(1) by (simp add: filled_def)
  have "view_edit (EAddPrefix (pa_Pattern path) TypeRoundRobin (pa_Hosts path) (pa_Static path)) v = Some ?v" by simp
  with AddPrefix_simulates[OF sv rr, of "pa_Pattern path" "pa_Hosts path" "pa_Static path"] obtain px1 where
    px1: "AddPrefix (pa_Pattern path) TypeRoundRobin (pa_Hosts path) (pa_Static path) px = Inr px1" "shows_view px1 ?v" by auto
  have "px_BalancerType px1 (pa_Pattern path) = Some TypeRoundRobin"
    using shows_viewD(4)[OF px1(2), of "pa_Pattern path"] by (cases "v_hosts v (pa_Pattern path)") (auto simp: entry_ok_Some)
  then have same: "px1\<lparr>px_BalancerType := (px_BalancerType px1)(pa_Pattern path \<mapsto> TypeRoundRobin)\<rparr> = px1"
    by (cases px1) (simp add: fun_upd_idem)
  have "filled port ?v px1"
    using px1(2) AddPrefix_kept[OF px1(1)] AddPrefix_identity[OF px1(1)] assms(1) by (auto simp: filled_def kept_def)
  then show ?thesis using px1(1) same assms(2) by (simp add: add_config_path_def)
qed

text \<open>The rest of the patterns behind what the table has already.\<close>

definition filled_view :: "view \<Rightarrow> HttpProxyPathArgs list \<Rightarrow> view" where
  "filled_view v ps = \<lparr>v_hosts = map_of (map (\<lambda>p. (pa_Pattern p, pa_Hosts p)) ps) ++ v_hosts v,
     v_static = map_of (map (\<lambda>p. (pa_Pattern p, pa_Static p)) ps) ++ v_static v\<rparr>"

lemma filled_view_Cons:
  assumes "dom (v_static v) = dom (v_hosts v)"
  shows "filled_view (if v_hosts v (pa_Pattern p) \<noteq> None then v
      else v\<lparr>v_hosts := (v_hosts v)(pa_Pattern p \<mapsto> pa_Hosts p), v_static := (v_static v)(pa_Pattern p \<mapsto> pa_Static p)\<rparr>) ps =
    filled_view v (p # ps)"
proof (cases "v_hosts v (pa_Pattern p)")
  case None
  with assms have "v_static v (pa_Pattern p) = None" by (metis domIff)
  with None show ?thesis by (cases v) (auto simp: filled_view_def fun_eq_iff map_add_def split: option.splits)
next
  case (Some hs)
  with assms obtain s where "v_static v (pa_Pattern p) = Some s" by (metis domD domI)
  with Some show ?thesis by (auto simp: filled_view_def fun_eq_iff map_add_def split: option.splits)
qed

lemma add_config_paths:
  assumes "filled port v px" "\<forall>p \<in> set ps. pa_BalanceMode p = TypeRoundRobin"
  shows "\<exists>px'. go_fold add_config_path ps px = Inr px' \<and> filled port (filled_view v ps) px'"
  using assms
proof (induction ps arbitrary: v px)
  case Nil
  have "filled_view v [] = v" by (cases v) (simp add: filled_view_def)
  with Nil show ?case by simp
next
  case (Cons p ps)
  from add_config_path_filled[OF Cons.prems(1), of p] Cons.prems(2) obtain px1 where
    px1: "add_config_path p px = Inr px1"
    "filled port (if v_hosts v (pa_Pattern p) \<noteq> None then v
      else v\<lparr>v_hosts := (v_hosts v)(pa_Pattern p \<mapsto> pa_Hosts p), v_static := (v_static v)(pa_Pattern p \<mapsto> pa_Static p)\<rparr>) px1" by auto
  from Cons.IH[OF px1(2)] Cons.prems px1(1) show ?case
    using filled_view_Cons[of v p ps] by (auto simp: filled_def)
qed

lemma fresh_filled: "filled port new_view (fresh_proxy port)"
proof -
  have "fresh_proxy port\<lparr>px_serving := False\<rparr> = fresh_proxy port" by (simp add: fresh_proxy_def)
  with fresh_proxy_view[of False port] show ?thesis by (simp add: filled_def fresh_proxy_def new_view_def)
qed

lemma config_proxies:
  assumes "\<forall>a \<in> set conf. config_ok a"
  shows "\<exists>pxs :: 'l HttpReverseProxy list. BuildHttpReverseProxyFromConfig conf = Inr pxs \<and> list_all2 (\<lambda>a px. filled (ha_Port a) (config_view a) px) conf pxs"
  using assms
proof (induction conf)
  case (Cons a conf)
  then obtain pxs :: "'l HttpReverseProxy list" where pxs: "BuildHttpReverseProxyFromConfig conf = Inr pxs"
    "list_all2 (\<lambda>a px. filled (ha_Port a) (config_view a) px) conf pxs" by auto
  from Cons.prems have ok: "ha_PrefixerType a = TypeHashPrefixer" "\<forall>p \<in> set (ha_Paths a). pa_BalanceMode p = TypeRoundRobin"
    by (simp_all add: config_ok_def)
  have new: "NewHttpReverseProxy a = Inr (fresh_proxy (ha_Port a) :: 'l HttpReverseProxy)"
    using ok(1) by (simp add: NewHttpReverseProxy_def Prefixer_Build_def fresh_proxy_def)
  have "filled_view new_view (ha_Paths a) = config_view a" by (simp add: filled_view_def config_view_def new_view_def)
  with add_config_paths[OF fresh_filled ok(2), of "ha_Port a"] obtain px :: "'l HttpReverseProxy" where
    "go_fold add_config_path (ha_Paths a) (fresh_proxy (ha_Port a)) = Inr px" "filled (ha_Port a) (config_view a) px" by auto
  with new pxs show ?case by simp
qed simp

section \<open>The table after a start\<close>

lemma add_all:
  assumes "distinct (map px_Port pxs)" "\<forall>px \<in> set pxs. sc_List ctx (px_Port px) = None"
  shows "foldl (\<lambda>c p. add_one p c) ctx pxs = ctx\<lparr>sc_List := sc_List ctx ++ map_of (map (\<lambda>px. (px_Port px, px)) pxs)\<rparr>"
  using assms
proof (induction pxs arbitrary: ctx)
  case (Cons px pxs)
  let ?ctx = "ctx\<lparr>sc_List := (sc_List ctx)(px_Port px \<mapsto> px)\<rparr>"
  have rest: "foldl (\<lambda>c p. add_one p c) ?ctx pxs = ?ctx\<lparr>sc_List := sc_List ?ctx ++ map_of (map (\<lambda>px. (px_Port px, px)) pxs)\<rparr>"
    by (rule Cons.IH) (use Cons.prems in \<open>auto simp: image_iff\<close>)
  have "px_Port px \<notin> dom (map_of (map (\<lambda>px. (px_Port px, px)) pxs))"
    using Cons.prems(1) by (auto simp: dom_map_of_conv_image_fst image_iff)
  then have list: "sc_List ?ctx ++ map_of (map (\<lambda>px. (px_Port px, px)) pxs) =
      sc_List ctx ++ map_of (map (\<lambda>px. (px_Port px, px)) (px # pxs))" by (simp add: map_add_upd_left)
  have "foldl (\<lambda>c p. add_one p c) ctx (px # pxs) = foldl (\<lambda>c p. add_one p c) ?ctx pxs"
    using Cons.prems(2) by (simp add: add_one_def)
  also have "\<dots> = ctx\<lparr>sc_List := sc_List ?ctx ++ map_of (map (\<lambda>px. (px_Port px, px)) pxs)\<rparr>" unfolding rest by simp
  finally show ?case unfolding list .
qed simp

text \<open>Every proxy of the configuration is there and as it was described.\<close>

definition configured :: "HttpProxyArgs list \<Rightarrow> (HttpProxyArgs \<Rightarrow> 'l HttpReverseProxy \<Rightarrow> bool) \<Rightarrow> 'l StateContext \<Rightarrow> bool" where
  "configured conf P ctx \<longleftrightarrow> dom (sc_List ctx) = ha_Port ` set conf \<and>
     (\<forall>a \<in> set conf. \<exists>px. sc_List ctx (ha_Port a) = Some px \<and> P a px)"

lemma add_configured_table:
  fixes ctx :: "'l StateContext"
  assumes "\<forall>a \<in> set (vc_HttpProxy args). config_ok a" "distinct (map ha_Port (vc_HttpProxy args))"
    "sc_mu ctx = unlocked" "sc_List ctx = (\<lambda>_. None)"
  shows "\<exists>ctx'. add_configured args ctx = Inr ctx' \<and> sc_discoveryMap ctx' = sc_discoveryMap ctx \<and>
    sc_discoverNotify ctx' = sc_discoverNotify ctx \<and>
    configured (vc_HttpProxy args) (\<lambda>a. filled (ha_Port a) (config_view a)) ctx'"
proof -
  let ?conf = "vc_HttpProxy args"
  from config_proxies[OF assms(1)] obtain pxs :: "'l HttpReverseProxy list" where
    pxs: "BuildHttpReverseProxyFromConfig ?conf = Inr pxs" "list_all2 (\<lambda>a px. filled (ha_Port a) (config_view a) px) ?conf pxs" by blast
  from pxs(2) have ports: "map px_Port pxs = map ha_Port ?conf"
    by (induction rule: list_all2_induct) (simp_all add: filled_def)
  let ?m = "map_of (map (\<lambda>px. (px_Port px, px)) pxs)"
  let ?ctx = "ctx\<lparr>sc_List := ?m\<rparr>"
  have dist: "distinct (map px_Port pxs)" using assms(2) ports by simp
  have "foldl (\<lambda>c p. add_one p c) ctx pxs = ?ctx" using add_all[OF dist, of ctx] assms(4) by (simp add: map_add_def)
  then have "add_configured args ctx = Inr (?ctx\<lparr>sc_mu := unlocked\<rparr>)"
    using assms(3) pxs(1) by (simp add: add_configured_def AddHttpReverseProxy_def)
  moreover have "?ctx\<lparr>sc_mu := unlocked\<rparr> = ?ctx" using assms(3) by simp
  moreover have "dom ?m = ha_Port ` set ?conf"
  proof -
    have "dom ?m = set (map px_Port pxs)" by (simp add: dom_map_of_conv_image_fst image_image)
    then show ?thesis by (simp add: ports)
  qed
  moreover have "\<exists>px. ?m (ha_Port a) = Some px \<and> filled (ha_Port a) (config_view a) px" if "a \<in> set ?conf" for a
  proof -
    from that obtain i where i: "i < length ?conf" "?conf ! i = a" by (auto simp: in_set_conv_nth)
    from list_all2_nthD[OF pxs(2) i(1)] i(2) have f: "filled (ha_Port a) (config_view a) (pxs ! i)" by simp
    have "pxs ! i \<in> set pxs" using i(1) list_all2_lengthD[OF pxs(2)] by simp
    then have "(ha_Port a, pxs ! i) \<in> set (map (\<lambda>px. (px_Port px, px)) pxs)" using f by (auto simp: filled_def image_iff intro!: bexI[of _ "pxs ! i"])
    moreover have "distinct (map fst (map (\<lambda>px. (px_Port px, px)) pxs))" using dist by (simp add: comp_def)
    ultimately have "?m (ha_Port a) = Some (pxs ! i)" by (rule map_of_is_SomeI[rotated])
    with f show ?thesis by blast
  qed
  ultimately show ?thesis by (intro exI[of _ ?ctx]) (simp add: configured_def)
qed

text \<open>\<open>Run\<close> listens for every proxy of the table.\<close>

lemma each_proxy_keeps:
  assumes "each_proxy body ports ctx = Inr ctx'"
  shows "sc_discoveryMap ctx' = sc_discoveryMap ctx \<and> sc_discoverNotify ctx' = sc_discoverNotify ctx"
proof -
  have "(sc_discoveryMap ctx', sc_discoverNotify ctx') = (sc_discoveryMap ctx, sc_discoverNotify ctx)"
    using assms unfolding each_proxy_def
    by (rule go_fold_keeps[where g = "\<lambda>c. (sc_discoveryMap c, sc_discoverNotify c)", rotated])
      (auto simp: go_bind_eq_Inr_iff split: option.splits)
  then show ?thesis by simp
qed

lemma run_configured:
  assumes "configured conf (\<lambda>a. filled (ha_Port a) (config_view a)) ctx" "distinct run_ports" "set run_ports = ha_Port ` set conf"
  shows "\<exists>ctx'. ctx_Run env run_ports ctx = Inr ctx' \<and> sc_discoveryMap ctx' = sc_discoveryMap ctx \<and>
    configured conf (\<lambda>a px. shows_view px (config_view a) \<and> px_serving px = env_listen env (ha_Port a) \<and> px_Available px \<and>
      px_Acl px = NewRadixTree) ctx'"
proof -
  let ?body = "\<lambda>port hp. go_bind (px_Run (env_listen env (px_Port hp)) hp) (\<lambda>(failed, hp'). Inr hp')"
  let ?P = "\<lambda>port hp hp'. hp' = hp\<lparr>px_serving := env_listen env port\<rparr>"
  note c = assms(1)[unfolded configured_def]
  have ran: "\<exists>hp'. ?body port hp = Inr hp' \<and> ?P port hp hp'" if port: "port \<in> set run_ports" "sc_List ctx port = Some hp" for port hp
  proof -
    from port assms(3) obtain a where a: "a \<in> set conf" "port = ha_Port a" by auto
    with c port(2) have f: "filled port (config_view a) hp" by fastforce
    then have "px_mu hp = unlocked" "px_Port hp = port" "\<not> px_serving hp" by (auto simp: filled_def dest: shows_viewD(1))
    then show ?thesis by (cases hp) (simp add: px_Run_def)
  qed
  from each_proxy_all[OF assms(2), of ctx ?body ?P] ran obtain ctx' where
    ctx': "each_proxy ?body run_ports ctx = Inr ctx'" "\<forall>port. port \<notin> set run_ports \<longrightarrow> sc_List ctx' port = sc_List ctx port"
    "\<forall>port \<in> set run_ports. rel_option (?P port) (sc_List ctx port) (sc_List ctx' port)" by blast
  have "dom (sc_List ctx') = dom (sc_List ctx)"
  proof -
    have "sc_List ctx' port = None \<longleftrightarrow> sc_List ctx port = None" for port
      using ctx'(2,3) by (cases "port \<in> set run_ports") (fastforce elim: option.rel_cases)+
    then show ?thesis by (simp add: dom_def)
  qed
  moreover have "\<exists>px. sc_List ctx' (ha_Port a) = Some px \<and> shows_view px (config_view a) \<and> px_serving px = env_listen env (ha_Port a) \<and>
      px_Available px \<and> px_Acl px = NewRadixTree" if "a \<in> set conf" for a
  proof -
    from c that obtain px where px: "sc_List ctx (ha_Port a) = Some px" "filled (ha_Port a) (config_view a) px" by blast
    with ctx'(3) assms(3) that have "sc_List ctx' (ha_Port a) = Some (px\<lparr>px_serving := env_listen env (ha_Port a)\<rparr>)"
      by (force simp: option_rel_Some1)
    with px(2) show ?thesis by (simp add: filled_def shows_view_def)
  qed
  ultimately show ?thesis
    using ctx'(1) each_proxy_keeps[OF ctx'(1)] c by (intro exI[of _ ctx']) (simp add: ctx_Run_def configured_def)
qed

lemma buildDiscovery_fields:
  assumes "\<forall>d \<in> set ds. connect (dc_Address d) (dc_ConnectTimeout d)" "\<forall>port. sc_discoveryMap ctx port \<noteq> Some None"
  shows "sc_List (buildDiscovery connect ds ctx) = sc_List ctx \<and> sc_mu (buildDiscovery connect ds ctx) = sc_mu ctx \<and>
    (\<forall>port. sc_discoveryMap (buildDiscovery connect ds ctx) port \<noteq> Some None)"
  using assms
proof (induction ds arbitrary: ctx)
  case (Cons d ds)
  have "sc_List (build_one connect d ctx) = sc_List ctx \<and> sc_mu (build_one connect d ctx) = sc_mu ctx \<and>
    (\<forall>port. sc_discoveryMap (build_one connect d ctx) port \<noteq> Some None)"
    using Cons.prems by (simp add: build_one_def Discovery_Build_def NewZookeeperDiscovery_def)
  with Cons.IH[of "build_one connect d ctx"] Cons.prems(1) show ?case by (simp add: buildDiscovery_def)
qed (simp add: buildDiscovery_def)

text \<open>
  C15: a node in stand mode that has no snapshot, whose configuration has the one kind of prefixer, round-robin
  on every path and every port once, and whose discovery servers can be reached, starts with exactly the
  proxies of its configuration: each routes by the patterns of its entry, the first of equal patterns
  counting, forbids nobody, is available, and serves when its port could be listened on. The management server is
  open for writes, and the RPC server runs when it is configured and its port could be listened on.
\<close>

theorem stand_start_serves:
  fixes env :: "('l, 'f) env"
  assumes "\<forall>a \<in> set (vc_HttpProxy args). config_ok a" "distinct (map ha_Port (vc_HttpProxy args))"
    "\<forall>d \<in> set (vc_Discovery args). connect (dc_Address d) (dc_ConnectTimeout d)"
    "distinct run_ports" "set run_ports = ha_Port ` set (vc_HttpProxy args)"
  shows "\<exists>ctx p. vermouth_Start run_cluster (runStand js env open_ok None rpc_listen ports kos run_ports dis_ports args) ''stand''
      (NewVermouth connect args) = Inr (ctx, p) \<and>
    dom (sc_List ctx) = ha_Port ` set (vc_HttpProxy args) \<and>
    (\<forall>a \<in> set (vc_HttpProxy args). \<exists>px. sc_List ctx (ha_Port a) = Some px \<and> shows_view px (config_view a) \<and>
       px_serving px = env_listen env (ha_Port a) \<and> px_Available px \<and> px_Acl px = NewRadixTree) \<and>
    (sa_HttpServer (vc_Server args) \<longrightarrow> (\<exists>h. pe_http p = Some h \<and> checkWritePermission h)) \<and>
    pe_rpc p = (if sa_RpcServer (vc_Server args) \<and> rpc_listen then 1 else 0)"
proof -
  let ?new = "buildDiscovery connect (vc_Discovery args) (NewStateContext :: 'l StateContext)"
  have new: "sc_List ?new = (\<lambda>_. None)" "sc_mu ?new = unlocked" "\<forall>port. sc_discoveryMap ?new port \<noteq> Some None"
    using buildDiscovery_fields[OF assms(3), of "NewStateContext :: 'l StateContext"] by (simp_all add: NewStateContext_def)
  from add_configured_table[OF assms(1,2) new(2,1)] obtain ctx1 where
    ctx1: "add_configured args ?new = Inr ctx1" "sc_discoveryMap ctx1 = sc_discoveryMap ?new"
    "configured (vc_HttpProxy args) (\<lambda>a. filled (ha_Port a) (config_view a)) ctx1" by blast
  from run_configured[OF ctx1(3) assms(4,5), of env] obtain ctx2 where
    ctx2: "ctx_Run env run_ports ctx1 = Inr ctx2" "sc_discoveryMap ctx2 = sc_discoveryMap ctx1"
    "configured (vc_HttpProxy args) (\<lambda>a px. shows_view px (config_view a) \<and> px_serving px = env_listen env (ha_Port a) \<and>
      px_Available px \<and> px_Acl px = NewRadixTree) ctx2" by blast
  have "\<exists>ls ns. startDiscovery dis_ports ctx2 = Inr (ls, ns)"
    using new(3) ctx1(2) ctx2(2) by (auto simp: startDiscovery_def)
  then obtain ls ns where "startDiscovery dis_ports ctx2 = Inr (ls, ns)" by blast
  with ctx1(1) ctx2(1,3) show ?thesis
    by (auto simp: vermouth_Start_def runStand_def NewVermouth_def NewPeer_def hs_Start_def rpc_Start_def configured_def Let_def)
qed

definition example_config :: VermouthConfig where
  "example_config = \<lparr>vc_Server = \<lparr>sa_HttpServer = True, sa_HttpPort = 9001, sa_RpcServer = True, sa_RpcPort = 9002, sa_Name = ''node'',
       sa_Mode = ''stand'', sa_RootLevel = ''info'', sa_DataDir = ''data''\<rparr>,
     vc_HttpProxy = [\<lparr>ha_Port = 9000, ha_PrefixerType = ''hash-prefixer'',
       ha_Paths = [\<lparr>pa_Pattern = ''/api'', pa_Hosts = [''a:1''], pa_Static = False, pa_BalanceMode = ''round-robin''\<rparr>]\<rparr>],
     vc_Discovery = [],
     vc_Raft = \<lparr>ra_TcpAddress = '''', ra_Leader = False, ra_Method = '''', ra_LeaderAddress = '''', ra_SnapshotInterval = 0,
       ra_SnapshotThreshold = 0, ra_HeartbeatTimeout = 0, ra_ElectionTimeout = 0\<rparr>,
     vc_Log = []\<rparr>"

theorem stand_start_serves_witness:
  "\<exists>ctx p px. vermouth_Start (\<lambda>_. Inl Deadlock) (runStand example_json (example_env RaftApplied) True None True [] (example_orders [])
      [9000] [] example_config) ''stand'' (NewVermouth (\<lambda>_ _. True) example_config) = Inr (ctx, p) \<and>
    sc_List ctx 9000 = Some px \<and> px_Available px \<and> px_Paths px ''/api'' = Some [''a:1'']"
proof -
  have ok: "\<forall>a \<in> set (vc_HttpProxy example_config). config_ok a"
    by (simp add: example_config_def config_ok_def TypeHashPrefixer_def TypeRoundRobin_def)
  have "distinct (map ha_Port (vc_HttpProxy example_config))" "\<forall>d \<in> set (vc_Discovery example_config). True"
    "set [9000] = ha_Port ` set (vc_HttpProxy example_config)" by (simp_all add: example_config_def)
  from stand_start_serves[OF ok this(1,2) _ this(3), of "\<lambda>_. Inl Deadlock" example_json "example_env RaftApplied" True True "[]"
      "example_orders []" "[]"] obtain ctx p px where
    "vermouth_Start (\<lambda>_. Inl Deadlock) (runStand example_json (example_env RaftApplied) True None True [] (example_orders [])
      [9000] [] example_config) ''stand'' (NewVermouth (\<lambda>_ _. True) example_config) = Inr (ctx, p)"
    "sc_List ctx 9000 = Some px" "px_Available px" "shows_view px (config_view (hd (vc_HttpProxy example_config)))"
    by (auto simp: example_config_def)
  moreover have "v_hosts (config_view (hd (vc_HttpProxy example_config))) ''/api'' = Some [''a:1'']"
    by (simp add: config_view_def example_config_def)
  ultimately show ?thesis
    using shows_viewD(4)[of px "config_view (hd (vc_HttpProxy example_config))" "''/api''"] by (auto simp: entry_ok_Some)
qed

end
