(* ===== verification/SnapshotLog.thy ===== *)
theory SnapshotLog
  imports StateSnapshot
begin

text \<open>
  A snapshot and the rest of the log. A node that comes late does not get the whole log: raft hands it a
  snapshot (\<open>Persist\<close>, \<open>Restore\<close> of \<open>src/vermouth/context.go\<close>) and the entries after it. As long as no
  proxy has had a blacklist and none is stopped, the two ways lead to the same tables.
\<close>

section \<open>A restored context\<close>

text \<open>The orders in which a node visits the ports and the keys of the maps of each proxy.\<close>

definition walks :: "int list \<Rightarrow> (int \<Rightarrow> key_orders) \<Rightarrow> 'l StateContext \<Rightarrow> bool" where
  "walks ports kos ctx \<longleftrightarrow> distinct ports \<and> set ports = dom (sc_List ctx) \<and>
     (\<forall>port px. sc_List ctx port = Some px \<longrightarrow> keys_ok (kos port) px)"

text \<open>The proxies \<open>Restore\<close> of a raft snapshot brings back as they were.\<close>

definition unlisted_and_up :: "'l StateContext \<Rightarrow> bool" where
  "unlisted_and_up ctx \<longleftrightarrow> (\<forall>port px. sc_List ctx port = Some px \<longrightarrow> px_Acl px = NewRadixTree \<and> px_Available px)"

lemma unlisted_and_upD:
  assumes "unlisted_and_up ctx" "sc_List ctx port = Some px"
  shows "px_Acl px = NewRadixTree" "px_Available px" "dom (t_Record (px_Acl px)) = {}"
  using assms by (auto simp: unlisted_and_up_def NewRadixTree_def)

lemma restored_view_flags: "dom (v_hosts v) \<subseteq> dom (v_static v) \<Longrightarrow> restored_view v = v"
  by (cases v) (auto simp: restored_view_def fun_eq_iff)

lemma restorable_flags:
  assumes "restorable px" "shows_view px v"
  shows "dom (v_hosts v) \<subseteq> dom (v_static v)"
  using assms shows_view_Paths[OF assms(2)] shows_viewD(3)[OF assms(2)] by (simp add: restorable_def)

lemma proxy_back_twin:
  assumes "shows_view px v" "restorable px" "proxy_back v px px'" "px_Available px' = px_Available px" "px_Acl px' = px_Acl px"
  shows "twin px px'"
proof -
  note flags = restorable_flags[OF assms(2,1)]
  have v: "shows_view px' v" using assms(3) by (simp add: proxy_back_def restored_view_flags[OF flags])
  have "restorable px'"
    using assms(2,3) flags shows_view_Paths[OF v] shows_viewD(3)[OF v] by (simp add: restorable_def proxy_back_def)
  then show ?thesis using assms v by (auto simp: twin_def proxy_back_def)
qed

lemma restorable_snap_good:
  assumes "shows_view px v" "restorable px" "dom (t_Record (px_Acl px)) = {}"
  shows "snap_good v px"
  using assms by (simp add: snap_good_def restorable_def infos_good_def infos_of_def)

text \<open>A node restored from a snapshot of a context is a twin of the node that wrote it.\<close>

lemma raft_restore_twin:
  fixes ctx :: "'l StateContext" and env :: "('l, 'f) env"
  assumes "json_ok js" "walks ports kos ctx" "walks ports' kos' ctx" "ctx_twin ctx ctx" "unlisted_and_up ctx"
    "Persist js ports kos True True ctx = (True, [SinkWrite bs, SinkClose])"
  shows "\<exists>ctx'. ctx_Restore js env ports' kos' bs NewStateContext = Inr (None, ctx') \<and> ctx_twin ctx ctx'"
proof -
  have self: "twin px px" if "sc_List ctx port = Some px" for port px
    using assms(4)[unfolded ctx_twin_def, THEN conjunct2, THEN conjunct2, THEN spec, of port] that by simp
  have "\<exists>v. \<forall>px. sc_List ctx port = Some px \<longrightarrow> shows_view px v" for port
    using self[of port] by (cases "sc_List ctx port") (auto elim: twinE)
  then obtain V where V: "\<And>port px. sc_List ctx port = Some px \<Longrightarrow> shows_view px (V port)"
    using choice[of "\<lambda>port v. \<forall>px. sc_List ctx port = Some px \<longrightarrow> shows_view px v"] by blast
  have good: "snap_good (V port) px" if "sc_List ctx port = Some px" for port px
    using restorable_snap_good[OF V[OF that]] self[OF that] unlisted_and_upD(3)[OF assms(5) that] by (simp add: twin_def)
  then have snap: "snap_ctx V kos ctx" "snap_ctx V kos' ctx" using assms(2,3) by (simp_all add: snap_ctx_def walks_def)
  have ports: "distinct ports" "set ports = dom (sc_List ctx)" "distinct ports'" "set ports' = set ports"
    using assms(2,3) by (simp_all add: walks_def)
  have "\<forall>port px. sc_List ctx port = Some px \<longrightarrow> dom (t_Record (px_Acl px)) = {}"
    using unlisted_and_upD(3)[OF assms(5)] by blast
  from raft_restore_plain[OF assms(1) ports snap assms(6) this, where env = env] obtain ctx' where
    run: "ctx_Restore js env ports' kos' bs NewStateContext = Inr (None, ctx')" "sc_mu ctx' = unlocked"
    and rel: "\<And>port. rel_option (\<lambda>px px'. px_Available px' \<and> proxy_back (V port) px px') (sc_List ctx port) (sc_List ctx' port)"
    by blast
  have "rel_option twin (sc_List ctx port) (sc_List ctx' port)" for port
  proof (rule option.rel_mono_strong[OF rel])
    fix px px' assume "px \<in> set_option (sc_List ctx port)" and same_back: "px_Available px' \<and> proxy_back (V port) px px'"
    then have px: "sc_List ctx port = Some px" by simp
    from same_back have acl: "px_Acl px' = px_Acl px"
      using unlisted_and_upD(1,3)[OF assms(5) px] by (simp add: proxy_back_def)
    from self[OF px] have "restorable px" by (simp add: twin_def)
    from proxy_back_twin[OF V[OF px] this _ _ acl] same_back unlisted_and_upD(2)[OF assms(5) px] show "twin px px'" by simp
  qed
  with run assms(4) show ?thesis by (auto simp: ctx_twin_def)
qed

section \<open>The rest of the log\<close>

lemma started_twin:
  fixes env :: "('l, 'f) env"
  assumes "node_run env es NewStateContext = Inr ctx" "\<forall>data \<in> set (node_log es). table_entry (env_gob env) data"
  shows "ctx_twin ctx ctx"
proof -
  have "ctx_twin (NewStateContext :: 'l StateContext) NewStateContext" by (simp add: ctx_twin_def NewStateContext_def)
  from runs_same[OF this refl refl assms(2)] assms(1) show ?thesis by simp
qed

text \<open>
  C9: a node applies a log. Another one is restored from a snapshot of the first, taken in the middle, and
  applies only the entries after it, with any requests between them on either. The two stop with the same
  fault or have the same ports, and on every port the same hosts, algorithms, static flags, blacklist
  and availability. When the snapshot is taken no proxy has had a network in its blacklist and none is stopped, and the log
  has only entries that edit these tables: none sets a rate, removes or closes a proxy, or builds a
  consistent-hash balancer.
\<close>

theorem snapshot_replaces_log:
  fixes env1 env2 :: "('l, 'f) env"
  assumes "json_ok js" "env_gob env1 = env_gob env2"
    "node_run env1 es NewStateContext = Inr ctx" "walks ports kos ctx" "walks ports' kos' ctx" "unlisted_and_up ctx"
    "Persist js ports kos True True ctx = (True, [SinkWrite bs, SinkClose])"
    "node_log es1 = node_log es2" "\<forall>data \<in> set (node_log (es @ es1)). table_entry (env_gob env1) data"
  shows "\<exists>ctx'. ctx_Restore js env2 ports' kos' bs NewStateContext = Inr (None, ctx') \<and>
    (case node_run env1 (es @ es1) NewStateContext of
      Inl e \<Rightarrow> node_run env2 es2 ctx' = Inl e
    | Inr c1 \<Rightarrow> \<exists>c2. node_run env2 es2 ctx' = Inr c2 \<and>
        (\<forall>port. map_option tables (sc_List c1 port) = map_option tables (sc_List c2 port)))"
proof -
  have before: "\<forall>data \<in> set (node_log es). table_entry (env_gob env1) data"
    and after: "\<forall>data \<in> set (node_log es2). table_entry (env_gob env2) data"
    using assms(2,8,9) by (simp_all add: node_log_def)
  from raft_restore_twin[OF assms(1,4,5) started_twin[OF assms(3) before] assms(6,7), where env = env2] obtain ctx' where
    ctx': "ctx_Restore js env2 ports' kos' bs NewStateContext = Inr (None, ctx')" "ctx_twin ctx ctx'" by blast
  have run: "node_run env1 (es @ es1) NewStateContext = node_run env1 es1 ctx"
    using assms(3) by (simp add: node_run_def go_fold_append)
  show ?thesis
    using ctx'(1) same_outcome[OF runs_same[OF ctx'(2) assms(2,8) after]] unfolding run by blast
qed

theorem snapshot_replaces_log_witness:
  "\<exists>ctx bs ctx'. node_run (example_env RaftApplied) [Committed (example_entry ADD_HTTP_PROXY
        (BAddHttpProxy \<lparr>ahp_Port = 9000, ahp_PrefixType = ''hash-prefixer''\<rparr>))] NewStateContext = Inr ctx \<and>
    Persist example_json [9000] (example_orders []) True True ctx = (True, [SinkWrite bs, SinkClose]) \<and>
    ctx_Restore example_json (example_env RaftFailed) [9000] (example_orders []) bs NewStateContext = Inr (None, ctx') \<and>
    (case node_run (example_env RaftApplied) ([Committed (example_entry ADD_HTTP_PROXY
        (BAddHttpProxy \<lparr>ahp_Port = 9000, ahp_PrefixType = ''hash-prefixer''\<rparr>))] @ [Committed (example_entry CHG_STATIC
        (BChangeStatic \<lparr>hcs_Port = 9000, hcs_Prefix = ''/api''\<rparr>))]) NewStateContext of
      Inl e \<Rightarrow> node_run (example_env RaftFailed) [Committed (example_entry CHG_STATIC
        (BChangeStatic \<lparr>hcs_Port = 9000, hcs_Prefix = ''/api''\<rparr>))] ctx' = Inl e
    | Inr c1 \<Rightarrow> \<exists>c2. node_run (example_env RaftFailed) [Committed (example_entry CHG_STATIC
        (BChangeStatic \<lparr>hcs_Port = 9000, hcs_Prefix = ''/api''\<rparr>))] ctx' = Inr c2 \<and>
        (\<forall>port. map_option tables (sc_List c1 port) = map_option tables (sc_List c2 port)))"
proof -
  let ?add = "example_entry ADD_HTTP_PROXY (BAddHttpProxy \<lparr>ahp_Port = 9000, ahp_PrefixType = TypeHashPrefixer\<rparr>)"
  let ?static = "example_entry CHG_STATIC (BChangeStatic \<lparr>hcs_Port = 9000, hcs_Prefix = ''/api''\<rparr>)"
  let ?ctx = "NewStateContext\<lparr>sc_List := [9000 \<mapsto> fresh_proxy 9000\<lparr>px_serving := True\<rparr>]\<rparr> :: bucket StateContext"
  have run: "node_run (example_env RaftApplied) [Committed ?add] NewStateContext = Inr ?ctx"
    by (simp add: node_run_def node_step_def example_entry_def Apply_Encode[simplified] apply_opt_handlers
        handleAddHttpProxy_def example_gob_def decoded_Some create_fresh NewStateContext_def)
  have walks: "walks [9000] (example_orders []) ?ctx"
    by (simp add: walks_def keys_ok_def example_orders_def fresh_proxy_def NewRadixTree_def)
  have up: "unlisted_and_up ?ctx" by (simp add: unlisted_and_up_def fresh_proxy_def)
  obtain bs where "Marshal example_json [9000] (example_orders []) ?ctx = Some bs" by (simp add: Marshal_def example_json_def)
  then have persist: "Persist example_json [9000] (example_orders []) True True ?ctx = (True, [SinkWrite bs, SinkClose])"
    by (simp add: Persist_def)
  have entries: "\<forall>data \<in> set (node_log ([Committed ?add] @ [Committed ?static])). table_entry (env_gob (example_env RaftApplied)) data"
    by (simp add: example_entry_table)
  from snapshot_replaces_log[OF example_json_ok _ run walks walks up persist refl entries, of "example_env RaftFailed"]
    run persist show ?thesis by (simp add: TypeHashPrefixer_def)
qed

end
