(* ===== verification/FileLog.thy ===== *)
theory FileLog
  imports Config
begin

text \<open>
  The log files, \<open>src/logger/file_logger.go\<close>, and the formatting of messages in \<open>logger.go\<close>. The disk maps
  names to contents. Which operations of the file system fail is the argument \<open>io\<close>; \<open>tm\<close> is Go's
  \<open>time\<close> package, which formats the \<open>now\<close> of a call, in nanoseconds. The file handle is only open or
  closed: it belongs to the file of that name, which nobody else renames.
\<close>

section \<open>Messages\<close>

record message =
  ms_Timestamp :: int
  ms_TimestampFormat :: string
  ms_Millisecond :: int
  ms_MillisecondFormat :: string
  ms_Level :: int
  ms_LevelString :: string
  ms_Body :: string
  ms_File :: string
  ms_Line :: int
  ms_Function :: string

definition defaultLoggerMessageFormat :: string where
  "defaultLoggerMessageFormat = ''[%level_string%] %timestamp_format% %body%''"

definition messageFormat :: "string \<Rightarrow> string \<Rightarrow> message \<Rightarrow> string" where
  "messageFormat server_name format msg =
     (let message = Replace1 format ''%timestamp%'' (Itoa (ms_Timestamp msg));
          message = Replace1 message ''%timestamp_format%'' (ms_TimestampFormat msg);
          message = Replace1 message ''%millisecond%'' (Itoa (ms_Millisecond msg));
          message = Replace1 message ''%millisecond_format%'' (ms_MillisecondFormat msg);
          message = Replace1 message ''%level%'' (Itoa (ms_Level msg));
          message = Replace1 message ''%level_string%'' (ms_LevelString msg);
          message = Replace1 message ''%file%'' (ms_File msg);
          message = Replace1 message ''%line%'' (Itoa (ms_Line msg));
          message = Replace1 message ''%function%'' (ms_Function msg);
          message = Replace1 message ''%body%'' (ms_Body msg);
          message = Replace1 message ''%server_name%'' server_name
      in message)"

section \<open>The file writer\<close>

record io =
  io_create :: bool
  io_lines :: bool
  io_open :: bool
  io_rename :: bool
  io_stat :: bool
  io_write :: bool

record timelib =
  tl_Format :: "string \<Rightarrow> int \<Rightarrow> string"
  tl_Year :: "int \<Rightarrow> int"

type_synonym disk = "string \<Rightarrow> string option"

record FileWriter =
  fw_writer :: bool
  fw_startLine :: int
  fw_startTime :: int
  fw_fileName :: string

definition YEAR_FORMAT :: string where "YEAR_FORMAT = ''2006''"
definition MONTH_FORMAT :: string where "MONTH_FORMAT = ''200601''"
definition DAY_FORMAT :: string where "DAY_FORMAT = ''20060102''"
definition HOUR_FORMAT :: string where "HOUR_FORMAT = ''2006010206''"

text \<open>The result of an operation: whether it went well, and the writer and the disk.\<close>

type_synonym logged = "bool \<times> FileWriter \<times> disk"

definition log_then :: "logged \<Rightarrow> (FileWriter \<Rightarrow> disk \<Rightarrow> logged) \<Rightarrow> logged" where
  "log_then r f = (let (ok, fw, d) = r in if ok then f fw d else (False, fw, d))"

definition newlines :: "string \<Rightarrow> nat" where
  "newlines s = length (filter (\<lambda>c. c = CHR 0x0A) s)"

definition GetFileLines :: "string \<Rightarrow> int" where
  "GetFileLines content = 1 + int (newlines content)"

definition NewFileWriter :: "string \<Rightarrow> FileWriter" where
  "NewFileWriter fn = \<lparr>fw_writer = False, fw_startLine = 0, fw_startTime = 0, fw_fileName = fn\<rparr>"

text \<open>\<open>utils/file.go\<close>: a file that can be created is a valid path; the file it makes to find out is removed.\<close>

definition PathExists :: "string \<Rightarrow> disk \<Rightarrow> bool" where
  "PathExists path d \<longleftrightarrow> d path \<noteq> None"

definition CreateFile :: "io \<Rightarrow> string \<Rightarrow> disk \<Rightarrow> bool \<times> disk" where
  "CreateFile io filename d = (if io_create io then (True, d(filename \<mapsto> '''')) else (False, d))"

definition PathIsValid :: "io \<Rightarrow> string \<Rightarrow> disk \<Rightarrow> bool \<times> disk" where
  "PathIsValid io fp d =
     (if PathExists fp d then (True, d)
      else let (made, d1) = CreateFile io fp d
           in if made \<and> io_write io then (True, d1(fp := None)) else (False, d1))"

lemma PathIsValid_keeps: "PathIsValid io fp d = (True, d') \<Longrightarrow> d' = d"
  by (auto simp: PathIsValid_def PathExists_def CreateFile_def split: if_splits)

definition initFile :: "io \<Rightarrow> int \<Rightarrow> FileWriter \<Rightarrow> disk \<Rightarrow> logged" where
  "initFile io now fw d =
     (let (made, d1) = (if PathExists (fw_fileName fw) d then (True, d) else CreateFile io (fw_fileName fw) d)
      in if \<not> made then (False, fw, d1)
         else
           let fw1 = fw\<lparr>fw_startTime := now div 10 ^ 9\<rparr>
           in if \<not> io_lines io then (False, fw1, d1)
              else
                let fw2 = fw1\<lparr>fw_startLine := GetFileLines (map_get '''' d1 (fw_fileName fw))\<rparr>
                in if \<not> io_open io then (False, fw2, d1) else (True, fw2\<lparr>fw_writer := True\<rparr>, d1))"

text \<open>\<open>path.Ext\<close>: what the last element of the path has from its last dot on.\<close>

definition path_Ext :: "string \<Rightarrow> string" where
  "path_Ext p =
     (let base = takeWhile (\<lambda>c. c \<noteq> CHR ''/'') (rev p)
      in if CHR ''.'' \<in> set base then CHR ''.'' # rev (takeWhile (\<lambda>c. c \<noteq> CHR ''.'') base) else '''')"

definition archive_name :: "string \<Rightarrow> string \<Rightarrow> string \<Rightarrow> string" where
  "archive_name fileName sep flag =
     (let suffix = path_Ext fileName in Replace1 fileName suffix '''' @ sep @ flag @ suffix)"

text \<open>Close, rename and start anew. Renaming replaces a file that has the new name already.\<close>

definition rename_to :: "io \<Rightarrow> int \<Rightarrow> string \<Rightarrow> FileWriter \<Rightarrow> disk \<Rightarrow> logged" where
  "rename_to io now oldFileName fw d =
     (let fw1 = fw\<lparr>fw_writer := False\<rparr>
      in if \<not> io_rename io \<or> d (fw_fileName fw) = None then (False, fw1, d)
         else if oldFileName = fw_fileName fw then initFile io now fw1 d
         else initFile io now fw1 (d(oldFileName := d (fw_fileName fw), fw_fileName fw := None)))"

definition sliceByDate :: "timelib \<Rightarrow> io \<Rightarrow> int \<Rightarrow> string \<Rightarrow> FileWriter \<Rightarrow> disk \<Rightarrow> logged" where
  "sliceByDate tm io now dateSlice fw d =
     (let startTime = fw_startTime fw * 10 ^ 9;
          changed = (\<lambda>layout. tl_Format tm layout startTime \<noteq> tl_Format tm layout now);
          rotate = (\<lambda>layout. rename_to io now (archive_name (fw_fileName fw) ''_'' (tl_Format tm layout startTime)) fw d)
      in if dateSlice = ''y'' \<and> tl_Year tm startTime \<noteq> tl_Year tm now then rotate YEAR_FORMAT
         else if dateSlice = ''m'' \<and> changed MONTH_FORMAT then rotate MONTH_FORMAT
         else if dateSlice = ''d'' \<and> changed DAY_FORMAT then rotate DAY_FORMAT
         else if dateSlice = ''h'' \<and> changed HOUR_FORMAT then rotate HOUR_FORMAT
         else (True, fw, d))"

definition line_archive :: "timelib \<Rightarrow> string \<Rightarrow> int \<Rightarrow> string" where
  "line_archive tm fileName now = archive_name fileName ''.'' (tl_Format tm ''2006-01-02-03.04.05.9999'' now)"

definition sliceByLine :: "timelib \<Rightarrow> io \<Rightarrow> int \<Rightarrow> int \<Rightarrow> FileWriter \<Rightarrow> disk \<Rightarrow> logged" where
  "sliceByLine tm io now maxLine fw d =
     (if fw_startLine fw \<ge> maxLine then rename_to io now (line_archive tm (fw_fileName fw) now) fw d
      else (True, fw, d))"

text \<open>The size is in units of 1024 bytes.\<close>

definition sliceBySize :: "timelib \<Rightarrow> io \<Rightarrow> int \<Rightarrow> int \<Rightarrow> FileWriter \<Rightarrow> disk \<Rightarrow> logged" where
  "sliceBySize tm io now maxSize fw d =
     (case d (fw_fileName fw) of
        None \<Rightarrow> (False, fw, d)
      | Some content \<Rightarrow>
          if \<not> io_stat io then (False, fw, d)
          else if int (length content) div 1024 \<ge> maxSize
          then rename_to io now (archive_name (fw_fileName fw) ''.'' (tl_Format tm ''2006-01-02-03.04.05'' now)) fw d
          else (True, fw, d))"

definition log_line :: "string \<Rightarrow> LogArgs \<Rightarrow> message \<Rightarrow> string" where
  "log_line server_name cfg msg = messageFormat server_name (la_Format cfg) msg @ [CHR 0x0D, CHR 0x0A]"

definition append_line :: "io \<Rightarrow> LogArgs \<Rightarrow> string \<Rightarrow> FileWriter \<Rightarrow> disk \<Rightarrow> logged" where
  "append_line io cfg line fw d =
     (let ok = (io_write io \<and> fw_writer fw);
          d1 = (if ok then d(fw_fileName fw := map_option (\<lambda>c. c @ line) (d (fw_fileName fw))) else d)
      in (ok, if la_MaxLine cfg \<noteq> 0 then fw\<lparr>fw_startLine := fw_startLine fw + int (newlines line)\<rparr> else fw, d1))"

definition writeByConfig ::
  "timelib \<Rightarrow> string \<Rightarrow> io \<Rightarrow> int \<Rightarrow> LogArgs \<Rightarrow> message \<Rightarrow> FileWriter \<Rightarrow> disk \<Rightarrow> logged" where
  "writeByConfig tm server_name io now cfg msg fw d =
     log_then (if la_DateSlice cfg \<noteq> '''' then sliceByDate tm io now (la_DateSlice cfg) fw d else (True, fw, d)) (\<lambda>fw d.
     log_then (if la_MaxLine cfg \<noteq> 0 then sliceByLine tm io now (la_MaxLine cfg) fw d else (True, fw, d)) (\<lambda>fw d.
     log_then (if la_MaxSize cfg \<noteq> 0 then sliceBySize tm io now (la_MaxSize cfg) fw d else (True, fw, d)) (\<lambda>fw d.
       append_line io cfg (log_line server_name cfg msg) fw d)))"

datatype log_init_error = WrongLogType | NullFileName | WrongDateSlice

text \<open>\<open>Init\<close> of the adapter; an error of \<open>initFile\<close> is not looked at.\<close>

definition FileAdapter_Init :: "io \<Rightarrow> int \<Rightarrow> LogArgs \<Rightarrow> disk \<Rightarrow> log_init_error + LogArgs \<times> FileWriter \<times> disk" where
  "FileAdapter_Init io now args d =
     (if la_Type args \<noteq> ''file'' then Inl WrongLogType
      else if la_FileName args = '''' then Inl NullFileName
      else
        let cfg = (if la_Format args = '''' then args\<lparr>la_Format := defaultLoggerMessageFormat\<rparr> else args)
        in if la_DateSlice cfg \<notin> {'''', ''y'', ''m'', ''d'', ''h''} then Inl WrongDateSlice
           else (let (ok, fw, d1) = initFile io now (NewFileWriter (la_FileName cfg)) d in Inr (cfg, fw, d1)))"

section \<open>Archives\<close>

lemma HasPrefix_length: "HasPrefix s p \<Longrightarrow> length p \<le> length s"
  by (induction s p rule: HasPrefix.induct) simp_all

lemma Replace1_length: "length s \<le> length (Replace1 s old new) + length old"
  by (induction s) (auto dest: HasPrefix_length)

lemma archive_name_new: "archive_name s (c # sep) flag \<noteq> s"
proof -
  have "length s < length (archive_name s (c # sep) flag)"
    using Replace1_length[of s "path_Ext s" "''''"] by (simp add: archive_name_def Let_def)
  then show ?thesis by auto
qed

text \<open>An archive of the same name is lost.\<close>

lemma rename_overwrites:
  assumes "io_rename io" "d (fw_fileName fw) = Some content" "old \<noteq> fw_fileName fw" "rename_to io now old fw d = (ok, fw', d')"
  shows "d' old = Some content"
  using assms by (auto simp: rename_to_def initFile_def PathExists_def CreateFile_def Let_def split: if_splits)

section \<open>Slicing by lines keeps every line\<close>

definition io_fine :: io where
  "io_fine = \<lparr>io_create = True, io_lines = True, io_open = True, io_rename = True, io_stat = True, io_write = True\<rparr>"

fun log_all ::
  "timelib \<Rightarrow> string \<Rightarrow> LogArgs \<Rightarrow> (int \<times> message) list \<Rightarrow> FileWriter \<Rightarrow> disk \<Rightarrow> logged" where
  "log_all tm server_name cfg [] fw d = (True, fw, d)"
| "log_all tm server_name cfg ((now, msg) # ms) fw d =
     log_then (writeByConfig tm server_name io_fine now cfg msg fw d) (\<lambda>fw d. log_all tm server_name cfg ms fw d)"

text \<open>The contents of files, one after the other.\<close>

definition contents :: "disk \<Rightarrow> string list \<Rightarrow> string" where
  "contents d names = concat (map (\<lambda>n. map_get '''' d n) names)"

text \<open>
  The invariant: the handle is open, the counter is one more than the lines of the file, all that was
  written is in the archives and the file, and no file has more lines than allowed.
\<close>

definition log_inv :: "nat \<Rightarrow> string \<Rightarrow> string list \<Rightarrow> FileWriter \<Rightarrow> disk \<Rightarrow> bool" where
  "log_inv maxLine written names fw d \<longleftrightarrow>
     fw_writer fw \<and> (\<exists>c. d (fw_fileName fw) = Some c \<and> fw_startLine fw = 1 + int (newlines c)) \<and>
     contents d (names @ [fw_fileName fw]) = written \<and> fw_fileName fw \<notin> set names \<and>
     (\<forall>n \<in> set (names @ [fw_fileName fw]). n \<in> dom d \<and> newlines (map_get '''' d n) < maxLine)"

lemma newlines_append [simp]: "newlines (s @ t) = newlines s + newlines t"
  by (simp add: newlines_def)

lemma contents_append [simp]: "contents d (xs @ ys) = contents d xs @ contents d ys"
  by (simp add: contents_def)

lemma contents_other: "\<forall>n \<in> set names. d' n = d n \<Longrightarrow> contents d' names = contents d names"
  by (induction names) (simp_all add: contents_def map_get_def)

lemma slice_line:
  assumes "log_inv maxLine written names fw d" "maxLine \<ge> 2" "line_archive tm (fw_fileName fw) now \<notin> dom d"
  shows "\<exists>names' fw' d'. sliceByLine tm io_fine now (int maxLine) fw d = (True, fw', d') \<and>
    log_inv maxLine written names' fw' d' \<and> fw_startLine fw' < int maxLine \<and> fw_fileName fw' = fw_fileName fw \<and>
    set names' \<subseteq> insert (line_archive tm (fw_fileName fw) now) (set names) \<and>
    dom d' \<subseteq> insert (line_archive tm (fw_fileName fw) now) (dom d)"
proof (cases "fw_startLine fw \<ge> int maxLine")
  case False
  with assms(1) show ?thesis
    by (intro exI[of _ names] exI[of _ fw] exI[of _ d]) (auto simp: sliceByLine_def)
next
  case True
  let ?name = "fw_fileName fw" and ?old = "line_archive tm (fw_fileName fw) now"
  note inv = assms(1)[unfolded log_inv_def]
  from inv obtain c where c: "d ?name = Some c" "fw_startLine fw = 1 + int (newlines c)" by blast
  have old: "?old \<noteq> ?name" "?name \<noteq> ?old" using archive_name_new[of ?name] by (metis line_archive_def)+
  have fresh: "?old \<notin> set names" using inv assms(3) by auto
  let ?d = "d(?old := Some c, ?name := Some '''')"
  let ?fw = "fw\<lparr>fw_writer := True, fw_startTime := now div 10 ^ 9, fw_startLine := 1\<rparr>"
  have run: "sliceByLine tm io_fine now (int maxLine) fw d = (True, ?fw, ?d)"
    using True c(1) old by (simp add: sliceByLine_def rename_to_def initFile_def PathExists_def CreateFile_def io_fine_def GetFileLines_def newlines_def
        map_get_def Let_def fun_upd_twist)
  have same: "contents ?d names = contents d names"
    by (rule contents_other) (use inv fresh in auto)
  have "log_inv maxLine written (names @ [?old]) ?fw ?d"
    using inv c old fresh same assms(2)
    by (auto simp: log_inv_def contents_def map_get_def newlines_def dom_def)
  with run assms(2) c(1) show ?thesis
    by (intro exI[of _ "names @ [?old]"] exI[of _ ?fw] exI[of _ ?d]) auto
qed

lemma append_inv:
  assumes "log_inv maxLine written names fw d" "fw_startLine fw < int maxLine" "newlines line = 1" "la_MaxLine cfg = int maxLine"
  shows "\<exists>fw' d'. append_line io_fine cfg line fw d = (True, fw', d') \<and> log_inv maxLine (written @ line) names fw' d' \<and>
    fw_fileName fw' = fw_fileName fw \<and> dom d' = dom d"
proof -
  let ?name = "fw_fileName fw"
  note inv = assms(1)[unfolded log_inv_def]
  from inv obtain c where c: "d ?name = Some c" "fw_startLine fw = 1 + int (newlines c)" by blast
  let ?d = "d(?name \<mapsto> c @ line)" and ?fw = "fw\<lparr>fw_startLine := fw_startLine fw + 1\<rparr>"
  have "append_line io_fine cfg line fw d = (True, ?fw, ?d)"
    using inv c(1) assms(2-4) by (auto simp: append_line_def io_fine_def)
  moreover have same: "contents ?d names = contents d names"
    by (rule contents_other) (use inv in auto)
  moreover have "log_inv maxLine (written @ line) names ?fw ?d"
    using inv c same assms(2,3) by (auto simp: log_inv_def contents_def map_get_def)
  ultimately show ?thesis using c(1) by (intro exI[of _ ?fw] exI[of _ ?d]) auto
qed

lemma write_inv:
  assumes "log_inv maxLine written names fw d" "maxLine \<ge> 2" "line_archive tm (fw_fileName fw) now \<notin> dom d"
    "newlines (log_line server cfg msg) = 1" "la_MaxLine cfg = int maxLine" "la_DateSlice cfg = ''''" "la_MaxSize cfg = 0"
  shows "\<exists>names' fw' d'. writeByConfig tm server io_fine now cfg msg fw d = (True, fw', d') \<and>
    log_inv maxLine (written @ log_line server cfg msg) names' fw' d' \<and> fw_fileName fw' = fw_fileName fw \<and>
    set names' \<subseteq> insert (line_archive tm (fw_fileName fw) now) (set names) \<and>
    dom d' \<subseteq> insert (line_archive tm (fw_fileName fw) now) (dom d)"
proof -
  from slice_line[OF assms(1-3)] obtain names' fw1 d1 where
    1: "sliceByLine tm io_fine now (int maxLine) fw d = (True, fw1, d1)" "log_inv maxLine written names' fw1 d1"
    "fw_startLine fw1 < int maxLine" "fw_fileName fw1 = fw_fileName fw"
    "set names' \<subseteq> insert (line_archive tm (fw_fileName fw) now) (set names)"
    "dom d1 \<subseteq> insert (line_archive tm (fw_fileName fw) now) (dom d)" by blast
  from append_inv[OF 1(2,3) assms(4,5)] obtain fw2 d2 where
    2: "append_line io_fine cfg (log_line server cfg msg) fw1 d1 = (True, fw2, d2)"
    "log_inv maxLine (written @ log_line server cfg msg) names' fw2 d2" "fw_fileName fw2 = fw_fileName fw1" "dom d2 = dom d1" by blast
  have "writeByConfig tm server io_fine now cfg msg fw d = (True, fw2, d2)"
    using assms(2,5-7) 1(1) 2(1) by (simp add: writeByConfig_def log_then_def)
  with 1 2 show ?thesis by (intro exI[of _ names'] exI[of _ fw2] exI[of _ d2]) simp
qed

lemma log_all_inv:
  assumes "log_inv maxLine written names fw d" "maxLine \<ge> 2" "la_MaxLine cfg = int maxLine" "la_DateSlice cfg = ''''" "la_MaxSize cfg = 0"
    "distinct (map (\<lambda>(now, msg). line_archive tm (fw_fileName fw) now) ms)"
    "\<forall>(now, msg) \<in> set ms. line_archive tm (fw_fileName fw) now \<notin> dom d \<and> newlines (log_line server cfg msg) = 1"
  shows "\<exists>names' fw' d'. log_all tm server cfg ms fw d = (True, fw', d') \<and> fw_fileName fw' = fw_fileName fw \<and>
    log_inv maxLine (written @ concat (map (\<lambda>(now, msg). log_line server cfg msg) ms)) names' fw' d' \<and>
    set names' \<subseteq> set names \<union> (\<lambda>(now, msg). line_archive tm (fw_fileName fw) now) ` set ms"
  using assms(1,6,7)
proof (induction ms arbitrary: written names fw d)
  case Nil
  then show ?case by (intro exI[of _ names] exI[of _ fw] exI[of _ d]) simp
next
  case (Cons m ms)
  obtain now msg where m: "m = (now, msg)" by (cases m)
  from write_inv[OF Cons.prems(1) assms(2), of tm now server cfg msg] Cons.prems(3) assms(3-5) m obtain names1 fw1 d1 where
    1: "writeByConfig tm server io_fine now cfg msg fw d = (True, fw1, d1)"
    "log_inv maxLine (written @ log_line server cfg msg) names1 fw1 d1" "fw_fileName fw1 = fw_fileName fw"
    "set names1 \<subseteq> insert (line_archive tm (fw_fileName fw) now) (set names)"
    "dom d1 \<subseteq> insert (line_archive tm (fw_fileName fw) now) (dom d)" by auto
  have "distinct (map (\<lambda>(now, msg). line_archive tm (fw_fileName fw1) now) ms)" using Cons.prems(2) 1(3) by simp
  moreover have "\<forall>(now', msg') \<in> set ms. line_archive tm (fw_fileName fw1) now' \<notin> dom d1 \<and> newlines (log_line server cfg msg') = 1"
  proof
    fix x assume x: "x \<in> set ms"
    obtain now' msg' where xe: "x = (now', msg')" by (cases x)
    have "line_archive tm (fw_fileName fw) now' \<noteq> line_archive tm (fw_fileName fw) now"
      using Cons.prems(2) x unfolding m xe by (force simp: image_iff)
    moreover have "line_archive tm (fw_fileName fw) now' \<notin> dom d \<and> newlines (log_line server cfg msg') = 1"
      using bspec[OF Cons.prems(3), of x] x unfolding xe by simp
    ultimately have "line_archive tm (fw_fileName fw) now' \<notin> dom d1 \<and> newlines (log_line server cfg msg') = 1"
      using 1(5) by blast
    then show "case x of (now', msg') \<Rightarrow> line_archive tm (fw_fileName fw1) now' \<notin> dom d1 \<and> newlines (log_line server cfg msg') = 1"
      unfolding xe 1(3) by simp
  qed
  ultimately obtain names2 fw2 d2 where
    2: "log_all tm server cfg ms fw1 d1 = (True, fw2, d2)" "fw_fileName fw2 = fw_fileName fw1"
    "log_inv maxLine ((written @ log_line server cfg msg) @ concat (map (\<lambda>(now, msg). log_line server cfg msg) ms)) names2 fw2 d2"
    "set names2 \<subseteq> set names1 \<union> (\<lambda>(now, msg). line_archive tm (fw_fileName fw1) now) ` set ms"
    using Cons.IH[OF 1(2)] by blast
  have run: "log_all tm server cfg (m # ms) fw d = (True, fw2, d2)" by (simp add: m log_then_def 1(1) 2(1))
  have names: "set names2 \<subseteq> set names \<union> (\<lambda>(now, msg). line_archive tm (fw_fileName fw) now) ` set (m # ms)"
    using 1(4) 2(4) unfolding 1(3) m by simp blast
  have inv: "log_inv maxLine (written @ concat (map (\<lambda>(now, msg). log_line server cfg msg) (m # ms))) names2 fw2 d2"
    using 2(3) unfolding m by simp
  from run names inv 2(2) 1(3) show ?case
    by (intro exI[of _ names2] exI[of _ fw2] exI[of _ d2] conjI) simp_all
qed


definition example_times :: timelib where
  "example_times = \<lparr>tl_Format = (\<lambda>layout now. Itoa now), tl_Year = (\<lambda>now. now)\<rparr>"

definition example_log_args :: LogArgs where
  "example_log_args = \<lparr>la_Name = ''root'', la_Type = ''file'', la_Level = ''info'', la_Color = False, la_Format = ''%body%'',
     la_FileName = ''v.log'', la_MaxSize = 0, la_MaxLine = 2, la_DateSlice = ''''\<rparr>"

definition example_message :: "string \<Rightarrow> message" where
  "example_message body = \<lparr>ms_Timestamp = 0, ms_TimestampFormat = '''', ms_Millisecond = 0, ms_MillisecondFormat = '''', ms_Level = 2,
     ms_LevelString = ''Info'', ms_Body = body, ms_File = '''', ms_Line = 0, ms_Function = ''''\<rparr>"


end
