(* ===== verification/Logger.thy ===== *)
theory Logger
  imports FileLog
begin

text \<open>
  Loggers and their outputs, \<open>src/logger/logger.go\<close> and \<open>console_logger.go\<close>: levels, how a logger is
  built from the configuration, and where a message goes. Writing is synchronous here, and
  \<open>Flush\<close> does nothing; \<open>AsyncLog\<close> has the other mode. A message carries the times and the place of its call. \<open>paint\<close> is the color library.
\<close>

definition TRACE :: int where "TRACE = 0"
definition DEBUG :: int where "DEBUG = 1"
definition INFO :: int where "INFO = 2"
definition WARN :: int where "WARN = 3"
definition ERROR :: int where "ERROR = 4"
definition FATAL :: int where "FATAL = 5"

lemmas log_levels = TRACE_def DEBUG_def INFO_def WARN_def ERROR_def FATAL_def

text \<open>A text that is no level reads as the zero value, \<open>TRACE\<close>.\<close>

definition levelIntMapping :: "string \<Rightarrow> int" where
  "levelIntMapping level =
     (if level = ''trace'' then TRACE else if level = ''debug'' then DEBUG else if level = ''info'' then INFO
      else if level = ''warn'' then WARN else if level = ''error'' then ERROR else if level = ''fatal'' then FATAL else 0)"

datatype color = FgWhite | FgGreen | FgBlue | FgYellow | FgRed | FgMagenta

definition getColorByLevel :: "int \<Rightarrow> color" where
  "getColorByLevel level =
     (if level = TRACE then FgWhite else if level = DEBUG then FgGreen else if level = INFO then FgBlue
      else if level = WARN then FgYellow else if level = ERROR then FgRed else if level = FATAL then FgMagenta else FgWhite)"

section \<open>Outputs\<close>

datatype adapter = ConsoleAdapter LogArgs | FileAdapter LogArgs FileWriter

record outputLogger =
  ol_logType :: string
  ol_level :: int
  ol_logger :: adapter

record Logger =
  lg_name :: string
  lg_outputs :: "outputLogger list"

definition NewLogger :: Logger where
  "NewLogger = \<lparr>lg_name = '''', lg_outputs = []\<rparr>"

text \<open>What the outputs write to: the disk and the standard output.\<close>

type_synonym sinks = "disk \<times> string"

definition ConsoleAdapter_Init :: "LogArgs \<Rightarrow> log_init_error + LogArgs" where
  "ConsoleAdapter_Init args =
     (if la_Type args \<noteq> ''console'' then Inl WrongLogType
      else Inr (if la_Format args = '''' then args\<lparr>la_Format := defaultLoggerMessageFormat\<rparr> else args))"

definition console_text :: "(color \<Rightarrow> string \<Rightarrow> string) \<Rightarrow> string \<Rightarrow> LogArgs \<Rightarrow> message \<Rightarrow> string" where
  "console_text paint server_name cfg msg =
     (let m = messageFormat server_name (la_Format cfg) msg
      in (if la_Color cfg then paint (getColorByLevel (ms_Level msg)) m else m) @ [CHR 0x0A])"

text \<open>An unknown type and an adapter that cannot be initialised panic.\<close>

definition log_attach :: "io \<Rightarrow> int \<Rightarrow> string \<Rightarrow> int \<Rightarrow> LogArgs \<Rightarrow> Logger \<Rightarrow> disk \<Rightarrow> (Logger \<times> disk) go" where
  "log_attach io now logType level args l d =
     (let with_output = (\<lambda>a. l\<lparr>lg_outputs := lg_outputs l @ [\<lparr>ol_logType = logType, ol_level = level, ol_logger = a\<rparr>]\<rparr>)
      in if logType = ''console'' then
           (case ConsoleAdapter_Init args of
              Inl _ \<Rightarrow> Inl (Panicked ''logger: adapter init failed'')
            | Inr cfg \<Rightarrow> Inr (with_output (ConsoleAdapter cfg), d))
         else if logType = ''file'' then
           (case FileAdapter_Init io now args d of
              Inl _ \<Rightarrow> Inl (Panicked ''logger: adapter init failed'')
            | Inr (cfg, fw, d1) \<Rightarrow> Inr (with_output (FileAdapter cfg fw), d1))
         else Inl (Panicked ''logger: unsupport logger type!''))"

definition build_log ::
  "io \<Rightarrow> int \<Rightarrow> LogArgs \<Rightarrow> (string \<Rightarrow> Logger option) \<times> disk \<Rightarrow> ((string \<Rightarrow> Logger option) \<times> disk) go" where
  "build_log io now logArgs = (\<lambda>(logs, d).
     let log = (case logs (la_Name logArgs) of Some log \<Rightarrow> log | None \<Rightarrow> NewLogger\<lparr>lg_name := la_Name logArgs\<rparr>)
     in go_bind (log_attach io now (la_Type logArgs) (levelIntMapping (la_Level logArgs)) logArgs log d) (\<lambda>(log1, d1).
          Inr (logs(la_Name logArgs \<mapsto> log1), d1)))"

text \<open>The result is the table of loggers and the root logger.\<close>

definition BuildFromConfig ::
  "io \<Rightarrow> int \<Rightarrow> VermouthConfig \<Rightarrow> (string \<Rightarrow> Logger option) \<Rightarrow> Logger \<Rightarrow> disk \<Rightarrow>
     ((string \<Rightarrow> Logger option) \<times> Logger \<times> disk) go" where
  "BuildFromConfig io now args logs root d =
     go_bind (go_fold (build_log io now) (vc_Log args) (logs, d)) (\<lambda>(logs1, d1).
       Inr (logs1, (case logs1 ''root'' of Some log \<Rightarrow> log | None \<Rightarrow> root), d1))"

section \<open>Messages\<close>

definition write_output ::
  "timelib \<Rightarrow> (color \<Rightarrow> string \<Rightarrow> string) \<Rightarrow> string \<Rightarrow> io \<Rightarrow> int \<Rightarrow> message \<Rightarrow> outputLogger \<Rightarrow> sinks \<Rightarrow> outputLogger \<times> sinks" where
  "write_output tm paint server_name io now msg out = (\<lambda>(d, stdout).
     case ol_logger out of
       ConsoleAdapter cfg \<Rightarrow> (out, d, stdout @ console_text paint server_name cfg msg)
     | FileAdapter cfg fw \<Rightarrow>
         (let (ok, fw1, d1) = writeByConfig tm server_name io now cfg msg fw d
          in (out\<lparr>ol_logger := FileAdapter cfg fw1\<rparr>, d1, stdout)))"

text \<open>An error of an output goes to the standard error, and the next output is written.\<close>

fun write_outputs ::
  "timelib \<Rightarrow> (color \<Rightarrow> string \<Rightarrow> string) \<Rightarrow> string \<Rightarrow> io \<Rightarrow> int \<Rightarrow> message \<Rightarrow> outputLogger list \<Rightarrow> sinks \<Rightarrow> outputLogger list \<times> sinks" where
  "write_outputs tm paint server_name io now msg [] w = ([], w)"
| "write_outputs tm paint server_name io now msg (out # outs) w =
     (let (out1, w1) = (if ol_level out \<le> ms_Level msg then write_output tm paint server_name io now msg out w else (out, w));
          (outs1, w2) = write_outputs tm paint server_name io now msg outs w1
      in (out1 # outs1, w2))"

definition writeToOutputs ::
  "timelib \<Rightarrow> (color \<Rightarrow> string \<Rightarrow> string) \<Rightarrow> string \<Rightarrow> io \<Rightarrow> int \<Rightarrow> message \<Rightarrow> Logger \<Rightarrow> sinks \<Rightarrow> Logger \<times> sinks" where
  "writeToOutputs tm paint server_name io now msg l w =
     (let (outs, w1) = write_outputs tm paint server_name io now msg (lg_outputs l) w in (l\<lparr>lg_outputs := outs\<rparr>, w1))"

text \<open>\<open>Fatal\<close> writes first and panics then.\<close>

definition log_Fatal ::
  "timelib \<Rightarrow> (color \<Rightarrow> string \<Rightarrow> string) \<Rightarrow> string \<Rightarrow> io \<Rightarrow> int \<Rightarrow> message \<Rightarrow> Logger \<Rightarrow> sinks \<Rightarrow> fault \<times> sinks" where
  "log_Fatal tm paint server_name io now msg l w =
     (Panicked (ms_Body msg), snd (writeToOutputs tm paint server_name io now (msg\<lparr>ms_Level := FATAL, ms_LevelString := ''Fatal''\<rparr>) l w))"

text \<open>The level at which \<open>Write\<close>, the \<open>io.Writer\<close> of the logger, logs; \<open>globalLevel\<close> is never set, so it is 0.\<close>

definition Write_level :: "int \<Rightarrow> int option" where
  "Write_level globalLevel =
     (if globalLevel = TRACE then Some TRACE else if globalLevel = DEBUG then Some DEBUG else if globalLevel = INFO then Some DEBUG
      else if globalLevel = WARN then Some WARN else if globalLevel = ERROR then Some DEBUG else if globalLevel = FATAL then Some FATAL
      else None)"

section \<open>Where a message goes\<close>

definition console_only :: "outputLogger \<Rightarrow> bool" where
  "console_only out = (case ol_logger out of ConsoleAdapter _ \<Rightarrow> True | FileAdapter _ _ \<Rightarrow> False)"

text \<open>An output above the level of the message is passed over, and an output keeps its level.\<close>

lemma write_outputs_levels:
  "map ol_level (fst (write_outputs tm paint server_name io now msg outs w)) = map ol_level outs"
  by (induction tm paint server_name io now msg outs w rule: write_outputs.induct)
    (auto simp: write_output_def Let_def split: prod.split adapter.split)

lemma write_outputs_console:
  assumes "\<forall>out \<in> set outs. console_only out"
  shows "write_outputs tm paint server_name io now msg outs (d, s) = (outs, d, s @
    concat (map (\<lambda>out. case ol_logger out of ConsoleAdapter cfg \<Rightarrow> console_text paint server_name cfg msg)
      (filter (\<lambda>out. ol_level out \<le> ms_Level msg) outs)))"
  using assms by (induction outs arbitrary: s) (auto simp: write_output_def console_only_def Let_def split: adapter.splits)

text \<open>The logger of the package at its start: the console from \<open>INFO\<close> on.\<close>

lemma default_logger:
  "log_attach io now ''console'' INFO \<lparr>la_Name = ''root'', la_Type = ''console'', la_Level = ''info'', la_Color = True, la_Format = '''',
      la_FileName = '''', la_MaxSize = 0, la_MaxLine = 0, la_DateSlice = ''''\<rparr> NewLogger d = Inr (l, d') \<Longrightarrow>
    d' = d \<and> writeToOutputs tm paint server_name io now msg l (d, s) =
      (l, d, s @ (if ms_Level msg \<ge> INFO
        then paint (getColorByLevel (ms_Level msg)) (messageFormat server_name defaultLoggerMessageFormat msg) @ [CHR 0x0A] else ''''))"
  by (auto simp: log_attach_def ConsoleAdapter_Init_def NewLogger_def writeToOutputs_def write_output_def console_text_def Let_def)

end
