(* ===== verification/AsyncLog.thy ===== *)
theory AsyncLog
  imports Logger
begin

text \<open>
  The asynchronous mode of a logger, \<open>async\<close>, \<open>writeMsg\<close>, \<open>startAsyncwrite\<close> and \<open>Flush\<close> of
  \<open>src/logger/logger.go\<close>, as a step relation: any number of goroutines log and flush, one goroutine takes
  the messages from the channel and writes them. Nothing of the program turns the mode on. Writing to the
  outputs does not panic (\<open>Logger\<close>), so the deferred function of the goroutine has nothing to recover.
\<close>

section \<open>The goroutines\<close>

text \<open>Where the goroutine of \<open>startAsyncwrite\<close> is: at its \<open>select\<close>, in the loop of \<open>flush\<close>, or gone.\<close>

datatype writer = Selecting | Draining | Returned

text \<open>
  \<open>al_adding\<close> are the messages of goroutines between \<open>wg.Add\<close> and the end of the send, \<open>al_signalling\<close>
  counts the goroutines that send \<open>flush\<close>, \<open>al_waiting\<close> those in \<open>wg.Wait\<close>, and \<open>al_written\<close> has the
  messages \<open>writeToOutputs\<close> was called with, in order. \<open>al_hand\<close> is the message the writer has taken from the
  channel and has not called \<open>wg.Done\<close> for, with whether it is written already. \<open>al_flushed\<close> says that the
  outputs were flushed, which closes the files.
\<close>

record async_log =
  al_cap :: nat
  al_msgChan :: "message list"
  al_wg :: nat
  al_adding :: "message list"
  al_signalling :: nat
  al_waiting :: nat
  al_writer :: writer
  al_hand :: "(message \<times> bool) option"
  al_written :: "message list"
  al_flushed :: bool

text \<open>\<open>async\<close>: the capacity of the channel is its first argument, and 100 without one.\<close>

definition log_async :: "int list \<Rightarrow> async_log go" where
  "log_async data =
     (let msgChanLen = (case data of [] \<Rightarrow> 100 | n # _ \<Rightarrow> n)
      in if msgChanLen < 0 then Inl (Panicked ''makechan: size out of range'')
         else Inr \<lparr>al_cap = nat msgChanLen, al_msgChan = [], al_wg = 0, al_adding = [], al_signalling = 0, al_waiting = 0,
           al_writer = Selecting, al_hand = None, al_written = [], al_flushed = False\<rparr>)"

text \<open>The body of both loops: \<open>l.writeToOutputs(msg)\<close>, then \<open>l.wg.Done()\<close>.\<close>

definition write_hand :: "message \<Rightarrow> async_log \<Rightarrow> async_log" where
  "write_hand m s = s\<lparr>al_hand := Some (m, True), al_written := al_written s @ [m]\<rparr>"

definition done_hand :: "async_log \<Rightarrow> async_log" where
  "done_hand s = s\<lparr>al_hand := None, al_wg := al_wg s - 1\<rparr>"

text \<open>
  The label of a step is the message that was sent in it, if any. A send on a channel without capacity is
  received at once. Where both cases of the \<open>select\<close> can proceed, either may. Taking a message, writing it and
  \<open>wg.Done\<close> are three steps, with steps of others between them.
\<close>

inductive async_step :: "async_log \<Rightarrow> message option \<Rightarrow> async_log \<Rightarrow> bool" where
  Log_add: "async_step s None (s\<lparr>al_wg := al_wg s + 1, al_adding := al_adding s @ [m]\<rparr>)"
| Log_send: "m \<in> set (al_adding s) \<Longrightarrow> length (al_msgChan s) < al_cap s \<Longrightarrow>
    async_step s (Some m) (s\<lparr>al_adding := remove1 m (al_adding s), al_msgChan := al_msgChan s @ [m]\<rparr>)"
| Hand_over: "m \<in> set (al_adding s) \<Longrightarrow> al_cap s = 0 \<Longrightarrow> al_writer s = Selecting \<Longrightarrow> al_hand s = None \<Longrightarrow>
    async_step s (Some m) (s\<lparr>al_adding := remove1 m (al_adding s), al_hand := Some (m, False)\<rparr>)"
| Receive: "al_writer s = Selecting \<or> al_writer s = Draining \<Longrightarrow> al_hand s = None \<Longrightarrow> al_msgChan s = m # ms \<Longrightarrow>
    async_step s None (s\<lparr>al_msgChan := ms, al_hand := Some (m, False)\<rparr>)"
| Write: "al_hand s = Some (m, False) \<Longrightarrow> async_step s None (write_hand m s)"
| Done: "al_hand s = Some (m, True) \<Longrightarrow> async_step s None (done_hand s)"
| Call_flush: "async_step s None (s\<lparr>al_signalling := al_signalling s + 1\<rparr>)"
| Signal: "al_signalling s = Suc n \<Longrightarrow> al_writer s = Selecting \<Longrightarrow> al_hand s = None \<Longrightarrow>
    async_step s None (s\<lparr>al_signalling := n, al_waiting := al_waiting s + 1, al_writer := Draining\<rparr>)"
| Drained: "al_writer s = Draining \<Longrightarrow> al_hand s = None \<Longrightarrow> al_msgChan s = [] \<Longrightarrow>
    async_step s None (s\<lparr>al_writer := Returned, al_flushed := True\<rparr>)"
| Flush_returns: "al_waiting s = Suc n \<Longrightarrow> al_wg s = 0 \<Longrightarrow> async_step s None (s\<lparr>al_waiting := n\<rparr>)"

text \<open>The messages that were sent on the way, in the order of their sends.\<close>

inductive async_steps :: "async_log \<Rightarrow> message list \<Rightarrow> async_log \<Rightarrow> bool" where
  None_yet: "async_steps s [] s"
| One_more: "async_steps s ms s' \<Longrightarrow> async_step s' l s'' \<Longrightarrow> async_steps s (ms @ (case l of None \<Rightarrow> [] | Some m \<Rightarrow> [m])) s''"

section \<open>Every message is written once, in order\<close>

text \<open>The message in the writer's hand, while it is not written.\<close>

definition in_hand :: "async_log \<Rightarrow> message list" where
  "in_hand s = (case al_hand s of Some (m, False) \<Rightarrow> [m] | _ \<Rightarrow> [])"

definition async_ok :: "message list \<Rightarrow> async_log \<Rightarrow> bool" where
  "async_ok sent s \<longleftrightarrow> al_written s @ in_hand s @ al_msgChan s = sent \<and>
     al_wg s = (if al_hand s = None then 0 else 1) + length (al_msgChan s) + length (al_adding s) \<and>
     length (al_msgChan s) \<le> al_cap s \<and> al_waiting s \<le> 1 \<and> (al_writer s = Selecting \<longrightarrow> al_waiting s = 0) \<and>
     (al_writer s = Returned \<longrightarrow> al_hand s = None) \<and> (al_flushed s \<longleftrightarrow> al_writer s = Returned)"

lemma async_start: "log_async data = Inr s \<Longrightarrow> async_ok [] s \<and> al_writer s = Selecting"
  by (auto simp: log_async_def async_ok_def in_hand_def Let_def split: if_splits)

lemma async_step_ok:
  assumes "async_step s l s'" "async_ok sent s"
  shows "async_ok (sent @ (case l of None \<Rightarrow> [] | Some m \<Rightarrow> [m])) s'"
  using assms
proof (cases rule: async_step.cases)
  case (Log_send m)
  with assms(2) show ?thesis by (auto simp: async_ok_def in_hand_def length_remove1 dest: length_pos_if_in_set)
next
  case (Hand_over m)
  with assms(2) show ?thesis
    by (auto simp: async_ok_def in_hand_def length_remove1 dest: length_pos_if_in_set)
qed (auto simp: async_ok_def in_hand_def write_hand_def done_hand_def)

lemma async_steps_ok: "async_steps s ms s' \<Longrightarrow> async_ok sent s \<Longrightarrow> async_ok (sent @ ms) s'"
proof (induction rule: async_steps.induct)
  case (One_more s ms s' l s'')
  from async_step_ok[OF One_more.hyps(2) One_more.IH[OF One_more.prems]] show ?case by simp
qed simp

lemma async_steps_trans:
  assumes "async_steps s ms s'" "async_steps s' ns s''"
  shows "async_steps s (ms @ ns) s''"
  using assms(2,1)
proof (induction rule: async_steps.induct)
  case (One_more s' ns t l t')
  from async_steps.One_more[OF One_more.IH[OF One_more.prems] One_more.hyps(2)] show ?case by simp
qed simp

lemma async_steps_first: "async_steps s' ms s'' \<Longrightarrow> async_step s None s' \<Longrightarrow> async_steps s ms s''"
proof (induction rule: async_steps.induct)
  case (None_yet s')
  from async_steps.One_more[OF async_steps.None_yet None_yet] show ?case by simp
next
  case (One_more s' ms t l t')
  from async_steps.One_more[OF One_more.IH[OF One_more.prems] One_more.hyps(2)] show ?case .
qed

text \<open>A goroutine that waits in \<open>Flush\<close> gets on: the writer empties its hand and the channel, if no call is under way.\<close>

lemma hand_steps:
  assumes "al_hand s = Some (m, w)"
  shows "async_steps s [] (s\<lparr>al_hand := None, al_wg := al_wg s - 1, al_written := al_written s @ in_hand s\<rparr>)"
proof -
  have end_hand: "async_steps t [] (t\<lparr>al_hand := None, al_wg := al_wg t - 1, al_written := al_written t\<rparr>)"
    if "al_hand t = Some (m, True)" for t
    using async_steps_first[OF async_steps.None_yet async_step.Done[OF that]] by (simp add: done_hand_def)
  show ?thesis
  proof (cases w)
    case True
    with assms end_hand[of s] show ?thesis by (simp add: in_hand_def)
  next
    case False
    with assms have step: "async_step s None (write_hand m s)" by (intro async_step.Write) simp
    have "al_hand (write_hand m s) = Some (m, True)" by (simp add: write_hand_def)
    from async_steps_first[OF end_hand[OF this] step] assms False show ?thesis by (simp add: in_hand_def write_hand_def)
  qed
qed

lemma drain_steps:
  assumes "al_writer s = Draining" "al_hand s = None" "al_wg s = length (al_msgChan s)"
  shows "async_steps s [] (s\<lparr>al_msgChan := [], al_wg := 0, al_written := al_written s @ al_msgChan s\<rparr>)"
  using assms
proof (induction "al_msgChan s" arbitrary: s)
  case Nil
  then have "s\<lparr>al_msgChan := [], al_wg := 0, al_written := al_written s @ al_msgChan s\<rparr> = s" by (cases s) simp
  then show ?case by (simp add: async_steps.None_yet)
next
  case (Cons m ms)
  let ?t = "s\<lparr>al_msgChan := ms, al_hand := Some (m, False)\<rparr>"
  let ?s = "?t\<lparr>al_hand := None, al_wg := al_wg ?t - 1, al_written := al_written ?t @ in_hand ?t\<rparr>"
  have chan: "al_msgChan s = m # ms" using Cons.hyps(2) by simp
  have receive: "async_step s None ?t" using Cons.prems(1,2) chan by (intro async_step.Receive) simp_all
  have "async_steps ?t [] ?s" by (rule hand_steps[of _ m False]) simp
  from async_steps_first[OF this receive] have first: "async_steps s [] ?s" .
  have "async_steps ?s [] (?s\<lparr>al_msgChan := [], al_wg := 0, al_written := al_written ?s @ al_msgChan ?s\<rparr>)"
    by (rule Cons.hyps(1)) (use Cons.prems chan in \<open>simp_all add: in_hand_def\<close>)
  with async_steps_trans[OF first this] chan
  have "async_steps s [] (s\<lparr>al_hand := None, al_msgChan := [], al_wg := 0, al_written := al_written s @ al_msgChan s\<rparr>)"
    by (simp add: in_hand_def)
  moreover have "s\<lparr>al_hand := None\<rparr> = s" using Cons.prems(2) by (cases s) simp
  ultimately show ?case by simp
qed

lemma waiting_flush_returns:
  assumes "async_ok sent s" "al_waiting s = Suc n" "al_writer s = Draining" "al_adding s = []"
  shows "\<exists>s'. async_steps s [] s' \<and> al_waiting s' = 0 \<and> al_written s' = sent"
proof -
  obtain t where t: "async_steps s [] t" "al_hand t = None" "al_writer t = Draining" "al_waiting t = Suc n" "al_adding t = []"
  proof (cases "al_hand s")
    case None
    with assms(2-4) that[OF async_steps.None_yet] show thesis by simp
  next
    case (Some h)
    then obtain m w where "al_hand s = Some (m, w)" by (cases h) simp
    from that[OF hand_steps[OF this]] assms(2-4) show thesis by simp
  qed
  have ok: "async_ok sent t" using async_steps_ok[OF t(1) assms(1)] by simp
  let ?s = "t\<lparr>al_msgChan := [], al_wg := 0, al_written := al_written t @ al_msgChan t\<rparr>"
  have "async_steps t [] ?s" by (rule drain_steps) (use t ok in \<open>simp_all add: async_ok_def\<close>)
  from async_steps_trans[OF t(1) this] have drained: "async_steps s [] ?s" by simp
  have "async_step ?s None (?s\<lparr>al_waiting := n\<rparr>)" using t(4) by (intro async_step.Flush_returns) simp_all
  from async_steps.One_more[OF drained this] ok t(2,4) show ?thesis
    by (intro exI[of _ "?s\<lparr>al_waiting := n\<rparr>"]) (simp add: async_ok_def in_hand_def)
qed

text \<open>
  C39: an asynchronous logger writes the messages in the order in which they were sent, none twice, and what it
  has not written yet is in its hand or stands in the channel. Where a \<open>Flush\<close> may return, every message whose call began
  is written; and while its writer drains the channel and no call is under way, it can return.
\<close>

theorem async_log_in_order:
  assumes "log_async data = Inr s" "async_steps s sent s'"
  shows "al_written s' @ in_hand s' @ al_msgChan s' = sent \<and> length (al_msgChan s') \<le> al_cap s' \<and>
    (al_wg s' = 0 \<longrightarrow> al_written s' = sent \<and> al_adding s' = []) \<and>
    (al_waiting s' > 0 \<longrightarrow> al_writer s' = Draining \<longrightarrow> al_adding s' = [] \<longrightarrow>
      (\<exists>s''. async_steps s' [] s'' \<and> al_waiting s'' = 0 \<and> al_written s'' = sent))"
proof -
  have ok: "async_ok sent s'" using async_steps_ok[OF assms(2), of "[]"] async_start[OF assms(1)] by simp
  with waiting_flush_returns[OF ok] show ?thesis by (auto simp: async_ok_def in_hand_def gr0_conv_Suc split: if_splits)
qed

theorem async_log_in_order_witness:
  "\<exists>s s'. log_async [2] = Inr s \<and> async_steps s [example_message ''a''] s' \<and>
    al_written s' @ in_hand s' @ al_msgChan s' = [example_message ''a''] \<and> al_written s' = []"
proof -
  let ?m = "example_message ''a''"
  let ?s = "\<lparr>al_cap = 2, al_msgChan = [], al_wg = 0, al_adding = [], al_signalling = 0, al_waiting = 0,
    al_writer = Selecting, al_hand = None, al_written = [], al_flushed = False\<rparr>"
  let ?s1 = "?s\<lparr>al_wg := 1, al_adding := [?m]\<rparr>" and ?s2 = "?s\<lparr>al_wg := 1, al_msgChan := [?m]\<rparr>"
  have start: "log_async [2] = Inr ?s" by (simp add: log_async_def)
  have "async_step ?s None ?s1" using async_step.Log_add[of ?s ?m] by simp
  moreover have "async_step ?s1 (Some ?m) ?s2" using async_step.Log_send[of ?m ?s1] by simp
  ultimately have steps: "async_steps ?s [?m] ?s2"
    using async_steps_first[OF async_steps.One_more[OF async_steps.None_yet]] by fastforce
  from async_log_in_order[OF start steps] start steps show ?thesis
    by (intro exI[of _ ?s] exI[of _ ?s2]) (simp add: in_hand_def)
qed

section \<open>After the first flush\<close>

text \<open>The goroutine that writes is gone: nothing is written any more, and the channel only fills up.\<close>

lemma returned_step:
  assumes "async_step s l s'" "al_writer s = Returned" "al_hand s = None"
  shows "al_writer s' = Returned \<and> al_hand s' = None \<and> al_written s' = al_written s \<and> al_signalling s \<le> al_signalling s' \<and> al_cap s' = al_cap s \<and>
    al_msgChan s' = al_msgChan s @ (case l of None \<Rightarrow> [] | Some m \<Rightarrow> [m])"
  using assms by (cases rule: async_step.cases) auto

lemma returned_steps:
  assumes "async_steps s ms s'" "al_writer s = Returned" "al_hand s = None"
  shows "al_writer s' = Returned \<and> al_hand s' = None \<and> al_written s' = al_written s \<and> al_signalling s \<le> al_signalling s' \<and> al_cap s' = al_cap s \<and>
    al_msgChan s' = al_msgChan s @ ms"
  using assms
proof (induction rule: async_steps.induct)
  case (One_more s ms s' l s'')
  from returned_step[OF One_more.hyps(2)] One_more.IH[OF One_more.prems] show ?case by auto
qed simp

text \<open>
  Once the goroutine of \<open>async\<close> has returned, no message is written, at most as many calls return as the channel has
  room, and no call of \<open>Flush\<close> that still sends its signal gets further.
\<close>

lemma flushed_log_is_dead:
  assumes "log_async data = Inr s" "async_steps s sent s1" "al_writer s1 = Returned" "async_steps s1 later s2"
  shows "al_written s2 = al_written s1 \<and> length later \<le> al_cap s1 - length (al_msgChan s1) \<and>
    al_signalling s1 \<le> al_signalling s2"
proof -
  have ok: "async_ok sent s1" using async_steps_ok[OF assms(2), of "[]"] async_start[OF assms(1)] by simp
  with assms(3) have "al_hand s1 = None" by (simp add: async_ok_def)
  note r = returned_steps[OF assms(4,3) this]
  from async_steps_ok[OF assms(4) ok] r have "length (al_msgChan s1 @ later) \<le> al_cap s1" by (simp add: async_ok_def)
  with r show ?thesis by simp
qed

end
