(* ===== verification/JsRegExp.thy ===== *)
theory JsRegExp
  imports NetUtils
begin

text \<open>
  The part of JavaScript's regular expressions that \<open>src/static/403/script.js\<close> uses, with the
  backtracking order of the language: \<open>rx_run\<close> lists, best first, the states in which a pattern can
  end, and \<open>rx_exec\<close> tries each start position from the left. Repetition is only over character
  classes in that script, so the matcher is structurally recursive. Characters are code units
  below 256; a string in the result array is \<open>None\<close> where JavaScript has \<open>undefined\<close>.
\<close>

section \<open>Patterns\<close>

datatype rx_class = RDigit | RSpace | ROneOf string

fun in_class :: "rx_class \<Rightarrow> char \<Rightarrow> bool" where
  "in_class RDigit c = (48 \<le> (of_char c :: nat) \<and> (of_char c :: nat) \<le> 57)"
| "in_class RSpace c = ((of_char c :: nat) \<in> {9, 10, 11, 12, 13, 32, 160})"
| "in_class (ROneOf cs) c = (c \<in> set cs)"

datatype rx =
    RText string
  | RMany rx_class
  | RMany1 rx_class
  | ROpt rx
  | RSeq rx rx
  | RAlt rx rx
  | RGroup nat rx
  | RWordB
  | RLook rx

text \<open>What was consumed, last first, what is left, and the captured groups.\<close>

record rx_state =
  rx_prev :: string
  rx_rest :: string
  rx_cap :: "nat \<Rightarrow> string option"

definition same_char :: "bool \<Rightarrow> char \<Rightarrow> char \<Rightarrow> bool" where
  "same_char ic a b = (a = b \<or> ic \<and> to_upper a = to_upper b)"

definition advance :: "nat \<Rightarrow> rx_state \<Rightarrow> rx_state" where
  "advance n st = st\<lparr>rx_prev := rev (take n (rx_rest st)) @ rx_prev st, rx_rest := drop n (rx_rest st)\<rparr>"

definition word_char :: "char \<Rightarrow> bool" where
  "word_char c =
     (let n = (of_char c :: nat) in 48 \<le> n \<and> n \<le> 57 \<or> 65 \<le> n \<and> n \<le> 90 \<or> n = 95 \<or> 97 \<le> n \<and> n \<le> 122)"

definition word_at :: "string \<Rightarrow> bool" where
  "word_at s = (case s of [] \<Rightarrow> False | c # _ \<Rightarrow> word_char c)"

definition class_run :: "rx_class \<Rightarrow> string \<Rightarrow> nat" where
  "class_run c s = length (takeWhile (in_class c) s)"

fun rx_run :: "bool \<Rightarrow> rx \<Rightarrow> rx_state \<Rightarrow> rx_state list" where
  "rx_run ic (RText s) st =
     (if list_all2 (same_char ic) s (take (length s) (rx_rest st)) then [advance (length s) st] else [])"
| "rx_run ic (RMany c) st = map (\<lambda>k. advance k st) (rev [0..<Suc (class_run c (rx_rest st))])"
| "rx_run ic (RMany1 c) st = map (\<lambda>k. advance k st) (rev [1..<Suc (class_run c (rx_rest st))])"
| "rx_run ic (ROpt r) st = rx_run ic r st @ [st]"
| "rx_run ic (RSeq r1 r2) st = concat (map (rx_run ic r2) (rx_run ic r1 st))"
| "rx_run ic (RAlt r1 r2) st = rx_run ic r1 st @ rx_run ic r2 st"
| "rx_run ic (RGroup i r) st =
     map (\<lambda>st'. st'\<lparr>rx_cap := (rx_cap st')
         (i \<mapsto> take (length (rx_rest st) - length (rx_rest st')) (rx_rest st))\<rparr>) (rx_run ic r st)"
| "rx_run ic RWordB st = (if word_at (rx_prev st) \<noteq> word_at (rx_rest st) then [st] else [])"
| "rx_run ic (RLook r) st =
     (case rx_run ic r st of [] \<Rightarrow> [] | st' # _ \<Rightarrow> [st\<lparr>rx_cap := rx_cap st'\<rparr>])"

section \<open>Searching a string\<close>

fun rx_search :: "bool \<Rightarrow> rx \<Rightarrow> string \<Rightarrow> string \<Rightarrow> (string \<times> (nat \<Rightarrow> string option)) option" where
  "rx_search ic r prev [] =
     (case rx_run ic r \<lparr>rx_prev = prev, rx_rest = [], rx_cap = (\<lambda>_. None)\<rparr> of
        st # _ \<Rightarrow> Some ([], rx_cap st) | [] \<Rightarrow> None)"
| "rx_search ic r prev (c # cs) =
     (case rx_run ic r \<lparr>rx_prev = prev, rx_rest = c # cs, rx_cap = (\<lambda>_. None)\<rparr> of
        st # _ \<Rightarrow> Some (take (length (c # cs) - length (rx_rest st)) (c # cs), rx_cap st)
      | [] \<Rightarrow> rx_search ic r (c # prev) cs)"

text \<open>\<open>str.match(re)\<close> without the flag \<open>g\<close>, and \<open>re.exec(str)\<close> of a fresh literal, for \<open>n\<close> groups.\<close>

definition rx_exec :: "bool \<Rightarrow> rx \<Rightarrow> nat \<Rightarrow> string \<Rightarrow> string option list option" where
  "rx_exec ic r n s =
     (case rx_search ic r [] s of
        None \<Rightarrow> None
      | Some (whole, cap) \<Rightarrow> Some (Some whole # map cap [1..<Suc n]))"

definition rx_test :: "bool \<Rightarrow> rx \<Rightarrow> string \<Rightarrow> bool" where
  "rx_test ic r s = (rx_search ic r [] s \<noteq> None)"

section \<open>What a match consumes and captures\<close>

named_theorems rx_simps \<open>the end states of the primitive patterns\<close>

lemma rx_rest_advance [simp]: "rx_rest (advance n st) = drop n (rx_rest st)"
  and rx_cap_advance [simp]: "rx_cap (advance n st) = rx_cap st"
  by (simp_all add: advance_def)

lemma take_consumed [simp]: "take (length s - (length s - n)) s = take n s"
  by (cases "n \<le> length s") simp_all

lemma in_run_Text [rx_simps]:
  "st' \<in> set (rx_run ic (RText s) st) \<longleftrightarrow>
     list_all2 (same_char ic) s (take (length s) (rx_rest st)) \<and> st' = advance (length s) st"
  by auto

lemma in_run_Many [rx_simps]:
  "st' \<in> set (rx_run ic (RMany c) st) \<longleftrightarrow> (\<exists>k \<le> class_run c (rx_rest st). st' = advance k st)"
  by (auto simp: image_iff less_Suc_eq_le simp del: upt_Suc)

lemma in_run_Many1 [rx_simps]:
  "st' \<in> set (rx_run ic (RMany1 c) st) \<longleftrightarrow> (\<exists>k. 1 \<le> k \<and> k \<le> class_run c (rx_rest st) \<and> st' = advance k st)"
  by (auto simp: image_iff less_Suc_eq_le simp del: upt_Suc)

lemma in_run_Opt [rx_simps]: "st' \<in> set (rx_run ic (ROpt r) st) \<longleftrightarrow> st' \<in> set (rx_run ic r st) \<or> st' = st"
  by auto

lemma in_run_Seq [rx_simps]:
  "st' \<in> set (rx_run ic (RSeq r1 r2) st) \<longleftrightarrow> (\<exists>st1 \<in> set (rx_run ic r1 st). st' \<in> set (rx_run ic r2 st1))"
  by simp

lemma in_run_Alt [rx_simps]:
  "st' \<in> set (rx_run ic (RAlt r1 r2) st) \<longleftrightarrow> st' \<in> set (rx_run ic r1 st) \<or> st' \<in> set (rx_run ic r2 st)"
  by simp

lemma in_run_Group [rx_simps]:
  "st' \<in> set (rx_run ic (RGroup i r) st) \<longleftrightarrow> (\<exists>st1 \<in> set (rx_run ic r st).
     st' = st1\<lparr>rx_cap := (rx_cap st1)(i \<mapsto> take (length (rx_rest st) - length (rx_rest st1)) (rx_rest st))\<rparr>)"
  by auto

lemma in_run_WordB [rx_simps]: "st' \<in> set (rx_run ic RWordB st) \<Longrightarrow> st' = st"
  by (auto split: if_splits)

lemma in_run_Look [rx_simps]:
  "st' \<in> set (rx_run ic (RLook (RText s)) st) \<Longrightarrow> st' = st"
  by (auto split: if_splits)

lemma class_run_in: "k \<le> class_run c s \<Longrightarrow> x \<in> set (take k s) \<Longrightarrow> in_class c x"
proof -
  assume k: "k \<le> class_run c s" "x \<in> set (take k s)"
  have "take k s = take k (takeWhile (in_class c) s @ dropWhile (in_class c) s)" by simp
  also have "\<dots> = take k (takeWhile (in_class c) s)" using k(1) by (simp add: class_run_def del: takeWhile_dropWhile_id)
  finally show ?thesis using k(2) by (metis in_set_takeD set_takeWhileD)
qed

lemma class_run_le: "class_run c s \<le> length s"
  by (simp add: class_run_def length_takeWhile_le)

lemma rx_search_run:
  "rx_search ic r prev s = Some (w, cap) \<Longrightarrow> \<exists>st0 st. st \<in> set (rx_run ic r st0) \<and> cap = rx_cap st"
proof (induction s arbitrary: prev)
  case Nil
  let ?st0 = "\<lparr>rx_prev = prev, rx_rest = [], rx_cap = (\<lambda>_. None)\<rparr>"
  show ?case
  proof (cases "rx_run ic r ?st0")
    case (Cons st sts)
    then have "st \<in> set (rx_run ic r ?st0)" by simp
    moreover have "cap = rx_cap st" using Nil.prems Cons by simp
    ultimately show ?thesis by blast
  qed (use Nil.prems in simp)
next
  case (Cons c cs)
  let ?st0 = "\<lparr>rx_prev = prev, rx_rest = c # cs, rx_cap = (\<lambda>_. None)\<rparr>"
  show ?case
  proof (cases "rx_run ic r ?st0")
    case Nil
    with Cons.prems have "rx_search ic r (c # prev) cs = Some (w, cap)" by simp
    then show ?thesis by (rule Cons.IH)
  next
    case run: (Cons st sts)
    then have "st \<in> set (rx_run ic r ?st0)" by simp
    moreover have "cap = rx_cap st" using Cons.prems run by simp
    ultimately show ?thesis by blast
  qed
qed

lemma rx_exec_run:
  assumes "rx_exec ic r n s = Some m"
  obtains st0 st w where "st \<in> set (rx_run ic r st0)" "m = Some w # map (rx_cap st) [1..<Suc n]"
proof -
  from assms obtain w cap where "rx_search ic r [] s = Some (w, cap)" "m = Some w # map cap [1..<Suc n]"
    unfolding rx_exec_def by (cases "rx_search ic r [] s") auto
  moreover from rx_search_run[OF this(1)] obtain st0 st where "st \<in> set (rx_run ic r st0)" "cap = rx_cap st" by blast
  ultimately show ?thesis using that by blast
qed

text \<open>The leftmost start: where no start before it matches, the search arrives with the text read.\<close>

lemma rx_search_skip:
  assumes "\<And>k prev. k < length pre \<Longrightarrow>
      rx_run ic r \<lparr>rx_prev = prev, rx_rest = drop k pre @ s, rx_cap = (\<lambda>_. None)\<rparr> = []"
  shows "rx_search ic r prev (pre @ s) = rx_search ic r (rev pre @ prev) s"
  using assms
proof (induction pre arbitrary: prev)
  case (Cons c pre)
  have "rx_run ic r \<lparr>rx_prev = prev, rx_rest = (c # pre) @ s, rx_cap = (\<lambda>_. None)\<rparr> = []"
    using Cons.prems[of 0 prev] by simp
  moreover have "rx_search ic r (c # prev) (pre @ s) = rx_search ic r (rev pre @ c # prev) s"
    by (rule Cons.IH) (use Cons.prems[of "Suc _"] in simp)
  ultimately show ?case by simp
qed simp

end
