(* ===== verification/ErrorPage.thy ===== *)
theory ErrorPage
  imports JsRegExp
begin

text \<open>
  The script of the page a forbidden client sees, \<open>src/static/403/script.js\<close>: the name and version of
  the browser it writes on the page, the flickering monitor and the conveyor belt. jQuery and the
  timeline library are not part of the repository: the page keeps the calls the script makes to them,
  in order. \<open>setInterval\<close> and the timeline call the script back; \<open>page_step\<close> is when.
\<close>

section \<open>navigator.sayswho\<close>

record navigator =
  nav_userAgent :: string
  nav_appName :: string
  nav_appVersion :: string

text \<open>The elements of a JavaScript array, \<open>None\<close> for \<open>undefined\<close>.\<close>

definition js_at :: "string option list \<Rightarrow> nat \<Rightarrow> string option" where
  "js_at a i = (if i < length a then a ! i else None)"

definition js_truthy :: "string option \<Rightarrow> bool" where
  "js_truthy v = (v \<noteq> None \<and> v \<noteq> Some '''')"

definition js_text :: "string option \<Rightarrow> string" where
  "js_text v = (case v of None \<Rightarrow> ''undefined'' | Some s \<Rightarrow> s)"

definition js_or_empty :: "string option \<Rightarrow> string" where
  "js_or_empty v = (if js_truthy v then the v else '''')"

text \<open>\<open>join\<close> writes nothing for \<open>undefined\<close>.\<close>

definition js_join :: "string option list \<Rightarrow> string" where
  "js_join a = Join CHR '' '' (map (\<lambda>v. case v of None \<Rightarrow> '''' | Some s \<Rightarrow> s) a)"

definition js_splice1 :: "string option list \<Rightarrow> string option \<Rightarrow> string option list" where
  "js_splice1 a v = take 1 a @ [v] @ drop 2 a"

text \<open>\<open>/(opera|chrome|safari|firefox|msie|trident(?=\/))\/?\s*(\d+)/i\<close>\<close>

definition browser_names :: "string list" where
  "browser_names = [''opera'', ''chrome'', ''safari'', ''firefox'', ''msie'']"

definition browser_name_rx :: rx where
  "browser_name_rx =
     RAlt (RText ''opera'') (RAlt (RText ''chrome'') (RAlt (RText ''safari'') (RAlt (RText ''firefox'')
       (RAlt (RText ''msie'') (RSeq (RText ''trident'') (RLook (RText ''/'')))))))"

definition browser_rx :: rx where
  "browser_rx =
     RSeq (RGroup 1 browser_name_rx)
       (RSeq (ROpt (RText ''/'')) (RSeq (RMany RSpace) (RGroup 2 (RMany1 RDigit))))"

text \<open>\<open>/trident/i\<close>\<close>

definition trident_rx :: rx where "trident_rx = RText ''trident''"

text \<open>\<open>/\brv[ :]+(\d+)/g\<close>\<close>

definition rv_rx :: rx where
  "rv_rx = RSeq RWordB (RSeq (RText ''rv'') (RSeq (RMany1 (ROneOf '' :'')) (RGroup 1 (RMany1 RDigit))))"

text \<open>\<open>/\b(OPR|Edge)\/(\d+)/\<close>\<close>

definition opr_rx :: rx where
  "opr_rx = RSeq RWordB (RSeq (RGroup 1 (RAlt (RText ''OPR'') (RText ''Edge'')))
     (RSeq (RText ''/'') (RGroup 2 (RMany1 RDigit))))"

text \<open>\<open>/version\/(\d+)/i\<close>\<close>

definition version_rx :: rx where
  "version_rx = RSeq (RText ''version/'') (RGroup 1 (RMany1 RDigit))"

definition browser_match :: "string \<Rightarrow> string option list" where
  "browser_match ua = (case rx_exec True browser_rx 2 ua of None \<Rightarrow> [] | Some m \<Rightarrow> m)"

text \<open>The last three statements of the function, from \<open>M= M[2]? ...\<close> on.\<close>

definition generic_name :: "navigator \<Rightarrow> string option list \<Rightarrow> string" where
  "generic_name nav M =
     (let M1 = (if js_truthy (js_at M 2) then [js_at M 1, js_at M 2]
                else [Some (nav_appName nav), Some (nav_appVersion nav), Some ''-?'']);
          M2 = (case rx_exec True version_rx 1 (nav_userAgent nav) of
                  None \<Rightarrow> M1 | Some tem \<Rightarrow> js_splice1 M1 (js_at tem 1))
      in js_join M2)"

definition sayswho :: "navigator \<Rightarrow> string" where
  "sayswho nav =
     (let ua = nav_userAgent nav; M = browser_match ua
      in if rx_test True trident_rx (js_text (js_at M 1)) then
           (let tem = (case rx_exec False rv_rx 1 ua of None \<Rightarrow> [] | Some m \<Rightarrow> m)
            in ''IE '' @ js_or_empty (js_at tem 1))
         else if js_at M 1 = Some ''Chrome'' then
           (case rx_exec False opr_rx 2 ua of
              Some tem \<Rightarrow> Replace1 (js_join (drop 1 tem)) ''OPR'' ''Opera''
            | None \<Rightarrow> generic_name nav M)
         else generic_name nav M)"

section \<open>The page\<close>

datatype call =
    HtmlOf string "string option"
  | ToggleClass string string
  | AddClass string string
  | SetInterval nat
  | TimelineTo string nat
  | TimelineCall

record page =
  pg_counter :: nat
  pg_calls :: "call list"
  pg_intervals :: nat
  pg_belt :: bool

definition monitor_text :: "string list" where "monitor_text = [''403'', ''Forbidden'']"

definition emit :: "call \<Rightarrow> page \<Rightarrow> page" where
  "emit c p = p\<lparr>pg_calls := pg_calls p @ [c]\<rparr>"

definition text_at :: "nat \<Rightarrow> string option" where
  "text_at i = (if i < length monitor_text then Some (monitor_text ! i) else None)"

definition change :: "page \<Rightarrow> page" where
  "change p =
     (let p1 = emit (HtmlOf ''.monitor'' (text_at (pg_counter p))) p;
          p2 = emit (ToggleClass ''.monitor'' ''text'') p1;
          p3 = p2\<lparr>pg_counter := pg_counter p2 + 1\<rparr>
      in if pg_counter p3 \<ge> length monitor_text then p3\<lparr>pg_counter := 0\<rparr> else p3)"

text \<open>\<open>setInterval(change, 1000)\<close> starts one more interval.\<close>

definition scanning :: "page \<Rightarrow> page" where
  "scanning p =
     (let p1 = emit (HtmlOf ''.monitor'' (Some ''Forbidden'')) p;
          p2 = emit (SetInterval 1000) p1
      in p2\<lparr>pg_intervals := pg_intervals p2 + 1\<rparr>)"

text \<open>The function the timeline calls 2.5 seconds in.\<close>

definition belt_call :: "page \<Rightarrow> page" where
  "belt_call p = scanning (emit (AddClass ''.scan-window'' ''scanning'') (emit (AddClass ''.box'' ''scanned'') p))"

definition show_version :: "navigator \<Rightarrow> page \<Rightarrow> page" where
  "show_version nav p = emit (HtmlOf ''.box .version'' (Some (sayswho nav))) p"

text \<open>What the script does when it is loaded.\<close>

definition new_page :: page where
  "new_page = \<lparr>pg_counter = 0, pg_calls = [], pg_intervals = 0, pg_belt = False\<rparr>"

definition load_page :: "navigator \<Rightarrow> page" where
  "load_page nav =
     (let p1 = show_version nav new_page;
          p2 = emit (TimelineTo ''.box'' 4) p1;
          p3 = emit TimelineCall p2
      in p3\<lparr>pg_belt := True\<rparr>)"

text \<open>The timeline plays its call once; a running interval fires again and again.\<close>

inductive page_step :: "page \<Rightarrow> page \<Rightarrow> bool" where
  Belt: "pg_belt p \<Longrightarrow> page_step p (belt_call p\<lparr>pg_belt := False\<rparr>)"
| Tick: "0 < pg_intervals p \<Longrightarrow> page_step p (change p)"

inductive page_reachable :: "navigator \<Rightarrow> page \<Rightarrow> bool" for nav where
  Load: "page_reachable nav (load_page nav)"
| Step: "page_reachable nav p \<Longrightarrow> page_step p p' \<Longrightarrow> page_reachable nav p'"

section \<open>The characters of the answer\<close>

definition is_letter :: "char \<Rightarrow> bool" where
  "is_letter c = (let n = (of_char c :: nat) in 65 \<le> n \<and> n \<le> 90 \<or> 97 \<le> n \<and> n \<le> 122)"

definition is_digit :: "char \<Rightarrow> bool" where
  "is_digit c = in_class RDigit c"

definition plain_char :: "char \<Rightarrow> bool" where
  "plain_char c = (is_letter c \<or> is_digit c \<or> c = CHR '' '')"

definition digits :: "string \<Rightarrow> bool" where
  "digits s = (s \<noteq> [] \<and> list_all is_digit s)"

lemma of_char_to_upper:
  "(of_char (to_upper c) :: nat) = (if 97 \<le> (of_char c :: nat) \<and> (of_char c :: nat) \<le> 122 then of_char c - 32 else of_char c)"
  by (auto simp: to_upper_def Let_def of_char_of)

lemma is_letter_upper: "is_letter c \<longleftrightarrow> 65 \<le> (of_char (to_upper c) :: nat) \<and> (of_char (to_upper c) :: nat) \<le> 90"
  by (auto simp: is_letter_def of_char_to_upper Let_def)

lemma same_letter: "same_char ic a b \<Longrightarrow> is_letter a \<Longrightarrow> is_letter b"
  unfolding same_char_def is_letter_upper by auto

lemma same_letters: "list_all2 (same_char ic) s u \<Longrightarrow> list_all is_letter s \<Longrightarrow> list_all is_letter u"
  by (induction rule: list_all2_induct) (auto intro: same_letter)

lemma run_digits:
  assumes "1 \<le> k" "k \<le> class_run RDigit s"
  shows "digits (take k s)"
proof -
  have "take k s \<noteq> []" using assms class_run_le[of RDigit s] by auto
  then show ?thesis
    using class_run_in[OF assms(2)] by (auto simp: digits_def is_digit_def list_all_iff)
qed

lemma plain_letters: "list_all is_letter s \<Longrightarrow> list_all plain_char s"
  and plain_digits: "digits s \<Longrightarrow> list_all plain_char s"
  by (auto simp: list_all_iff plain_char_def digits_def)

lemma letters_texts:
  "list_all is_letter ''opera''" "list_all is_letter ''chrome''" "list_all is_letter ''safari''"
  "list_all is_letter ''firefox''" "list_all is_letter ''msie''" "list_all is_letter ''trident''"
  "list_all is_letter ''OPR''" "list_all is_letter ''Edge''" "list_all is_letter ''Opera''"
  "list_all is_letter ''IE''"
  by (simp_all add: is_letter_def)

lemma run_text_letters:
  assumes "st' \<in> set (rx_run ic (RText s) st)" "list_all is_letter s"
  shows "list_all is_letter (take (length (rx_rest st) - length (rx_rest st')) (rx_rest st))" "rx_cap st' = rx_cap st"
proof -
  from assms(1) have st': "list_all2 (same_char ic) s (take (length s) (rx_rest st))" "st' = advance (length s) st"
    unfolding in_run_Text by simp_all
  then show "list_all is_letter (take (length (rx_rest st) - length (rx_rest st')) (rx_rest st))" "rx_cap st' = rx_cap st"
    using same_letters[OF st'(1) assms(2)] by simp_all
qed

text \<open>The first group of \<open>browser_rx\<close> and of \<open>opr_rx\<close> is a word, the others are numbers.\<close>

lemma name_group:
  assumes "st' \<in> set (rx_run True browser_name_rx st)"
  shows "list_all is_letter (take (length (rx_rest st) - length (rx_rest st')) (rx_rest st))"
  using assms unfolding browser_name_rx_def in_run_Alt
proof (elim disjE)
  assume "st' \<in> set (rx_run True (RSeq (RText ''trident'') (RLook (RText ''/''))) st)"
  then obtain st1 where 1: "st1 \<in> set (rx_run True (RText ''trident'') st)"
    "st' \<in> set (rx_run True (RLook (RText ''/'')) st1)"
    unfolding in_run_Seq by blast
  show ?thesis unfolding in_run_Look[OF 1(2)] by (rule run_text_letters(1)[OF 1(1) letters_texts(6)])
qed (erule run_text_letters(1), rule letters_texts)+

lemma cap_unchanged:
  "st' \<in> set (rx_run ic (RText s) st) \<Longrightarrow> rx_cap st' = rx_cap st"
  "st' \<in> set (rx_run ic (ROpt (RText s)) st) \<Longrightarrow> rx_cap st' = rx_cap st"
  "st' \<in> set (rx_run ic (RMany c) st) \<Longrightarrow> rx_cap st' = rx_cap st"
  "st' \<in> set (rx_run ic (RMany1 c) st) \<Longrightarrow> rx_cap st' = rx_cap st"
  unfolding in_run_Text in_run_Opt in_run_Many in_run_Many1 by auto

lemma digit_group:
  assumes "st' \<in> set (rx_run ic (RGroup i (RMany1 RDigit)) st)"
  shows "\<exists>d. digits d \<and> rx_cap st' = (rx_cap st)(i \<mapsto> d)"
proof -
  from assms obtain k where "1 \<le> k" "k \<le> class_run RDigit (rx_rest st)"
    "rx_cap st' = (rx_cap st)(i \<mapsto> take k (rx_rest st))"
    unfolding in_run_Group in_run_Many1 by auto
  with run_digits show ?thesis by blast
qed

lemma name_cap:
  assumes "st' \<in> set (rx_run ic (RGroup i r) st)"
    "\<And>st1. st1 \<in> set (rx_run ic r st) \<Longrightarrow>
       list_all is_letter (take (length (rx_rest st) - length (rx_rest st1)) (rx_rest st)) \<and> rx_cap st1 = rx_cap st"
  shows "\<exists>b. list_all is_letter b \<and> rx_cap st' = (rx_cap st)(i \<mapsto> b)"
  using assms unfolding in_run_Group by (fastforce simp del: rx_run.simps)

lemma name_group_cap:
  assumes "st' \<in> set (rx_run True browser_name_rx st)"
  shows "rx_cap st' = rx_cap st"
  using assms unfolding browser_name_rx_def in_run_Alt in_run_Seq
  by (elim disjE bexE) (auto dest!: in_run_Look simp del: rx_run.simps simp: cap_unchanged)

lemma browser_groups:
  assumes "rx_exec True browser_rx 2 ua = Some m"
  obtains w b d where "m = [Some w, Some b, Some d]" "list_all is_letter b" "digits d"
proof -
  from rx_exec_run[OF assms] obtain st0 st w where
    st: "st \<in> set (rx_run True browser_rx st0)" "m = Some w # map (rx_cap st) [1..<Suc 2]" by blast
  from st(1) obtain st1 st2 st3 where
    1: "st1 \<in> set (rx_run True (RGroup 1 browser_name_rx) st0)"
    and 2: "st2 \<in> set (rx_run True (ROpt (RText ''/'')) st1)" "st3 \<in> set (rx_run True (RMany RSpace) st2)"
    and 3: "st \<in> set (rx_run True (RGroup 2 (RMany1 RDigit)) st3)"
    unfolding browser_rx_def in_run_Seq by blast
  from name_cap[OF 1] name_group name_group_cap obtain b where
    b: "list_all is_letter b" "rx_cap st1 = (rx_cap st0)(1 \<mapsto> b)" by blast
  from digit_group[OF 3] obtain d where d: "digits d" "rx_cap st = (rx_cap st3)(2 \<mapsto> d)" by blast
  have "m = [Some w, rx_cap st 1, rx_cap st 2]" by (simp add: st(2) numeral_2_eq_2)
  also have "\<dots> = [Some w, Some b, Some d]" using b(2) d(2) cap_unchanged(2)[OF 2(1)] cap_unchanged(3)[OF 2(2)] by simp
  finally show ?thesis using that b(1) d(1) by blast
qed

lemma opr_groups:
  assumes "rx_exec False opr_rx 2 ua = Some m"
  obtains w b d where "m = [Some w, Some b, Some d]" "list_all is_letter b" "digits d"
proof -
  from rx_exec_run[OF assms] obtain st0 st w where
    st: "st \<in> set (rx_run False opr_rx st0)" "m = Some w # map (rx_cap st) [1..<Suc 2]" by blast
  from st(1) obtain stb st1 st2 where
    1: "st1 \<in> set (rx_run False (RGroup 1 (RAlt (RText ''OPR'') (RText ''Edge''))) stb)"
    and 2: "st2 \<in> set (rx_run False (RText ''/'') st1)" and 3: "st \<in> set (rx_run False (RGroup 2 (RMany1 RDigit)) st2)"
    unfolding opr_rx_def in_run_Seq by blast
  have "list_all is_letter (take (length (rx_rest stb) - length (rx_rest s1)) (rx_rest stb)) \<and> rx_cap s1 = rx_cap stb"
    if "s1 \<in> set (rx_run False (RAlt (RText ''OPR'') (RText ''Edge'')) stb)" for s1
    using that run_text_letters letters_texts(7,8) unfolding in_run_Alt by blast
  from name_cap[OF 1 this] obtain b where b: "list_all is_letter b" "rx_cap st1 = (rx_cap stb)(1 \<mapsto> b)" by blast
  from digit_group[OF 3] obtain d where d: "digits d" "rx_cap st = (rx_cap st2)(2 \<mapsto> d)" by blast
  have "m = [Some w, rx_cap st 1, rx_cap st 2]" by (simp add: st(2) numeral_2_eq_2)
  also have "\<dots> = [Some w, Some b, Some d]" using b(2) d(2) cap_unchanged(1)[OF 2] by simp
  finally show ?thesis using that b(1) d(1) by blast
qed

lemma version_groups:
  assumes "rx_exec True version_rx 1 ua = Some m"
  obtains w d where "m = [Some w, Some d]" "digits d"
proof -
  from rx_exec_run[OF assms] obtain st0 st w where
    st: "st \<in> set (rx_run True version_rx st0)" "m = Some w # map (rx_cap st) [1..<Suc 1]" by blast
  from st(1) obtain st1 where "st \<in> set (rx_run True (RGroup 1 (RMany1 RDigit)) st1)"
    unfolding version_rx_def in_run_Seq by blast
  from digit_group[OF this] st(2) that show ?thesis by auto
qed

lemma rv_groups:
  assumes "rx_exec False rv_rx 1 ua = Some m"
  obtains w d where "m = [Some w, Some d]" "digits d"
proof -
  from rx_exec_run[OF assms] obtain st0 st w where
    st: "st \<in> set (rx_run False rv_rx st0)" "m = Some w # map (rx_cap st) [1..<Suc 1]" by blast
  from st(1) obtain st1 where "st \<in> set (rx_run False (RGroup 1 (RMany1 RDigit)) st1)"
    unfolding rv_rx_def in_run_Seq by blast
  from digit_group[OF this] st(2) that show ?thesis by auto
qed

section \<open>What the function answers\<close>

definition js_string :: "string option list option \<Rightarrow> nat \<Rightarrow> string option" where
  "js_string m i = (case m of None \<Rightarrow> None | Some a \<Rightarrow> js_at a i)"

lemma digits_truthy: "digits d \<Longrightarrow> js_truthy (Some d)"
  by (simp add: js_truthy_def digits_def)

lemma generic_name_found:
  assumes "M = [Some w, Some b, Some d]" "digits d"
  shows "\<exists>n. digits n \<and> generic_name nav M = b @ '' '' @ n \<and>
    n = (case js_string (rx_exec True version_rx 1 (nav_userAgent nav)) 1 of None \<Rightarrow> d | Some v \<Rightarrow> v)"
proof (cases "rx_exec True version_rx 1 (nav_userAgent nav)")
  case None
  with assms digits_truthy[OF assms(2)] show ?thesis
    by (simp add: generic_name_def js_at_def js_join_def js_string_def)
next
  case (Some m)
  from version_groups[OF Some] obtain w' v where "m = [Some w', Some v]" "digits v" .
  with Some assms digits_truthy[OF assms(2)] show ?thesis
    by (simp add: generic_name_def js_at_def js_join_def js_string_def js_splice1_def)
qed

lemma generic_name_unknown:
  "generic_name nav [] = nav_appName nav @ '' '' @
    (case js_string (rx_exec True version_rx 1 (nav_userAgent nav)) 1 of None \<Rightarrow> nav_appVersion nav | Some v \<Rightarrow> v) @ '' -?''"
proof (cases "rx_exec True version_rx 1 (nav_userAgent nav)")
  case None
  then show ?thesis by (simp add: generic_name_def js_at_def js_join_def js_string_def js_truthy_def)
next
  case (Some m)
  from version_groups[OF Some] obtain w' v where "m = [Some w', Some v]" "digits v" .
  with Some show ?thesis
    by (simp add: generic_name_def js_at_def js_join_def js_string_def js_splice1_def js_truthy_def)
qed

lemma Replace1_chars: "set (Replace1 s old new) \<subseteq> set s \<union> set new"
proof (induction s)
  case (Cons x s)
  show ?case using Cons set_drop_subset[of "length old" "x # s"] by (auto simp del: drop.simps)
qed auto

lemma plain_space [simp]: "plain_char CHR '' ''"
  by (simp add: plain_char_def)

lemma plain_join: "list_all plain_char b \<Longrightarrow> list_all plain_char n \<Longrightarrow> list_all plain_char (b @ '' '' @ n)"
  by simp

lemma sayswho_known:
  assumes "browser_match (nav_userAgent nav) \<noteq> []"
  shows "list_all plain_char (sayswho nav)"
proof -
  let ?ua = "nav_userAgent nav"
  from assms obtain m where m: "rx_exec True browser_rx 2 ?ua = Some m" "browser_match ?ua = m"
    by (auto simp: browser_match_def split: option.splits)
  from browser_groups[OF m(1)] obtain w b d where
    wbd: "m = [Some w, Some b, Some d]" "list_all is_letter b" "digits d" .
  from generic_name_found[OF wbd(1,3), of nav] obtain n where
    "digits n" "generic_name nav m = b @ '' '' @ n" by blast
  then have generic: "list_all plain_char (generic_name nav m)"
    using plain_join plain_letters[OF wbd(2)] plain_digits by simp
  have ie: "list_all plain_char (''IE '' @ js_or_empty (js_at (case rx_exec False rv_rx 1 ?ua of None \<Rightarrow> [] | Some m \<Rightarrow> m) 1))"
  proof (cases "rx_exec False rv_rx 1 ?ua")
    case None
    then show ?thesis by (simp add: js_at_def js_or_empty_def js_truthy_def plain_char_def is_letter_def)
  next
    case (Some tem)
    from rv_groups[OF Some] obtain w' v where "tem = [Some w', Some v]" "digits v" .
    with Some plain_digits show ?thesis
      by (auto simp: js_at_def js_or_empty_def js_truthy_def plain_char_def is_letter_def)
  qed
  have opr: "list_all plain_char (Replace1 (js_join (drop 1 tem)) ''OPR'' ''Opera'')" if "rx_exec False opr_rx 2 ?ua = Some tem" for tem
  proof -
    from opr_groups[OF that] obtain w' b' d' where
      "tem = [Some w', Some b', Some d']" "list_all is_letter b'" "digits d'" .
    then have "list_all plain_char (js_join (drop 1 tem))"
      using plain_join plain_letters plain_digits by (simp add: js_join_def)
    moreover have "list_all plain_char ''Opera''" using plain_letters letters_texts(9) by blast
    ultimately show ?thesis using Replace1_chars[of "js_join (drop 1 tem)" "''OPR''" "''Opera''"]
      by (auto simp: list_all_iff)
  qed
  show ?thesis
    unfolding sayswho_def Let_def m(2) using generic ie opr by (simp split: option.split)
qed

section \<open>The first browser token decides\<close>

text \<open>Some browser's name starts the string, whatever the case of its letters.\<close>

definition name_here :: "string \<Rightarrow> string \<Rightarrow> bool" where
  "name_here n s = list_all2 (same_char True) n (take (length n) s)"

lemma names_none:
  assumes "\<forall>n \<in> set (''trident'' # browser_names). \<not> name_here n (rx_rest st)"
  shows "rx_run True browser_rx st = []"
proof -
  have "rx_run True (RText n) st = []" if "n \<in> set (''trident'' # browser_names)" for n
  proof -
    from assms that have "\<not> name_here n (rx_rest st)" by blast
    then show ?thesis by (simp add: name_here_def)
  qed
  then have "rx_run True (RText ''opera'') st = []" "rx_run True (RText ''chrome'') st = []"
    "rx_run True (RText ''safari'') st = []" "rx_run True (RText ''firefox'') st = []"
    "rx_run True (RText ''msie'') st = []" "rx_run True (RText ''trident'') st = []"
    by (simp_all add: browser_names_def del: rx_run.simps)
  then show ?thesis
    by (simp add: browser_rx_def browser_name_rx_def del: rx_run.simps(1))
qed

lemma same_char_first:
  assumes "name_here (x # n) (c # s)" "name_here (y # m) (c # s)"
  shows "to_upper x = to_upper y"
  using assms by (auto simp: name_here_def same_char_def)

lemma name_here_self: "list_all2 (same_char True) n b \<Longrightarrow> name_here n (b @ s)"
  using list_all2_lengthD by (fastforce simp: name_here_def)

lemma names_one:
  assumes "nm \<in> set browser_names" "name_here nm s"
  shows "rx_run True browser_name_rx (st\<lparr>rx_rest := s\<rparr>) = [advance (length nm) (st\<lparr>rx_rest := s\<rparr>)]"
proof -
  let ?st = "st\<lparr>rx_rest := s\<rparr>"
  have hit: "rx_run True (RText nm) ?st = [advance (length nm) ?st]"
    using assms(2) by (simp add: name_here_def)
  obtain c cs where s: "s = c # cs"
    using assms by (cases s) (auto simp: browser_names_def name_here_def)
  have miss: "rx_run True (RText n) ?st = []"
    if "n \<in> set (''trident'' # browser_names)" "to_upper (hd n) \<noteq> to_upper (hd nm)" for n
  proof -
    have "n = hd n # tl n" "nm = hd nm # tl nm" using assms(1) that(1) by (auto simp: browser_names_def)
    then have "\<not> name_here n s" using same_char_first[of "hd n" "tl n" c cs "hd nm" "tl nm"] assms(2) that(2) s by metis
    then show ?thesis by (simp add: name_here_def)
  qed
  note inits = browser_names_def to_upper_def
  from assms(1) have "nm = ''opera'' \<or> nm = ''chrome'' \<or> nm = ''safari'' \<or> nm = ''firefox'' \<or> nm = ''msie''"
    by (simp add: browser_names_def)
  then show ?thesis
    using hit miss[of "''opera''"] miss[of "''chrome''"] miss[of "''safari''"] miss[of "''firefox''"] miss[of "''msie''"]
      miss[of "''trident''"]
    by (elim disjE) (simp_all add: browser_name_rx_def inits del: rx_run.simps(1))
qed

lemma seq_first:
  "rx_run ic r1 st = s1 # ss \<Longrightarrow> rx_run ic r2 s1 = s2 # ts \<Longrightarrow> \<exists>us. rx_run ic (RSeq r1 r2) st = s2 # us"
  by simp

lemma class_run_prefix:
  "list_all (in_class c) d \<Longrightarrow> rest = [] \<or> \<not> in_class c (hd rest) \<Longrightarrow> class_run c (d @ rest) = length d"
proof (induction d)
  case Nil
  then show ?case by (cases rest) (auto simp: class_run_def)
qed (simp add: class_run_def)

lemma digit_no_space: "is_digit c \<Longrightarrow> \<not> in_class RSpace c"
  by (auto simp: is_digit_def)

lemma token_run:
  assumes "nm \<in> set browser_names" "list_all2 (same_char True) nm b" "digits d" "rest = [] \<or> \<not> is_digit (hd rest)"
    "rx_rest st = b @ ''/'' @ d @ rest"
  shows "\<exists>st' sts. rx_run True browser_rx st = st' # sts \<and> rx_rest st' = rest \<and>
    rx_cap st' = (rx_cap st)(1 \<mapsto> b, 2 \<mapsto> d)"
proof -
  have len: "length nm = length b" using assms(2) by (rule list_all2_lengthD)
  have "name_here nm (rx_rest st)" unfolding assms(5) by (rule name_here_self[OF assms(2)])
  from names_one[OF assms(1) this, of st]
  have names: "rx_run True browser_name_rx st = [advance (length b) st]" by (simp add: len)
  let ?s1 = "(advance (length b) st)\<lparr>rx_cap := (rx_cap st)(1 \<mapsto> b)\<rparr>"
  let ?s2 = "advance 1 ?s1"
  have group: "rx_run True (RGroup 1 browser_name_rx) st = [?s1]"
    by (simp add: names assms(5))
  have slash: "rx_run True (ROpt (RText ''/'')) ?s1 = [?s2, ?s1]"
    by (simp add: assms(5) same_char_def)
  obtain x xs where d: "d = x # xs" "is_digit x" using assms(3) by (cases d) (auto simp: digits_def)
  have rest2: "drop (Suc (length b)) (rx_rest st) = d @ rest" by (simp add: assms(5))
  have "class_run RSpace (rx_rest ?s2) = 0"
    using digit_no_space[OF d(2)] by (simp add: rest2 d(1) class_run_def)
  then have space: "rx_run True (RMany RSpace) ?s2 = [advance 0 ?s2]" by simp
  have "class_run RDigit (rx_rest (advance 0 ?s2)) = length d"
    using class_run_prefix[of RDigit d rest] assms(3,4)
    by (simp add: assms(5) digits_def is_digit_def[abs_def] list_all_iff del: in_class.simps)
  then obtain sts where num: "rx_run True (RMany1 RDigit) (advance 0 ?s2) = advance (length d) (advance 0 ?s2) # sts"
    by (cases "length d") (simp_all add: d(1))
  let ?s3 = "(advance (length d) (advance 0 ?s2))\<lparr>rx_cap := (rx_cap ?s2)(2 \<mapsto> d)\<rparr>"
  have num2: "\<exists>sts. rx_run True (RGroup 2 (RMany1 RDigit)) (advance 0 ?s2) = ?s3 # sts"
    using num by (simp add: assms(5) del: rx_run.simps(3))
  from seq_first[OF space] num2 obtain sts3 where
    "rx_run True (RSeq (RMany RSpace) (RGroup 2 (RMany1 RDigit))) ?s2 = ?s3 # sts3" by blast
  from seq_first[OF slash this] obtain sts4 where
    "rx_run True (RSeq (ROpt (RText ''/'')) (RSeq (RMany RSpace) (RGroup 2 (RMany1 RDigit)))) ?s1 = ?s3 # sts4" by blast
  from seq_first[OF group this] obtain sts where "rx_run True browser_rx st = ?s3 # sts"
    unfolding browser_rx_def by blast
  then show ?thesis using assms(5) by (intro exI[of _ ?s3] exI[of _ sts]) simp
qed

text \<open>No browser's name starts before the text \<open>s\<close> in \<open>pre @ s\<close>.\<close>

definition no_name_before :: "string \<Rightarrow> string \<Rightarrow> bool" where
  "no_name_before pre s =
     (\<forall>k \<in> set [0..<length pre]. \<forall>n \<in> set (''trident'' # browser_names). \<not> name_here n (drop k pre @ s))"

lemma browser_match_token:
  assumes "nm \<in> set browser_names" "list_all2 (same_char True) nm b" "digits d" "rest = [] \<or> \<not> is_digit (hd rest)"
    "no_name_before pre (b @ ''/'' @ d @ rest)"
  shows "browser_match (pre @ b @ ''/'' @ d @ rest) = [Some (b @ ''/'' @ d), Some b, Some d]"
proof -
  let ?s = "b @ ''/'' @ d @ rest"
  have skip: "rx_search True browser_rx [] (pre @ ?s) = rx_search True browser_rx (rev pre @ []) ?s"
    by (rule rx_search_skip, rule names_none) (use assms(5) in \<open>simp add: no_name_before_def\<close>)
  let ?st = "\<lparr>rx_prev = rev pre @ [], rx_rest = ?s, rx_cap = (\<lambda>_. None)\<rparr>"
  from token_run[OF assms(1-4), of ?st] obtain st' sts where
    run: "rx_run True browser_rx ?st = st' # sts" "rx_rest st' = rest" "rx_cap st' = [1 \<mapsto> b, 2 \<mapsto> d]" by auto
  obtain c cs where cs: "?s = c # cs" using assms(1,2) by (cases b) (auto simp: browser_names_def)
  have "take (length ?s - length rest) ?s = b @ ''/'' @ d" by simp
  then have "rx_search True browser_rx (rev pre @ []) ?s = Some (b @ ''/'' @ d, rx_cap st')"
    using run(1,2) unfolding cs by simp
  then have "rx_exec True browser_rx 2 (pre @ ?s) = Some [Some (b @ ''/'' @ d), Some b, Some d]"
    unfolding rx_exec_def skip by (simp add: run(3) numeral_2_eq_2)
  then show ?thesis by (simp add: browser_match_def)
qed

lemma names_not_trident:
  assumes "nm \<in> set browser_names" "list_all2 (same_char True) nm b"
  shows "\<not> rx_test True trident_rx b"
proof -
  have none: "rx_run True trident_rx \<lparr>rx_prev = prev, rx_rest = s, rx_cap = (\<lambda>_. None)\<rparr> = []"
    if "length s \<le> length b" "s = b \<or> length s < 7" for prev s
  proof -
    have "\<not> name_here ''trident'' s"
    proof
      assume t: "name_here ''trident'' s"
      then have "length s \<ge> 7" using list_all2_lengthD by (fastforce simp: name_here_def)
      with that have "s = b" by simp
      then have "name_here nm s" "s \<noteq> []"
        using name_here_self[OF assms(2), of "''''"] assms by (auto simp: browser_names_def)
      then have "to_upper (hd nm) = to_upper (CHR ''t'')"
        using t same_char_first[of "hd nm" "tl nm" "hd s" "tl s" "CHR ''t''" "''rident''"] assms(1)
        by (auto simp: browser_names_def)
      with assms(1) show False by (auto simp: browser_names_def to_upper_def)
    qed
    then show ?thesis by (simp add: trident_rx_def name_here_def)
  qed
  have len: "length b \<le> 7" using assms list_all2_lengthD[OF assms(2)] by (auto simp: browser_names_def)
  have "rx_search True trident_rx prev s = None" if "length s \<le> length b" "s = b \<or> length s < 7" for prev s
    using that
  proof (induction s arbitrary: prev)
    case Nil
    then show ?case using none[OF Nil] by simp
  next
    case (Cons c cs)
    have "rx_search True trident_rx (c # prev) cs = None" by (rule Cons.IH) (use Cons.prems len in auto)
    with none[OF Cons.prems] show ?case by simp
  qed
  then show ?thesis by (simp add: rx_test_def)
qed

text \<open>
  C23: the first browser token of the user agent gives the name and the version the page shows, except
  that \<open>Version/n\<close> anywhere in the user agent replaces the version, and that a token written exactly
  \<open>Chrome\<close> gives way to a later \<open>OPR/n\<close> or \<open>Edge/n\<close>, shown as \<open>Opera\<close> or \<open>Edge\<close>.
\<close>

theorem sayswho_first_token:
  assumes "nav_userAgent nav = pre @ b @ ''/'' @ d @ rest" "no_name_before pre (b @ ''/'' @ d @ rest)"
    "nm \<in> set browser_names" "list_all2 (same_char True) nm b" "digits d" "rest = [] \<or> \<not> is_digit (hd rest)"
  shows "sayswho nav =
    (if b = ''Chrome'' \<and> rx_exec False opr_rx 2 (nav_userAgent nav) \<noteq> None
     then Replace1 (the (js_string (rx_exec False opr_rx 2 (nav_userAgent nav)) 1) @ '' '' @
       the (js_string (rx_exec False opr_rx 2 (nav_userAgent nav)) 2)) ''OPR'' ''Opera''
     else b @ '' '' @ (case js_string (rx_exec True version_rx 1 (nav_userAgent nav)) 1 of None \<Rightarrow> d | Some v \<Rightarrow> v))"
proof -
  let ?ua = "nav_userAgent nav" and ?M = "[Some (b @ ''/'' @ d), Some b, Some d]"
  have M: "browser_match ?ua = ?M"
    unfolding assms(1) by (rule browser_match_token[OF assms(3-6,2)])
  have at1: "js_at ?M 1 = Some b" by (simp add: js_at_def)
  note generic = generic_name_found[of ?M, OF refl assms(5), of nav]
  have nt: "\<not> rx_test True trident_rx (js_text (Some b))"
    using names_not_trident[OF assms(3,4)] by (simp add: js_text_def)
  show ?thesis
  proof (cases "rx_exec False opr_rx 2 ?ua")
    case None
    with generic show ?thesis unfolding sayswho_def Let_def M at1 if_not_P[OF nt] by auto
  next
    case (Some tem)
    from opr_groups[OF Some] obtain w b' d' where "tem = [Some w, Some b', Some d']" .
    with Some generic show ?thesis unfolding sayswho_def Let_def M at1 if_not_P[OF nt]
      by (auto simp: js_join_def js_string_def js_at_def)
  qed
qed

definition example_navigator :: "string \<Rightarrow> navigator" where
  "example_navigator ua = \<lparr>nav_userAgent = ua, nav_appName = ''Netscape'', nav_appVersion = ''5.0''\<rparr>"

theorem sayswho_first_token_witness:
  "sayswho (example_navigator ''Mozilla/5.0 Firefox/118.0'') = ''Firefox 118''"
proof -
  let ?nav = "example_navigator ''Mozilla/5.0 Firefox/118.0''"
  have "no_name_before ''Mozilla/5.0 '' (''Firefox'' @ ''/'' @ ''118'' @ ''.0'')" by code_simp
  moreover have "list_all2 (same_char True) ''firefox'' ''Firefox''" by code_simp
  moreover have "digits ''118''" "\<not> is_digit (hd ''.0'')" by code_simp+
  moreover have "nav_userAgent ?nav = ''Mozilla/5.0 '' @ ''Firefox'' @ ''/'' @ ''118'' @ ''.0''"
    by (simp add: example_navigator_def)
  moreover have "''firefox'' \<in> set browser_names" by (simp add: browser_names_def)
  ultimately have "sayswho ?nav = ''Firefox'' @ '' '' @
    (case js_string (rx_exec True version_rx 1 (nav_userAgent ?nav)) 1 of None \<Rightarrow> ''118'' | Some v \<Rightarrow> v)"
    using sayswho_first_token[of ?nav "''Mozilla/5.0 ''" "''Firefox''" "''118''" "''.0''" "''firefox''"] by simp
  moreover have "js_string (rx_exec True version_rx 1 ''Mozilla/5.0 Firefox/118.0'') 1 = None" by code_simp
  ultimately show ?thesis by (simp add: example_navigator_def)
qed

text \<open>
  The page's text is safe to insert as HTML when the browser is recognised: only letters, digits and
  blanks. When it is not, the text is the navigator's \<open>appName\<close>, then the number after \<open>Version/\<close> or else
  \<open>appVersion\<close>, then \<open>-?\<close>.
\<close>

theorem sayswho_plain_or_default:
  "if browser_match (nav_userAgent nav) \<noteq> [] then list_all plain_char (sayswho nav)
   else sayswho nav = nav_appName nav @ '' '' @
     (case js_string (rx_exec True version_rx 1 (nav_userAgent nav)) 1 of None \<Rightarrow> nav_appVersion nav | Some v \<Rightarrow> v) @ '' -?''"
proof (cases "browser_match (nav_userAgent nav) = []")
  case True
  have "\<not> rx_test True trident_rx ''undefined''" by code_simp
  then have "sayswho nav = generic_name nav []"
    by (simp add: sayswho_def Let_def True js_at_def js_text_def)
  with generic_name_unknown True show ?thesis by simp
next
  case False
  with sayswho_known show ?thesis by simp
qed

section \<open>The states of the page\<close>

definition tick_calls :: "nat \<Rightarrow> call list" where
  "tick_calls k = [HtmlOf ''.monitor'' (Some (monitor_text ! (k mod 2))), ToggleClass ''.monitor'' ''text'']"

text \<open>The page after the conveyor belt and \<open>n\<close> ticks of the monitor.\<close>

definition page_after :: "navigator \<Rightarrow> nat \<Rightarrow> page" where
  "page_after nav n =
     \<lparr>pg_counter = n mod 2,
      pg_calls = [HtmlOf ''.box .version'' (Some (sayswho nav)), TimelineTo ''.box'' 4, TimelineCall,
          AddClass ''.box'' ''scanned'', AddClass ''.scan-window'' ''scanning'',
          HtmlOf ''.monitor'' (Some ''Forbidden''), SetInterval 1000] @ concat (map tick_calls [0..<n]),
      pg_intervals = 1, pg_belt = False\<rparr>"

lemma page_after_belt: "belt_call (load_page nav)\<lparr>pg_belt := False\<rparr> = page_after nav 0"
  by (simp add: belt_call_def scanning_def load_page_def show_version_def new_page_def emit_def page_after_def Let_def)

lemma change_after: "change (page_after nav n) = page_after nav (Suc n)"
proof -
  have "n mod 2 = 0 \<or> n mod 2 = 1" by auto
  then show ?thesis
    by (auto simp: change_def emit_def page_after_def Let_def text_at_def monitor_text_def tick_calls_def mod_Suc)
qed

inductive_cases page_stepE: "page_step p p'"

lemma page_step_after: "page_step (page_after nav n) p' \<longleftrightarrow> p' = page_after nav (Suc n)"
proof
  assume "page_step (page_after nav n) p'"
  then show "p' = page_after nav (Suc n)"
    by (rule page_stepE) (simp_all add: change_after, simp add: page_after_def)
next
  assume "p' = page_after nav (Suc n)"
  then show "page_step (page_after nav n) p'"
    using page_step.Tick[of "page_after nav n"] by (simp add: change_after) (simp add: page_after_def)
qed

lemma page_step_load: "page_step (load_page nav) p' \<longleftrightarrow> p' = page_after nav 0"
proof
  have "pg_intervals (load_page nav) = 0" by (simp add: load_page_def show_version_def new_page_def emit_def Let_def)
  moreover assume "page_step (load_page nav) p'"
  ultimately show "p' = page_after nav 0"
    by (elim page_stepE) (simp_all add: page_after_belt)
next
  have "pg_belt (load_page nav)" by (simp add: load_page_def show_version_def new_page_def emit_def Let_def)
  moreover assume "p' = page_after nav 0"
  ultimately show "page_step (load_page nav) p'"
    using page_step.Belt[of "load_page nav"] by (simp add: page_after_belt)
qed

text \<open>
  C22: the script has exactly these runs: it loads, the belt calls back once, and from then on the monitor
  ticks for ever, showing \<open>403\<close> and \<open>Forbidden\<close> in turn and toggling its class each time; the counter
  never leaves the table of texts and there is one interval only.
\<close>

theorem page_states: "page_reachable nav p \<longleftrightarrow> p = load_page nav \<or> (\<exists>n. p = page_after nav n)"
proof
  assume "page_reachable nav p"
  then show "p = load_page nav \<or> (\<exists>n. p = page_after nav n)"
    by (induction rule: page_reachable.induct) (use page_step_load page_step_after in blast)+
next
  have "page_reachable nav (page_after nav n)" for n
  proof (induction n)
    case 0
    show ?case using page_reachable.Load page_step_load by (blast intro: page_reachable.Step)
  next
    case (Suc n)
    then show ?case using page_step_after by (blast intro: page_reachable.Step)
  qed
  then show "page_reachable nav p" if "p = load_page nav \<or> (\<exists>n. p = page_after nav n)"
    using that page_reachable.Load by blast
qed

lemma reachable_cases:
  assumes "page_reachable nav p"
  obtains "p = load_page nav" | n where "p = page_after nav n"
  using assms by (induction rule: page_reachable.induct) (use page_step_load page_step_after in blast)+

text \<open>
  C24: the page never stops: it always has a next step, and from any state at most three steps later the
  monitor has been set to \<open>403\<close> once more.
\<close>

theorem monitor_keeps_showing_403:
  assumes "page_reachable nav p"
  shows "\<exists>p1 p2 p3 before more. page_step p p1 \<and> page_step p1 p2 \<and> page_step p2 p3 \<and>
    pg_calls p3 = pg_calls p @ before @ [HtmlOf ''.monitor'' (Some ''403'')] @ more"
  using assms
proof (cases rule: reachable_cases)
  case 1
  have "pg_calls (page_after nav 2) = pg_calls (load_page nav) @
    [AddClass ''.box'' ''scanned'', AddClass ''.scan-window'' ''scanning'', HtmlOf ''.monitor'' (Some ''Forbidden''),
     SetInterval 1000] @ [HtmlOf ''.monitor'' (Some ''403'')] @ [ToggleClass ''.monitor'' ''text''] @ tick_calls 1"
    by (simp add: page_after_def load_page_def show_version_def new_page_def emit_def Let_def tick_calls_def monitor_text_def numeral_2_eq_2)
  moreover have "page_step (page_after nav 0) (page_after nav 1)" "page_step (page_after nav 1) (page_after nav 2)"
    by (simp_all add: page_step_after numeral_2_eq_2)
  ultimately show ?thesis unfolding 1 using page_step_load by blast
next
  case (2 n)
  have steps: "page_step p (page_after nav (Suc n))" "page_step (page_after nav (Suc n)) (page_after nav (Suc (Suc n)))"
    "page_step (page_after nav (Suc (Suc n))) (page_after nav (Suc (Suc (Suc n))))"
    by (simp_all add: 2 page_step_after)
  have calls: "pg_calls (page_after nav (Suc (Suc (Suc n)))) =
      pg_calls p @ tick_calls n @ tick_calls (Suc n) @ tick_calls (Suc (Suc n))"
    by (simp add: 2 page_after_def)
  show ?thesis
  proof (cases "n mod 2 = 0")
    case True
    then have "pg_calls (page_after nav (Suc (Suc (Suc n)))) = pg_calls p @ [] @ [HtmlOf ''.monitor'' (Some ''403'')] @
      ToggleClass ''.monitor'' ''text'' # tick_calls (Suc n) @ tick_calls (Suc (Suc n))"
      unfolding calls by (simp add: tick_calls_def monitor_text_def)
    with steps show ?thesis by blast
  next
    case False
    then have "Suc n mod 2 = 0" by presburger
    then have "pg_calls (page_after nav (Suc (Suc (Suc n)))) = pg_calls p @ tick_calls n @ [HtmlOf ''.monitor'' (Some ''403'')] @
      ToggleClass ''.monitor'' ''text'' # tick_calls (Suc (Suc n))"
      unfolding calls by (simp add: tick_calls_def[of "Suc n"] monitor_text_def)
    with steps show ?thesis by blast
  qed
qed

theorem monitor_keeps_showing_403_witness:
  "\<exists>p1 p2 p3 before more. page_step (load_page (example_navigator ''curl/7'')) p1 \<and> page_step p1 p2 \<and> page_step p2 p3 \<and>
    pg_calls p3 = pg_calls (load_page (example_navigator ''curl/7'')) @ before @
      [HtmlOf ''.monitor'' (Some ''403'')] @ more"
  by (rule monitor_keeps_showing_403[OF page_reachable.Load])

end
