(* ===== verification/NetAddress.thy ===== *)
theory NetAddress
  imports NetUtils
begin

text \<open>
  The functions of \<open>src/utils/net.go\<close> on host and port texts, and those that open sockets, over
  \<open>net.SplitHostPort\<close>. The resolver, the sockets and TLS are arguments. Only \<open>CreateListener\<close> is called by the
  program.
\<close>

section \<open>net.SplitHostPort\<close>

datatype addr_error = MissingPort | MissingBracket | TooManyColons | UnexpectedBracket

text \<open>The checks behind the host: no bracket from \<open>j\<close>, \<open>k\<close> on; the port starts behind the last colon \<open>i\<close>.\<close>

definition split_at :: "string \<Rightarrow> nat \<Rightarrow> string \<Rightarrow> nat \<Rightarrow> nat \<Rightarrow> addr_error + string \<times> string" where
  "split_at hostport i host j k =
     (if CHR ''['' \<in> set (drop j hostport) \<or> CHR '']'' \<in> set (drop k hostport) then Inl UnexpectedBracket
      else Inr (host, drop (i + 1) hostport))"

definition SplitHostPort :: "string \<Rightarrow> addr_error + string \<times> string" where
  "SplitHostPort hostport =
     (let i = LastIndex hostport CHR '':''; closing = Index hostport CHR '']''
      in if i < 0 then Inl MissingPort
         else if hostport ! 0 = CHR ''['' then
           if closing < 0 then Inl MissingBracket
           else if closing + 1 = int (length hostport) then Inl MissingPort
           else if closing + 1 = i then
             split_at hostport (nat i) (drop 1 (take (nat closing) hostport)) 1 (nat closing + 1)
           else if hostport ! nat (closing + 1) = CHR '':'' then Inl TooManyColons
           else Inl MissingPort
         else if CHR '':'' \<in> set (take (nat i) hostport) then Inl TooManyColons
         else split_at hostport (nat i) (take (nat i) hostport) 0 0)"

text \<open>A text without colons and brackets.\<close>

definition plain_text :: "string \<Rightarrow> bool" where
  "plain_text s \<longleftrightarrow> CHR '':'' \<notin> set s \<and> CHR ''['' \<notin> set s \<and> CHR '']'' \<notin> set s"

lemma plain_textD:
  assumes "plain_text s"
  shows "CHR '':'' \<notin> set s" "CHR ''['' \<notin> set s" "CHR '']'' \<notin> set s"
  using assms by (simp_all add: plain_text_def)

lemma SplitHostPort_no_port: "CHR '':'' \<notin> set s \<Longrightarrow> SplitHostPort s = Inl MissingPort"
  by (simp add: SplitHostPort_def LastIndex_absent)

lemma SplitHostPort_plain:
  assumes "plain_text host" "plain_text port"
  shows "SplitHostPort (host @ '':'' @ port) = Inr (host, port)"
proof -
  have i: "LastIndex (host @ '':'' @ port) CHR '':'' = int (length host)"
    using LastIndex_append[OF plain_textD(1)[OF assms(2)], of host] by simp
  have first: "(host @ '':'' @ port) ! 0 \<noteq> CHR ''[''"
    using plain_textD(2)[OF assms(1)] by (cases host) auto
  show ?thesis
    using first plain_textD[OF assms(1)] plain_textD[OF assms(2)]
    unfolding SplitHostPort_def i by (simp add: split_at_def)
qed

text \<open>An address with colons stands in brackets.\<close>

lemma SplitHostPort_bracketed:
  assumes "CHR ''['' \<notin> set host" "CHR '']'' \<notin> set host" "plain_text port"
  shows "SplitHostPort (''['' @ host @ '']:'' @ port) = Inr (host, port)"
proof -
  let ?t = "''['' @ host @ '']:'' @ port"
  have i: "LastIndex ?t CHR '':'' = int (length host) + 2"
    using LastIndex_append[OF plain_textD(1)[OF assms(3)], of "''['' @ host @ '']''"] by simp
  have "takeWhile (\<lambda>z. z \<noteq> CHR '']'') ?t = ''['' @ host" using assms(2)
    by (simp, subst takeWhile_append2) auto
  then have closing: "Index ?t CHR '']'' = int (length host) + 1" by (simp add: Index_takeWhile)
  have "nat (int (length host) + 2) = length host + 2" "nat (int (length host) + 1) = length host + 1" by simp_all
  then show ?thesis
    using assms(1,2) plain_textD[OF assms(3)] unfolding SplitHostPort_def i closing by (simp add: split_at_def)
qed

section \<open>Hosts and addresses\<close>

text \<open>The error is dropped: an address without port has the empty host.\<close>

definition GetIP :: "string \<Rightarrow> string" where
  "GetIP remoteAddr = (case SplitHostPort remoteAddr of Inl _ \<Rightarrow> '''' | Inr (host, _) \<Rightarrow> host)"

record url =
  url_Scheme :: string
  url_Host :: string

definition GetHost :: "url \<Rightarrow> string" where
  "GetHost url =
     (case SplitHostPort (url_Host url) of
        Inr _ \<Rightarrow> url_Host url
      | Inl _ \<Rightarrow>
          if url_Scheme url = ''http'' then url_Host url @ '':'' @ ''80''
          else if url_Scheme url = ''https'' then url_Host url @ '':'' @ ''443''
          else url_Host url)"

text \<open>The host of a web address gets its default port, once.\<close>

lemma GetHost_default_port:
  assumes "plain_text host" "url_Host u = host" "url_Scheme u \<in> {''http'', ''https''}"
  shows "SplitHostPort (GetHost u) = Inr (host, if url_Scheme u = ''http'' then ''80'' else ''443'')"
    and "GetHost (u\<lparr>url_Host := GetHost u\<rparr>) = GetHost u"
proof -
  have "GetHost u = host @ '':'' @ (if url_Scheme u = ''http'' then ''80'' else ''443'')"
    using assms by (auto simp: GetHost_def SplitHostPort_no_port[OF plain_textD(1)])
  moreover have "plain_text (if url_Scheme u = ''http'' then ''80'' else ''443'')" by (simp add: plain_text_def)
  ultimately show split: "SplitHostPort (GetHost u) = Inr (host, if url_Scheme u = ''http'' then ''80'' else ''443'')"
    using SplitHostPort_plain[OF assms(1)] by simp
  then show "GetHost (u\<lparr>url_Host := GetHost u\<rparr>) = GetHost u"
    by (subst GetHost_def) simp
qed

lemma GetIP_bare_address: "CHR '':'' \<notin> set addr \<Longrightarrow> GetIP addr = ''''"
  by (simp add: GetIP_def SplitHostPort_no_port)

text \<open>\<open>resolve\<close> is \<open>net.ResolveTCPAddr\<close>, the text of the address and the port; \<open>dial\<close> is \<open>net.DialTimeout\<close>.\<close>

definition IsBackendAlive :: "(string \<Rightarrow> (string \<times> int) option) \<Rightarrow> (string \<Rightarrow> bool) \<Rightarrow> string \<Rightarrow> bool" where
  "IsBackendAlive resolve dial host =
     (case resolve host of None \<Rightarrow> False | Some (ip, port) \<Rightarrow> dial (ip @ '':'' @ Itoa port))"

text \<open>
  An IPv6 address is put before the port without brackets, and \<open>net.DialTimeout\<close> splits its address: a backend with
  such an address is never alive.
\<close>

lemma ipv6_backend_is_dead:
  assumes "resolve host = Some (ip, port)" "ip \<noteq> []" "hd ip \<noteq> CHR ''[''" "CHR '':'' \<in> set ip"
    "\<And>a. dial a \<Longrightarrow> \<exists>h p. SplitHostPort a = Inr (h, p)"
  shows "\<not> IsBackendAlive resolve dial host"
proof -
  let ?a = "ip @ '':'' @ Itoa port"
  have "CHR '':'' \<notin> set (Itoa port)" by (rule Itoa_no_sep) simp_all
  from LastIndex_append[OF this, of ip] have i: "LastIndex ?a CHR '':'' = int (length ip)" by simp
  have "?a ! 0 \<noteq> CHR ''[''" using assms(2,3) by (cases ip) simp_all
  then have "SplitHostPort ?a = Inl TooManyColons" using assms(4) unfolding SplitHostPort_def i by simp
  with assms(5)[of ?a] have "\<not> dial ?a" by auto
  with assms(1) show ?thesis by (simp add: IsBackendAlive_def)
qed

text \<open>\<open>local\<close> is the local address of a UDP socket to 8.8.8.8, \<open>None\<close> when there is none; the result is \<open>ip\<close>.\<close>

definition GetOutBoundIP :: "string option \<Rightarrow> string option" where
  "GetOutBoundIP local = (case local of None \<Rightarrow> None | Some addr \<Rightarrow> Some (hd (Split CHR '':'' addr)))"

lemma GetOutBoundIP_host: "CHR '':'' \<notin> set ip \<Longrightarrow> GetOutBoundIP (Some (ip @ '':'' @ port)) = Some ip"
  using Split_append_sep[of "CHR '':''" ip port] by (simp add: GetOutBoundIP_def)

section \<open>Listeners\<close>

definition CreateListener :: "(string \<Rightarrow> 'l option) \<Rightarrow> int \<Rightarrow> 'l option" where
  "CreateListener listen port = listen ('':'' @ Itoa port)"

datatype tls_error = KeyPairError | ErrorFailParseCert | ListenError

text \<open>The certificate is also the pool the certificates of clients are checked with.\<close>

record 'c tls_config =
  tls_ClientCAs :: "8 word list"
  tls_ServerName :: string
  tls_Certificates :: "'c list"
  tls_RequireClientCert :: bool

definition ListenTls ::
  "(8 word list \<Rightarrow> 8 word list \<Rightarrow> 'c option) \<Rightarrow> (8 word list \<Rightarrow> bool) \<Rightarrow> (string \<Rightarrow> 'c tls_config \<Rightarrow> 'l option) \<Rightarrow>
     string \<Rightarrow> int \<Rightarrow> 8 word list \<Rightarrow> 8 word list \<Rightarrow> tls_error + 'l" where
  "ListenTls X509KeyPair AppendCertsFromPEM listen ip port certBytes keyBytes =
     (case X509KeyPair certBytes keyBytes of
        None \<Rightarrow> Inl KeyPairError
      | Some cert \<Rightarrow>
          if \<not> AppendCertsFromPEM certBytes then Inl ErrorFailParseCert
          else case listen (ip @ '':'' @ Itoa port) \<lparr>tls_ClientCAs = certBytes, tls_ServerName = ''vermouth'',
              tls_Certificates = [cert], tls_RequireClientCert = True\<rparr> of
            None \<Rightarrow> Inl ListenError
          | Some ln \<Rightarrow> Inr ln)"

end
