(* ===== verification/ServerChannel.thy ===== *)
theory ServerChannel
  imports NetUtils
begin

text \<open>
  \<open>src/vermouth/server_channel.go\<close>, which the program does not use yet: listeners with a goroutine that
  hands connections and packets to a function. Which sockets open is the argument \<open>listen\<close>, what a socket then
  receives a list; a connection and the sender of a packet are their address. Each connection is handled by its own goroutine, which recovers from panics.
\<close>

section \<open>The channel\<close>

text \<open>\<open>'h\<close> are the error handlers; \<open>None\<close> is nil.\<close>

record 'h ServerChannel =
  svc_ip :: string
  svc_port :: int
  svc_Listener :: "(string \<times> string) option"
  svc_UDPListener :: "(string \<times> string) option"
  svc_errHandler :: 'h

definition NewServerChannel :: "'h \<Rightarrow> string \<Rightarrow> int \<Rightarrow> 'h ServerChannel" where
  "NewServerChannel log_error ip port =
     \<lparr>svc_ip = ip, svc_port = port, svc_Listener = None, svc_UDPListener = None, svc_errHandler = log_error\<rparr>"

definition SetErrorHandler :: "'h \<Rightarrow> 'h ServerChannel \<Rightarrow> 'h ServerChannel" where
  "SetErrorHandler fn sc = sc\<lparr>svc_errHandler := fn\<rparr>"

text \<open>What a goroutine has done: the values handed on, the errors told the handler, and whether it has ended.\<close>

record ('a, 'h) served =
  sv_handed :: "'a list"
  sv_errors :: "('h \<times> string) list"
  sv_ended :: bool

fun receive_loop :: "'h \<Rightarrow> (string + 'a) list \<Rightarrow> ('a, 'h) served" where
  "receive_loop handler [] = \<lparr>sv_handed = [], sv_errors = [], sv_ended = False\<rparr>"
| "receive_loop handler (Inl err # rs) = \<lparr>sv_handed = [], sv_errors = [(handler, err)], sv_ended = True\<rparr>"
| "receive_loop handler (Inr x # rs) =
     (let sv = receive_loop handler rs in sv\<lparr>sv_handed := x # sv_handed sv\<rparr>)"

definition svc_addr :: "'h ServerChannel \<Rightarrow> string" where
  "svc_addr sc = svc_ip sc @ '':'' @ Itoa (svc_port sc)"

definition ListenerTCP ::
  "(string \<Rightarrow> string \<Rightarrow> string option) \<Rightarrow> (string + string) list \<Rightarrow> 'h ServerChannel \<Rightarrow>
     string + 'h ServerChannel \<times> (string, 'h) served" where
  "ListenerTCP listen conns sc =
     (case listen ''tcp'' (svc_addr sc) of
        Some err \<Rightarrow> Inl err
      | None \<Rightarrow> Inr (sc\<lparr>svc_Listener := Some (''tcp'', svc_addr sc)\<rparr>, receive_loop (svc_errHandler sc) conns))"

text \<open>
  The listener that was opened is kept in \<open>Listener\<close>, but packets are read from \<open>UDPListener\<close>; when that is nil
  the goroutine panics, and it recovers and ends. A packet is cut at the size of the buffer.
\<close>

definition ListenerUDP ::
  "(string \<Rightarrow> string \<Rightarrow> string option) \<Rightarrow> (string + 8 word list \<times> string) list \<Rightarrow> 'h ServerChannel \<Rightarrow>
     string + 'h ServerChannel \<times> (8 word list \<times> string, 'h) served" where
  "ListenerUDP listen packets sc =
     (case listen ''udp'' (svc_addr sc) of
        Some err \<Rightarrow> Inl err
      | None \<Rightarrow> Inr (sc\<lparr>svc_Listener := Some (''udp'', svc_addr sc)\<rparr>,
          case svc_UDPListener sc of
            None \<Rightarrow> \<lparr>sv_handed = [], sv_errors = [], sv_ended = True\<rparr>
          | Some _ \<Rightarrow> receive_loop (svc_errHandler sc) (map (map_sum id (map_prod (take 2048) id)) packets)))"

definition svc_ListenTls :: "'h ServerChannel \<Rightarrow> string option" where
  "svc_ListenTls sc = None"

section \<open>What is served\<close>

text \<open>Connections are handed on in order up to the first error, which ends the goroutine and is told the handler.\<close>

lemma receive_loop_handed:
  "receive_loop handler (map Inr xs @ Inl err # rs) =
    \<lparr>sv_handed = xs, sv_errors = [(handler, err)], sv_ended = True\<rparr>"
  by (induction xs) simp_all

lemma tcp_serves_until_error:
  assumes "listen ''tcp'' (svc_addr sc) = None"
  shows "\<exists>sc'. ListenerTCP listen (map Inr xs @ Inl err # rs) sc =
    Inr (sc', \<lparr>sv_handed = xs, sv_errors = [(svc_errHandler sc, err)], sv_ended = True\<rparr>)"
  using assms by (simp add: ListenerTCP_def receive_loop_handed)

text \<open>The states of a channel.\<close>

inductive svc_reachable :: "'h ServerChannel \<Rightarrow> bool" where
  New: "svc_reachable (NewServerChannel log_error ip port)"
| Handler: "svc_reachable sc \<Longrightarrow> svc_reachable (SetErrorHandler fn sc)"
| TCP: "svc_reachable sc \<Longrightarrow> ListenerTCP listen conns sc = Inr (sc', sv) \<Longrightarrow> svc_reachable sc'"
| UDP: "svc_reachable sc \<Longrightarrow> ListenerUDP listen packets sc = Inr (sc', sv) \<Longrightarrow> svc_reachable sc'"

lemma svc_no_udp_listener: "svc_reachable sc \<Longrightarrow> svc_UDPListener sc = None"
  by (induction rule: svc_reachable.induct)
    (auto simp: NewServerChannel_def SetErrorHandler_def ListenerTCP_def ListenerUDP_def split: option.splits)

text \<open>No channel ever hands a packet on, whatever arrives.\<close>

lemma udp_hands_nothing:
  assumes "svc_reachable sc" "ListenerUDP listen packets sc = Inr (sc', sv)"
  shows "sv_handed sv = [] \<and> sv_errors sv = [] \<and> sv_ended sv"
  using assms(2) by (auto simp: ListenerUDP_def svc_no_udp_listener[OF assms(1)] split: option.splits)

end
