(* ===== verification/Spec2Isabelle.thy ===== *)
theory Spec2Isabelle
  imports AclHistory DiscoveredService NodeStart SnapshotLog AsyncLog ErrorPage NetAddress ServerChannel
begin

text \<open>
  Vermouth, an HTTP gateway.

  The program. A node of Vermouth keeps a table of reverse proxies, one per port
  (\<open>src/vermouth/context.go\<close>). A proxy (\<open>http_proxy.go\<close>) looks a client up in its access control list
  (\<open>src/acl\<close>), maps the path of a request to a prefix (\<open>src/prefix\<close>) and to a host chosen by the balancer
  of that prefix (\<open>src/balancer\<close>), takes a token of the rate limiter of the path (\<open>src/rate_limiter\<close>), and
  hands the request on. The tables are changed by operators over HTTP (\<open>http_server.go\<close>), by services over
  RPC (\<open>rpc_server.go\<close>, \<open>src/client\<close>) and by the events of service discovery (\<open>src/discovery\<close>). In stand
  mode a change is made at once; in a cluster it is an entry of raft's log, which every node applies
  (\<open>vermouth_state_manager.go\<close>, \<open>log_entry*.go\<close>, \<open>raft_info.go\<close>). Snapshots bring the tables back after a
  restart. A client that is forbidden sees a page with the script \<open>src/static/403/script.js\<close>.

  How Go is modelled. A call returns a value or a fault (\<open>Prelude\<close>): the panics of the runtime, calls of
  \<open>panic\<close>, waiting for a lock or a channel that this goroutine itself would have to serve (\<open>Deadlock\<close>), and
  a loop that does not end. An error value of Go is a value of the model. Locks are fields of the records,
  and a method takes and frees them as the code does. Strings are lists of bytes; \<open>int\<close> and \<open>int64\<close> are
  \<open>int\<close> where the code only compares and counts, and words where it wraps, shifts or hashes: addresses are
  \<open>32 word\<close>, the counter of the round robin is \<open>64 word\<close>, option codes are \<open>16 word\<close>. A range over a Go map
  visits the keys in an order that is an argument. \<open>GoStrings\<close> and \<open>GoNumbers\<close> hold what the program uses
  of \<open>strings\<close> and \<open>strconv\<close>.

  The theories, bottom up.

  \<^item> \<open>RadixTree\<close> has the operations of \<open>acl/radix_tree.go\<close> on an explicit heap of nodes with its free list;
    \<open>RadixTreeBits\<close>, \<open>RadixTreeInv\<close> and \<open>RadixTreeOps\<close> show that a well-formed tree stays one and holds the
    table of its networks. \<open>CidrTable\<close> states the contract of such a table as locales and interprets them on
    the tree. \<open>AccessList\<close> and \<open>AclHistory\<close> go up to texts and histories: after additions, and after
    removals, exactly the clients the networks cover are turned away; and what goes wrong when a freed node
    is handed out again. \<open>NetUtils\<close> has the pure functions of \<open>utils/net.go\<close> and \<open>utils/tag.go\<close>,
    \<open>NetAddress\<close> those on host and port texts over \<open>net.SplitHostPort\<close>, and those that open sockets.
  \<^item> \<open>Balancer\<close> is the contract of a balancer as locales. \<open>RoundRobin\<close> and \<open>ConsistHash\<close> with \<open>ConsistRing\<close>
    are the two balancers, their interpretations, fairness and monotonicity; \<open>BalancerFactory\<close> the dispatch.
  \<^item> \<open>HashPrefixer\<close> is the table of prefixes with its contract: a path goes to its longest prefix.
    \<open>RateLimiter\<close> is the limiter over the token bucket library.
  \<^item> \<open>HttpProxy\<close> is the proxy, \<open>ServeRequest\<close> the path of a request, \<open>ServeClaims\<close> what clients see of it.
    \<open>ProxyTables\<close> gives the abstract view of the tables (\<open>view\<close>, \<open>view_edit\<close>) and shows that every method
    that edits them simulates its edit on the view. \<open>ProxyRestore\<close> builds proxies from the configuration and
    from snapshots.
  \<^item> \<open>LogEntry\<close> is the format of entries, \<open>StateContext\<close> the state machine with all handlers, \<open>StateManager\<close>
    the commands in both modes and that a committed command is the command of stand mode. \<open>Replicas\<close> shows
    that nodes with the same log agree on their tables whatever requests they serve, and where they do not.
    \<open>StateSnapshot\<close> writes and reads snapshots, and \<open>SnapshotLog\<close> shows when a snapshot with the rest of
    the log stands for the whole log.
  \<^item> \<open>ZkDiscovery\<close> has the watch loops of \<open>discovery/zookeeper_client.go\<close> as a step relation,
    \<open>DiscoveryEvents\<close> what the node does with their events, as a refinement of edits of the view.
  \<^item> \<open>HttpServer\<close>, \<open>RpcServer\<close> and \<open>RpcClient\<close> are the two servers and the client library, \<open>Config\<close> the
    configuration and its check, \<open>Leadership\<close> what a change of leadership opens and closes, \<open>NodeStart\<close> how a
    node is built, started and joined to a cluster.
  \<^item> \<open>GatewayState\<close>, \<open>GatewayCalls\<close> and \<open>Gateway\<close> put the parts together: the well-formed states and that every
    operation keeps them; the calls from outside (commands, registrations, cancellations, questions, events,
    requests, drained connections) and that a call returns exactly when the gateway can take it (\<open>takes_call\<close>);
    and the step relation of these calls, with the well-formedness of every reachable state and progress
    (\<open>reachable_states_wf\<close>), that every request is answered in it (\<open>reachable_request_answered\<close>), and that
    requests are only passed on to hosts that were named (\<open>requests_go_to_named_hosts\<close>). \<open>DiscoveredService\<close> follows a service from its nodes in
    ZooKeeper to the requests of its clients.
  \<^item> \<open>FileLog\<close> and \<open>Logger\<close> are the log files and the loggers, \<open>AsyncLog\<close> the asynchronous mode as a step
    relation over its goroutines, which nothing of the program turns on.
  \<^item> \<open>ServerChannel\<close> is \<open>vermouth/server_channel.go\<close>, which the program does not use yet: a connection is handed on
    up to the first error, a packet never.
  \<^item> \<open>JsRegExp\<close> is the part of JavaScript's regular expressions the script of the page uses, with the order
    of backtracking; \<open>ErrorPage\<close> is the script: \<open>navigator.sayswho\<close> and the page as a state machine.

  Arguments of the model, for code that is not in the repository: \<open>rate_lib\<close> (golang.org/x/time/rate), \<open>gob\<close>
  and \<open>json\<close>, \<open>json_in\<close>, \<open>json_out\<close> (encoders, with the round trip as hypothesis \<open>gob_ok\<close> and \<open>json_ok\<close>),
  \<open>env_listen\<close> (whether a port can be listened on), \<open>env_raft\<close> (whether raft commits an entry), \<open>add_voter\<close>,
  \<open>delivery\<close> (gRPC), \<open>raft_lib\<close> (which of raft's calls fail at the start), what ZooKeeper answers, \<open>timelib\<close>, \<open>pages\<close>
  (viper, go-sysinfo and the files of the web interface), and which operations of the file system fail. The
  witnesses instantiate them with concrete functions. What jQuery and the timeline library do is recorded as
  the list of calls the script makes.

  Bounds. The round robin is fair as long as its counter does not wrap (\<open>2 ^ 64\<close> requests), and slices are
  shorter than \<open>2 ^ 63\<close>, which is Go's bound. Loops are structural or have a measure; only the lookup in a
  tree with a cycle does not end, and it is modelled with \<open>partial_function\<close>. The reachable states of
  \<open>Gateway\<close> are those of prefixes balanced round-robin: a consistent-hash balancer keeps its read lock after
  one request, and an edit of its prefix waits for ever (\<open>consistent_hash_lock_leak\<close>). They are reached by calls
  that return. A call the gateway cannot take ends in a panic, which the HTTP server recovers, or in a wait: what
  it leaves behind is given by \<open>AddPrefix_outcome\<close> and \<open>SetRateLimit_outcome\<close> of \<open>HttpProxy\<close>, with
  \<open>AddPrefix_leaves\<close>, \<open>SetRateLimit_leaves\<close> and \<open>zero_speed_stops_restore\<close>. The abstract view of tables, and
  what rests on it (\<open>ProxyTables\<close>, \<open>Replicas\<close>, the snapshots, \<open>DiscoveryEvents\<close>, \<open>NodeStart\<close>), is of round-robin
  prefixes too; \<open>ServeClaims\<close>, \<open>HashPrefixer\<close> and \<open>BalancerFactory\<close> cover both balancers.

  Not modelled: sockets, TLS and gRPC; the wheel timer and viper; \<open>snapshot.go\<close>, which nothing uses; data races between goroutines other than
  the interleavings of \<open>ZkDiscovery\<close> and \<open>Gateway\<close>; the generated code of \<open>src/pb\<close> and the minified bundle
  of the web interface, whose source is not in the repository.
\<close>

end
